(* ===== verification/JsPrelude.thy ===== *)
theory JsPrelude
  imports Main "HOL-Library.AList" "HOL-Library.Multiset" "HOL-Library.Code_Target_Nat"
begin

text \<open>
  The shared vocabulary of the development: the parts of the JavaScript language and of its
  standard library that the sources under \<^verbatim>\<open>src/web\<close> use on strings, arrays, sets and
  maps, with the generic lemmas the component theories rest on.

  A JavaScript string is the list of its UTF-16 code units, each a natural number; a literal is
  written \<open>js ''...''\<close>.  \<open>Array.prototype.sort\<close> is stable in ECMAScript 2019 and later, so
  it is modelled by a stable insertion sort over the comparator.  A \<open>Set\<close> built from an array
  keeps first occurrences in order, and a \<open>Map\<close> is an association list whose \<open>set\<close> updates
  in place or appends (\<^const>\<open>AList.update\<close>).
\<close>

section \<open>Collections of facts\<close>

named_theorems js_eval \<open>equations that evaluate closed terms of the string library\<close>

section \<open>Strings\<close>

type_synonym jchar = nat
type_synonym jstr = "jchar list"

definition js :: "string \<Rightarrow> jstr" where
  "js s = map of_char s"

definition chr :: "char \<Rightarrow> jchar" where
  "chr c = of_char c"

declare js_def [js_eval] chr_def [js_eval]

lemma js_append: "js (s @ t) = js s @ js t"
  by (simp add: js_def)

lemma js_Nil [simp]: "js [] = []"
  by (simp add: js_def)

lemma length_js [simp]: "length (js s) = length s"
  by (simp add: js_def)

text \<open>White space and line terminators, as \<open>trim\<close> and \<open>\s\<close> of a regular expression use them.\<close>

definition is_ws :: "jchar \<Rightarrow> bool" where
  "is_ws c \<longleftrightarrow> c = 9 \<or> c = 10 \<or> c = 11 \<or> c = 12 \<or> c = 13 \<or> c = 32 \<or> c = 160 \<or> c = 5760
     \<or> (8192 \<le> c \<and> c \<le> 8202) \<or> c = 8232 \<or> c = 8233 \<or> c = 8239 \<or> c = 8287 \<or> c = 12288
     \<or> c = 65279"

declare is_ws_def [js_eval]

definition js_trim :: "jstr \<Rightarrow> jstr" where
  "js_trim s = rev (dropWhile is_ws (rev (dropWhile is_ws s)))"

declare js_trim_def [js_eval]

lemma js_trim_Nil [simp]: "js_trim [] = []"
  by (simp add: js_trim_def)

lemma set_js_trim: "set (js_trim s) \<subseteq> set s"
  unfolding js_trim_def by (metis set_dropWhileD set_rev subsetI)

lemma dropWhile_hd_id: "(\<And>x xs. s = x # xs \<Longrightarrow> \<not> P x) \<Longrightarrow> dropWhile P s = s"
  by (cases s) auto

text \<open>A string that neither starts nor ends with white space is its own trim.\<close>

definition trimmed :: "jstr \<Rightarrow> bool" where
  "trimmed s \<longleftrightarrow> s = [] \<or> \<not> is_ws (hd s) \<and> \<not> is_ws (last s)"

lemma js_trim_id:
  assumes "trimmed s"
  shows "js_trim s = s"
proof (cases "s = []")
  case False
  then have "dropWhile is_ws s = s" and "dropWhile is_ws (rev s) = rev s"
    using assms by (auto simp: trimmed_def hd_rev intro!: dropWhile_hd_id dest: sym [of "rev s"])
  then show ?thesis by (simp add: js_trim_def)
qed simp

lemma trimmed_no_ws: "\<forall>c \<in> set s. \<not> is_ws c \<Longrightarrow> trimmed s"
  by (cases s) (auto simp: trimmed_def)

lemma trimmed_js_trim [simp]: "trimmed (js_trim s)"
proof -
  let ?r = "dropWhile is_ws (rev (dropWhile is_ws s))"
  have last_ok: "?r \<noteq> [] \<Longrightarrow> \<not> is_ws (hd ?r)"
    by (rule hd_dropWhile)
  obtain ys where ys: "rev (dropWhile is_ws s) = ys @ ?r"
    using takeWhile_dropWhile_id by metis
  then have split: "dropWhile is_ws s = rev ?r @ rev ys"
    by (metis rev_append rev_rev_ident)
  have "\<not> is_ws (hd (rev ?r))" if "?r \<noteq> []"
  proof -
    have "dropWhile is_ws s \<noteq> []" using that by (metis dropWhile.simps(1) rev.simps(1))
    then have "\<not> is_ws (hd (dropWhile is_ws s))" by (rule hd_dropWhile)
    then show ?thesis using split that by (metis hd_append2 rev_is_Nil_conv)
  qed
  then show ?thesis
    using last_ok by (auto simp: trimmed_def js_trim_def last_rev)
qed

lemma js_trim_idem [simp]: "js_trim (js_trim s) = js_trim s"
  by (rule js_trim_id) simp

subsection \<open>Prefixes, search, slices\<close>

definition starts_with :: "'a list \<Rightarrow> 'a list \<Rightarrow> bool" where
  "starts_with p s \<longleftrightarrow> take (length p) s = p"

declare starts_with_def [js_eval]

lemma starts_with_iff: "starts_with p s \<longleftrightarrow> (\<exists>t. s = p @ t)"
  by (auto simp: starts_with_def) (metis append_take_drop_id)

lemma starts_with_append [simp]: "starts_with p (p @ t)"
  by (simp add: starts_with_def)

text \<open>The first occurrence of a pattern (\<open>indexOf\<close>; \<^const>\<open>None\<close> stands for \<open>-1\<close>).\<close>

fun index_of :: "'a list \<Rightarrow> 'a list \<Rightarrow> nat option" where
  "index_of p [] = (if p = [] then Some 0 else None)"
| "index_of p (c # s) = (if starts_with p (c # s) then Some 0 else map_option Suc (index_of p s))"

definition js_includes :: "'a list \<Rightarrow> 'a list \<Rightarrow> bool" where
  "js_includes s p \<longleftrightarrow> index_of p s \<noteq> None"

declare js_includes_def [js_eval]

lemma index_of_Some:
  "index_of p s = Some i \<Longrightarrow> s = take i s @ p @ drop (i + length p) s"
proof (induction s arbitrary: i)
  case Nil
  then show ?case by (auto split: if_splits)
next
  case (Cons c s)
  show ?case
  proof (cases "starts_with p (c # s)")
    case True
    then obtain t where "c # s = p @ t" by (auto simp: starts_with_iff)
    then show ?thesis using Cons.prems True by (metis append_Nil append_eq_conv_conj index_of.simps(2)
          option.inject plus_nat.add_0 take0)
  next
    case False
    with Cons.prems obtain j where j: "index_of p s = Some j" and "i = Suc j" by auto
    from Cons.IH [OF j] \<open>i = Suc j\<close> show ?thesis by simp
  qed
qed

lemma index_of_Some_le: "index_of p s = Some i \<Longrightarrow> i + length p \<le> length s"
proof (induction s arbitrary: i)
  case Nil
  then show ?case by (auto split: if_splits)
next
  case (Cons c s)
  then show ?case
    by (auto simp: starts_with_iff split: if_splits dest: arg_cong [where f = length])
qed

lemma index_of_None_iff: "index_of p s = None \<longleftrightarrow> \<not> (\<exists>u v. s = u @ p @ v)"
proof (induction s)
  case Nil
  then show ?case by auto
next
  case (Cons c s)
  have "(\<exists>u v. c # s = u @ p @ v) \<longleftrightarrow> starts_with p (c # s) \<or> (\<exists>u v. s = u @ p @ v)"
  proof
    assume "\<exists>u v. c # s = u @ p @ v"
    then obtain u v where "c # s = u @ p @ v" by blast
    then show "starts_with p (c # s) \<or> (\<exists>u v. s = u @ p @ v)"
      by (cases u) (auto simp: starts_with_iff)
  next
    assume "starts_with p (c # s) \<or> (\<exists>u v. s = u @ p @ v)"
    then show "\<exists>u v. c # s = u @ p @ v"
      by (metis starts_with_iff append_Cons append_Nil)
  qed
  then show ?case using Cons.IH by simp
qed

text \<open>Nothing before the reported position starts an occurrence.\<close>

lemma index_of_append:
  assumes "\<And>u v. x = u @ v \<Longrightarrow> v \<noteq> [] \<Longrightarrow> \<not> starts_with p (v @ p @ y)"
  shows "index_of p (x @ p @ y) = Some (length x)"
  using assms
proof (induction x)
  case Nil
  show ?case
  proof (cases "p @ y")
    case (Cons c t)
    then have "starts_with p (c # t)" by (metis starts_with_append)
    then show ?thesis using Cons by simp
  qed simp
next
  case (Cons c x)
  have "\<not> starts_with p ((c # x) @ p @ y)" by (rule Cons.prems [of "[]"]) auto
  moreover have "index_of p (x @ p @ y) = Some (length x)"
  proof (rule Cons.IH)
    fix u v assume "x = u @ v" "v \<noteq> []"
    then show "\<not> starts_with p (v @ p @ y)" using Cons.prems [of "c # u" v] by simp
  qed
  ultimately show ?case by simp
qed

lemma js_includes_iff: "js_includes s p \<longleftrightarrow> (\<exists>u v. s = u @ p @ v)"
  by (simp add: js_includes_def index_of_None_iff)

definition slice :: "nat \<Rightarrow> nat \<Rightarrow> 'a list \<Rightarrow> 'a list" where
  "slice a b s = take (b - a) (drop a s)"

declare slice_def [js_eval]

subsection \<open>\<open>split\<close> and \<open>join\<close>\<close>

fun split_on :: "'a \<Rightarrow> 'a list \<Rightarrow> 'a list list" where
  "split_on d [] = [[]]"
| "split_on d (x # xs) =
     (if x = d then [] # split_on d xs
      else (case split_on d xs of [] \<Rightarrow> [[x]] | y # ys \<Rightarrow> (x # y) # ys))"

fun join :: "'a list \<Rightarrow> 'a list list \<Rightarrow> 'a list" where
  "join sep [] = []"
| "join sep [x] = x"
| "join sep (x # y # zs) = x @ sep @ join sep (y # zs)"

lemma split_on_not_Nil [simp]: "split_on d s \<noteq> []"
  by (cases s) (auto split: list.splits)

lemma split_on_no_delim: "d \<notin> set s \<Longrightarrow> split_on d s = [s]"
  by (induction s) auto

lemma split_on_append: "d \<notin> set x \<Longrightarrow> split_on d (x @ d # s) = x # split_on d s"
  by (induction x) auto

lemma split_on_join:
  "xs \<noteq> [] \<Longrightarrow> \<forall>x \<in> set xs. d \<notin> set x \<Longrightarrow> split_on d (join [d] xs) = xs"
  by (induction "[d]" xs rule: join.induct) (auto simp: split_on_no_delim split_on_append)

lemma join_split_on: "join [d] (split_on d s) = s"
proof (induction s)
  case Nil
  then show ?case by simp
next
  case (Cons x s)
  then show ?case by (cases "split_on d s") (auto, (metis join.simps append_Cons list.exhaust)+)
qed

lemma split_on_elem: "x \<in> set (split_on d s) \<Longrightarrow> d \<notin> set x"
  by (induction s arbitrary: x) (auto split: list.splits if_splits)

section \<open>Sets and sorted arrays\<close>

text \<open>\<open>Array.from(new Set(xs))\<close>: first occurrences, in order.\<close>

definition js_uniq :: "'a list \<Rightarrow> 'a list" where
  "js_uniq xs = rev (remdups (rev xs))"

declare js_uniq_def [js_eval]

lemma set_js_uniq [simp]: "set (js_uniq xs) = set xs"
  by (simp add: js_uniq_def)

lemma distinct_js_uniq [simp]: "distinct (js_uniq xs)"
  by (simp add: js_uniq_def)

lemma js_uniq_id: "distinct xs \<Longrightarrow> js_uniq xs = xs"
  by (simp add: js_uniq_def distinct_remdups_id)

lemma js_uniq_Nil [simp]: "js_uniq [] = []"
  by (simp add: js_uniq_def)

text \<open>A comparator is negative, zero or positive, as \<open>sort\<close> reads it.\<close>

fun js_insert :: "('a \<Rightarrow> 'a \<Rightarrow> int) \<Rightarrow> 'a \<Rightarrow> 'a list \<Rightarrow> 'a list" where
  "js_insert cmp x [] = [x]"
| "js_insert cmp x (y # ys) = (if cmp y x \<le> 0 then y # js_insert cmp x ys else x # y # ys)"

definition js_sort :: "('a \<Rightarrow> 'a \<Rightarrow> int) \<Rightarrow> 'a list \<Rightarrow> 'a list" where
  "js_sort cmp xs = foldl (\<lambda>acc x. js_insert cmp x acc) [] xs"

declare js_sort_def [js_eval]

lemma mset_js_insert [simp]: "mset (js_insert cmp x ys) = add_mset x (mset ys)"
  by (induction ys) auto

lemma set_js_insert [simp]: "set (js_insert cmp x ys) = insert x (set ys)"
  by (induction ys) auto

lemma mset_foldl_js_insert:
  "mset (foldl (\<lambda>acc x. js_insert cmp x acc) acc xs) = mset acc + mset xs"
  by (induction xs arbitrary: acc) auto

lemma mset_js_sort [simp]: "mset (js_sort cmp xs) = mset xs"
  by (simp add: js_sort_def mset_foldl_js_insert)

lemma set_js_sort [simp]: "set (js_sort cmp xs) = set xs"
  by (metis mset_js_sort set_mset_mset)

lemma length_js_sort [simp]: "length (js_sort cmp xs) = length xs"
  by (metis mset_js_sort size_mset)

lemma js_sort_Nil [simp]: "js_sort cmp [] = []"
  by (simp add: js_sort_def)

lemma distinct_js_sort [simp]: "distinct (js_sort cmp xs) = distinct xs"
  by (metis mset_js_sort mset_eq_imp_distinct_iff)

text \<open>
  What \<open>sort\<close> asks of its comparator: the relation \<open>cmp a b \<le> 0\<close> is total and transitive.  The
  sorted order of the result follows once, for every comparator of the program.
\<close>

locale js_comparator =
  fixes cmp :: "'a \<Rightarrow> 'a \<Rightarrow> int"
  assumes cmp_total: "cmp a b \<le> 0 \<or> cmp b a \<le> 0"
    and cmp_trans: "cmp a b \<le> 0 \<Longrightarrow> cmp b c \<le> 0 \<Longrightarrow> cmp a c \<le> 0"
begin

lemma sorted_insert:
  "sorted_wrt (\<lambda>a b. cmp a b \<le> 0) ys \<Longrightarrow> sorted_wrt (\<lambda>a b. cmp a b \<le> 0) (js_insert cmp x ys)"
  by (induction ys) (use cmp_total in \<open>auto intro: cmp_trans\<close>)

lemma sorted_foldl_insert:
  "sorted_wrt (\<lambda>a b. cmp a b \<le> 0) acc \<Longrightarrow>
   sorted_wrt (\<lambda>a b. cmp a b \<le> 0) (foldl (\<lambda>acc x. js_insert cmp x acc) acc xs)"
  by (induction xs arbitrary: acc) (auto intro: sorted_insert)

lemma sorted_sort: "sorted_wrt (\<lambda>a b. cmp a b \<le> 0) (js_sort cmp xs)"
  unfolding js_sort_def by (rule sorted_foldl_insert) simp

end

text \<open>An array that is already in order is left as it is.\<close>

lemma js_insert_last:
  "\<forall>y \<in> set ys. cmp y x \<le> 0 \<Longrightarrow> js_insert cmp x ys = ys @ [x]"
  by (induction ys) auto

lemma foldl_js_insert_sorted:
  "sorted_wrt (\<lambda>a b. cmp a b \<le> 0) (acc @ xs) \<Longrightarrow>
   foldl (\<lambda>acc x. js_insert cmp x acc) acc xs = acc @ xs"
proof (induction xs arbitrary: acc)
  case Nil
  then show ?case by simp
next
  case (Cons x xs)
  from Cons.prems have "js_insert cmp x acc = acc @ [x]"
    by (intro js_insert_last) (auto simp: sorted_wrt_append)
  with Cons.IH [of "acc @ [x]"] Cons.prems show ?case by simp
qed

lemma js_sort_id: "sorted_wrt (\<lambda>a b. cmp a b \<le> 0) xs \<Longrightarrow> js_sort cmp xs = xs"
  by (simp add: js_sort_def foldl_js_insert_sorted)

section \<open>Decimal digits\<close>

definition is_digit :: "jchar \<Rightarrow> bool" where
  "is_digit c \<longleftrightarrow> 48 \<le> c \<and> c \<le> 57"

declare is_digit_def [js_eval]

fun show_nat :: "nat \<Rightarrow> jstr" where
  "show_nat n = (if n < 10 then [48 + n] else show_nat (n div 10) @ [48 + n mod 10])"

declare show_nat.simps [simp del]

definition parse_digits :: "jstr \<Rightarrow> nat" where
  "parse_digits s = foldl (\<lambda>a c. 10 * a + (c - 48)) 0 s"

declare parse_digits_def [js_eval]

lemma parse_digits_snoc: "parse_digits (s @ [c]) = 10 * parse_digits s + (c - 48)"
  by (simp add: parse_digits_def)

lemma parse_show_nat [simp]: "parse_digits (show_nat n) = n"
proof (induction n rule: show_nat.induct)
  case (1 n)
  show ?case
  proof (cases "n < 10")
    case True
    then show ?thesis by (simp add: show_nat.simps [of n] parse_digits_def)
  next
    case False
    then show ?thesis using 1 by (simp add: show_nat.simps [of n] parse_digits_snoc)
  qed
qed

lemma show_nat_not_Nil [simp]: "show_nat n \<noteq> []"
  by (simp add: show_nat.simps [of n])

lemma show_nat_digits: "c \<in> set (show_nat n) \<Longrightarrow> is_digit c"
proof (induction n rule: show_nat.induct)
  case (1 n)
  show ?case
  proof (cases "n < 10")
    case True
    then show ?thesis using 1 by (simp add: show_nat.simps [of n] is_digit_def)
  next
    case False
    then have "n mod 10 < 10" by simp
    then have "is_digit (48 + n mod 10)" by (auto simp: is_digit_def)
    then show ?thesis using 1 False by (auto simp: show_nat.simps [of n])
  qed
qed

lemma is_digit_not_ws: "is_digit c \<Longrightarrow> \<not> is_ws c"
  by (auto simp: is_digit_def is_ws_def)

lemma show_nat_inj: "show_nat m = show_nat n \<longleftrightarrow> m = n"
  by (metis parse_show_nat)

end
