(* ===== verification/StatusCodeRules.thy ===== *)
theory StatusCodeRules
  imports JsPrelude
begin

text \<open>
  \<^verbatim>\<open>src/web/src/lib/http-status-code-rules.ts\<close>: the rules an administrator types to say which
  upstream status codes disable a channel or retry a request (\<open>"401, 500-503"\<close>).  The text is cut
  into tokens, each token becomes a range, and the ranges are merged into a canonical list that is
  printed back as the stored setting.

  \<open>Number.parseInt\<close> of an all-digit token is the exact number here; the double it is in the program
  differs only from \<open>2 ^ 53\<close> on, where both are refused by the bound 599.
\<close>

section \<open>Data\<close>

record status_range =
  rstart :: nat
  rend :: nat

record parsed_rules =
  rules_ok :: bool
  rules_ranges :: "status_range list"
  rules_tokens :: "jstr list"
  rules_normalized :: jstr
  rules_invalid :: "jstr list"

section \<open>Operations\<close>

definition isNumber :: "jstr \<Rightarrow> bool" where
  "isNumber s \<longleftrightarrow> s \<noteq> [] \<and> list_all is_digit s"

definition isValidCode :: "nat \<Rightarrow> bool" where
  "isValidCode code \<longleftrightarrow> code \<ge> 100 \<and> code \<le> 599"

definition parseToken :: "jstr \<Rightarrow> status_range option" where
  "parseToken token =
     (let cleaned = filter (\<lambda>c. \<not> is_ws c) (js_trim token) in
      if cleaned = [] then None
      else if chr CHR ''-'' \<in> set cleaned then
        (case split_on (chr CHR ''-'') cleaned of
           a # b # _ \<Rightarrow>
             if \<not> isNumber a \<or> \<not> isNumber b then None
             else let start = parse_digits a; end' = parse_digits b in
               if \<not> isValidCode start \<or> \<not> isValidCode end' \<or> start > end' then None
               else Some \<lparr>rstart = start, rend = end'\<rparr>
         | _ \<Rightarrow> None)
      else if \<not> isNumber cleaned then None
      else let code = parse_digits cleaned in
        if \<not> isValidCode code then None
        else Some \<lparr>rstart = code, rend = code\<rparr>)"

definition range_cmp :: "status_range \<Rightarrow> status_range \<Rightarrow> int" where
  "range_cmp a b =
     (if rstart a \<noteq> rstart b then int (rstart a) - int (rstart b) else int (rend a) - int (rend b))"

definition merge_step :: "status_range list \<Rightarrow> status_range \<Rightarrow> status_range list" where
  "merge_step merged current =
     (if merged = [] \<or> rstart current > rend (last merged) + 1 then merged @ [current]
      else butlast merged @ [(last merged)\<lparr>rend := max (rend (last merged)) (rend current)\<rparr>])"

definition mergeRanges :: "status_range list \<Rightarrow> status_range list" where
  "mergeRanges ranges =
     (if ranges = [] then [] else foldl merge_step [] (js_sort range_cmp ranges))"

definition range_token :: "status_range \<Rightarrow> jstr" where
  "range_token r =
     (if rstart r = rend r then show_nat (rstart r)
      else show_nat (rstart r) @ chr CHR ''-'' # show_nat (rend r))"

text \<open>The full-width comma U+FF0C that Chinese input methods produce.\<close>

abbreviation fullwidth_comma :: jchar where
  "fullwidth_comma \<equiv> 65292"

definition rule_segments :: "jstr \<Rightarrow> jstr list" where
  "rule_segments raw =
     (let sanitized = map (\<lambda>c. if c = fullwidth_comma then chr CHR '','' else c) raw in
      filter (\<lambda>s. s \<noteq> []) (map js_trim (split_on (chr CHR '','') sanitized)))"

text \<open>The loop over the segments: the ranges of the tokens that parse, and the tokens that do not.\<close>

fun collect_segments :: "jstr list \<Rightarrow> status_range list \<times> jstr list" where
  "collect_segments [] = ([], [])"
| "collect_segments (segment # segments) =
     (let (ranges, invalidTokens) = collect_segments segments in
      case parseToken segment of
        None \<Rightarrow> (ranges, segment # invalidTokens)
      | Some parsed \<Rightarrow> (parsed # ranges, invalidTokens))"

text \<open>\<open>None\<close> is the nullish input of \<open>input ?? ''\<close>.\<close>

definition parseHttpStatusCodeRules :: "jstr option \<Rightarrow> parsed_rules" where
  "parseHttpStatusCodeRules input =
     (let raw = js_trim (case input of None \<Rightarrow> [] | Some s \<Rightarrow> s) in
      if raw = [] then
        \<lparr>rules_ok = True, rules_ranges = [], rules_tokens = [], rules_normalized = [], rules_invalid = []\<rparr>
      else
        let (ranges, invalidTokens) = collect_segments (rule_segments raw) in
        if invalidTokens \<noteq> [] then
          \<lparr>rules_ok = False, rules_ranges = [], rules_tokens = [], rules_normalized = raw,
           rules_invalid = invalidTokens\<rparr>
        else
          let merged = mergeRanges ranges; tokens = map range_token merged in
          \<lparr>rules_ok = True, rules_ranges = merged, rules_tokens = tokens,
           rules_normalized = join [chr CHR '',''] tokens, rules_invalid = []\<rparr>)"

section \<open>The set of codes a list of ranges stands for\<close>

definition codes :: "status_range list \<Rightarrow> nat set" where
  "codes rs = (\<Union>r \<in> set rs. {rstart r..rend r})"

definition well_formed :: "status_range \<Rightarrow> bool" where
  "well_formed r \<longleftrightarrow> rstart r \<le> rend r"

text \<open>Ranges in order, with a gap of at least one code between neighbours.\<close>

definition canonical :: "status_range list \<Rightarrow> bool" where
  "canonical rs \<longleftrightarrow> list_all well_formed rs \<and> sorted_wrt (\<lambda>a b. rend a + 1 < rstart b) rs"

lemma codes_simps [simp]:
  "codes [] = {}"
  "codes (r # rs) = {rstart r..rend r} \<union> codes rs"
  "codes (xs @ ys) = codes xs \<union> codes ys"
  by (auto simp: codes_def)

lemma codes_cong_set: "set xs = set ys \<Longrightarrow> codes xs = codes ys"
  by (simp add: codes_def)

interpretation range_order: js_comparator range_cmp
  by unfold_locales (auto simp: range_cmp_def split: if_splits)

lemma canonical_butlast: "canonical rs \<Longrightarrow> canonical (butlast rs)"
  by (cases rs rule: rev_cases) (auto simp: canonical_def sorted_wrt_append)

text \<open>One step of the reduction keeps the canonical form as long as starts arrive in order.\<close>

lemma merge_step_canonical:
  assumes "canonical merged" and "well_formed current"
    and "\<forall>r \<in> set merged. rstart r \<le> rstart current"
  shows "canonical (merge_step merged current)"
    and "codes (merge_step merged current) = codes merged \<union> {rstart current..rend current}"
    and "\<forall>r \<in> set (merge_step merged current). rstart r \<le> rstart current"
proof -
  have "canonical (merge_step merged current)
      \<and> codes (merge_step merged current) = codes merged \<union> {rstart current..rend current}
      \<and> (\<forall>r \<in> set (merge_step merged current). rstart r \<le> rstart current)"
  proof (cases merged rule: rev_cases)
    case Nil
    then show ?thesis using assms by (simp add: merge_step_def canonical_def)
  next
    case (snoc ms l)
    have l: "well_formed l" "rstart l \<le> rstart current" using assms snoc by (auto simp: canonical_def)
    show ?thesis
    proof (cases "rstart current > rend l + 1")
      case True
      have "rend r + 1 < rstart current" if "r \<in> set ms" for r
      proof -
        have "rend r + 1 < rstart l" using assms(1) snoc that by (auto simp: canonical_def sorted_wrt_append)
        then show ?thesis using l by simp
      qed
      then show ?thesis
        using True assms snoc by (auto simp: merge_step_def canonical_def sorted_wrt_append)
    next
      case False
      then have "{rstart l..max (rend l) (rend current)} = {rstart l..rend l} \<union> {rstart current..rend current}"
        using l assms(2) by (auto simp: well_formed_def)
      then show ?thesis
        using False assms snoc l
        by (auto simp: merge_step_def canonical_def sorted_wrt_append well_formed_def)
    qed
  qed
  then show "canonical (merge_step merged current)"
    and "codes (merge_step merged current) = codes merged \<union> {rstart current..rend current}"
    and "\<forall>r \<in> set (merge_step merged current). rstart r \<le> rstart current" by blast+
qed

lemma foldl_merge_step:
  "canonical merged \<Longrightarrow> list_all well_formed rs \<Longrightarrow> sorted_wrt (\<lambda>a b. rstart a \<le> rstart b) rs
   \<Longrightarrow> (\<And>r c. r \<in> set merged \<Longrightarrow> c \<in> set rs \<Longrightarrow> rstart r \<le> rstart c)
   \<Longrightarrow> canonical (foldl merge_step merged rs) \<and> codes (foldl merge_step merged rs) = codes merged \<union> codes rs"
proof (induction rs arbitrary: merged)
  case Nil
  then show ?case by simp
next
  case (Cons r rs)
  have ok: "canonical merged" "well_formed r" "\<forall>m \<in> set merged. rstart m \<le> rstart r"
    using Cons.prems by auto
  note step = merge_step_canonical [OF ok]
  have "rstart m \<le> rstart c" if "m \<in> set (merge_step merged r)" "c \<in> set rs" for m c
    using step(3) that Cons.prems(3) by fastforce
  then have "canonical (foldl merge_step (merge_step merged r) rs)
      \<and> codes (foldl merge_step (merge_step merged r) rs) = codes (merge_step merged r) \<union> codes rs"
    using Cons.IH [of "merge_step merged r"] Cons.prems(2,3) step(1) by simp
  then show ?case using step(2) by auto
qed

lemma range_cmp_start: "range_cmp a b \<le> 0 \<Longrightarrow> rstart a \<le> rstart b"
  by (auto simp: range_cmp_def split: if_splits)

lemma sorted_starts: "sorted_wrt (\<lambda>a b. rstart a \<le> rstart b) (js_sort range_cmp rs)"
  by (rule sorted_wrt_mono_rel [OF _ range_order.sorted_sort]) (rule range_cmp_start)

lemma mergeRanges_spec:
  assumes "list_all well_formed rs"
  shows "canonical (mergeRanges rs)" and "codes (mergeRanges rs) = codes rs"
proof -
  have wf: "list_all well_formed (js_sort range_cmp rs)"
    using assms by (simp add: list_all_iff)
  have "canonical (foldl merge_step [] (js_sort range_cmp rs))
      \<and> codes (foldl merge_step [] (js_sort range_cmp rs)) = codes [] \<union> codes (js_sort range_cmp rs)"
    by (rule foldl_merge_step) (use wf sorted_starts in \<open>simp_all add: canonical_def\<close>)
  moreover have "codes (js_sort range_cmp rs) = codes rs" by (rule codes_cong_set) simp
  ultimately show "canonical (mergeRanges rs)" and "codes (mergeRanges rs) = codes rs"
    by (simp_all add: mergeRanges_def canonical_def)
qed

text \<open>A canonical list is determined by the codes it covers.\<close>

lemma canonical_first:
  assumes "canonical (r # rs)"
  shows "Min (codes (r # rs)) = rstart r" and "Suc (rend r) \<notin> codes (r # rs)"
proof -
  have later: "rend r + 1 < c" if "c \<in> codes rs" for c
    using assms that by (fastforce simp: canonical_def codes_def)
  have fin: "finite (codes (r # rs))" by (simp add: codes_def)
  show "Min (codes (r # rs)) = rstart r"
    by (rule Min_eqI [OF fin]) (use assms later in \<open>fastforce simp: canonical_def well_formed_def\<close>)+
  show "Suc (rend r) \<notin> codes (r # rs)"
    using later by fastforce
qed

lemma canonical_nonempty: "canonical (r # rs) \<Longrightarrow> rstart r \<in> codes (r # rs)"
  by (simp add: canonical_def well_formed_def)

lemma canonical_rest: "canonical (r # rs) \<Longrightarrow> codes rs = codes (r # rs) - {..rend r}"
  by (fastforce simp: canonical_def codes_def well_formed_def)

lemma canonical_unique:
  "canonical xs \<Longrightarrow> canonical ys \<Longrightarrow> codes xs = codes ys \<Longrightarrow> xs = ys"
proof (induction xs arbitrary: ys)
  case Nil
  then show ?case using canonical_nonempty by (cases ys) auto
next
  case (Cons x xs)
  then obtain y ys' where ys: "ys = y # ys'" using canonical_nonempty by (cases ys) auto
  have starts: "rstart x = rstart y" using Cons.prems canonical_first(1) ys by metis
  have "rend x = rend y"
  proof (rule ccontr)
    assume "rend x \<noteq> rend y"
    then consider "rend x < rend y" | "rend y < rend x" by linarith
    then show False
    proof cases
      case 1
      then have "Suc (rend x) \<in> codes ys" using starts Cons.prems(1) ys
        by (auto simp: canonical_def well_formed_def)
      then show False using canonical_first(2) [OF Cons.prems(1)] Cons.prems(3) by metis
    next
      case 2
      then have "Suc (rend y) \<in> codes (x # xs)" using starts Cons.prems(2) ys
        by (auto simp: canonical_def well_formed_def)
      then show False using canonical_first(2) Cons.prems(2,3) ys by metis
    qed
  qed
  then have "x = y" using starts by simp
  moreover have "xs = ys'"
    using Cons.IH [of ys'] Cons.prems ys \<open>x = y\<close> canonical_rest
    by (metis canonical_def list.pred_inject(2) sorted_wrt.simps(2))
  ultimately show ?case using ys by simp
qed

section \<open>Tokens\<close>

definition http_range :: "status_range \<Rightarrow> bool" where
  "http_range r \<longleftrightarrow> 100 \<le> rstart r \<and> rstart r \<le> rend r \<and> rend r \<le> 599"

lemma parseToken_Some: "parseToken t = Some r \<Longrightarrow> http_range r"
  by (auto simp: parseToken_def isValidCode_def http_range_def Let_def split: if_splits list.splits)

lemma isNumber_show_nat [simp]: "isNumber (show_nat n)"
  by (simp add: isNumber_def list_all_iff show_nat_digits)

lemma dash_not_digit: "\<not> is_digit (chr CHR ''-'')"
  and comma_not_digit: "\<not> is_digit (chr CHR '','')"
  and fullwidth_not_digit: "\<not> is_digit fullwidth_comma"
  and dash_not_ws: "\<not> is_ws (chr CHR ''-'')"
  by (simp_all add: is_digit_def is_ws_def chr_def)

lemma range_token_chars: "c \<in> set (range_token r) \<Longrightarrow> is_digit c \<or> c = chr CHR ''-''"
  by (auto simp: range_token_def show_nat_digits split: if_splits)

lemma range_token_plain:
  assumes "c \<in> set (range_token r)"
  shows "\<not> is_ws c" and "c \<noteq> chr CHR '',''" and "c \<noteq> fullwidth_comma"
  using range_token_chars [OF assms] comma_not_digit fullwidth_not_digit
  by (auto simp: is_digit_not_ws chr_def is_ws_def is_digit_def)

lemma range_token_not_Nil [simp]: "range_token r \<noteq> []"
  by (simp add: range_token_def)

lemma range_token_trim [simp]: "js_trim (range_token r) = range_token r"
  by (intro js_trim_id trimmed_no_ws) (auto dest: range_token_plain)

lemma dash_notin_show_nat [simp]: "chr CHR ''-'' \<notin> set (show_nat n)"
  using show_nat_digits dash_not_digit by blast

lemma split_range_token:
  "split_on (chr CHR ''-'') (show_nat a @ chr CHR ''-'' # show_nat b) = [show_nat a, show_nat b]"
  by (simp add: split_on_append split_on_no_delim)

lemma parseToken_range_token:
  assumes "http_range r"
  shows "parseToken (range_token r) = Some r"
proof -
  have "filter (\<lambda>c. \<not> is_ws c) (range_token r) = range_token r"
    by (rule filter_True) (auto dest: range_token_plain)
  then have keep: "filter (\<lambda>c. \<not> is_ws c) (js_trim (range_token r)) = range_token r"
    by simp
  show ?thesis
  proof (cases "rstart r = rend r")
    case True
    then show ?thesis
      using assms unfolding parseToken_def keep Let_def
      by (simp add: range_token_def isValidCode_def http_range_def)
  next
    case False
    then show ?thesis
      using assms unfolding parseToken_def keep Let_def
      by (simp add: range_token_def split_range_token isValidCode_def http_range_def)
  qed
qed

lemma join_chars: "c \<in> set (join sep xs) \<Longrightarrow> c \<in> set sep \<or> (\<exists>x \<in> set xs. c \<in> set x)"
  by (induction sep xs rule: join.induct) auto

lemma rule_segments_join:
  assumes "rs \<noteq> []"
  shows "rule_segments (join [chr CHR '',''] (map range_token rs)) = map range_token rs"
proof -
  let ?ts = "map range_token rs"
  have plain: "map (\<lambda>c. if c = fullwidth_comma then chr CHR '','' else c) (join [chr CHR '',''] ?ts)
      = join [chr CHR '',''] ?ts"
    by (rule map_idI) (auto dest!: join_chars range_token_plain(3) simp: chr_def)
  have "split_on (chr CHR '','') (join [chr CHR '',''] ?ts) = ?ts"
    using assms by (intro split_on_join) (auto dest: range_token_plain(2))
  moreover have "map js_trim ?ts = ?ts" by simp
  moreover have "filter (\<lambda>s. s \<noteq> []) ?ts = ?ts" by (simp add: filter_id_conv)
  ultimately show ?thesis by (simp only: rule_segments_def plain Let_def)
qed

lemma trim_join_tokens:
  "js_trim (join [chr CHR '',''] (map range_token rs)) = join [chr CHR '',''] (map range_token rs)"
  by (intro js_trim_id trimmed_no_ws) (auto dest!: join_chars range_token_plain(1) simp: chr_def is_ws_def)

lemma join_tokens_Nil: "join [chr CHR '',''] (map range_token rs) = [] \<longleftrightarrow> rs = []"
  by (cases rs; cases "tl rs") auto

section \<open>Parsing\<close>

lemma collect_segments_eq:
  "collect_segments ts = (List.map_filter parseToken ts, filter (\<lambda>t. parseToken t = None) ts)"
  by (induction ts) (auto simp: List.map_filter_simps split: option.splits)

lemma map_filter_tokens: "\<forall>r \<in> set rs. http_range r \<Longrightarrow> List.map_filter parseToken (map range_token rs) = rs"
  by (induction rs) (simp_all add: List.map_filter_simps parseToken_range_token)

lemma map_filter_well_formed: "list_all well_formed (List.map_filter parseToken ts)"
  by (induction ts) (auto simp: List.map_filter_simps well_formed_def http_range_def
      dest: parseToken_Some split: option.splits)

lemma codes_map_filter:
  "c \<in> codes (List.map_filter parseToken ts) \<longleftrightarrow>
     (\<exists>t \<in> set ts. \<exists>r. parseToken t = Some r \<and> rstart r \<le> c \<and> c \<le> rend r)"
  by (induction ts) (auto simp: List.map_filter_simps split: option.splits)

lemma codes_http: "c \<in> codes (List.map_filter parseToken ts) \<Longrightarrow> 100 \<le> c \<and> c \<le> 599"
  by (auto simp: codes_map_filter http_range_def dest!: parseToken_Some)

lemma canonical_bounds:
  assumes "canonical rs" and "\<And>c. c \<in> codes rs \<Longrightarrow> 100 \<le> c \<and> c \<le> 599"
  shows "\<forall>r \<in> set rs. http_range r"
proof
  fix r assume "r \<in> set rs"
  then have "rstart r \<le> rend r" and "rstart r \<in> codes rs" and "rend r \<in> codes rs"
    using assms(1) by (auto simp: canonical_def list_all_iff well_formed_def codes_def)
  then show "http_range r" using assms(2) [of "rstart r"] assms(2) [of "rend r"]
    by (auto simp: http_range_def)
qed

lemma parsed_ranges:
  assumes "rules_ok (parseHttpStatusCodeRules input)"
  shows "rules_ranges (parseHttpStatusCodeRules input)
      = mergeRanges (List.map_filter parseToken (rule_segments (js_trim (case input of None \<Rightarrow> [] | Some s \<Rightarrow> s))))"
    and "rules_tokens (parseHttpStatusCodeRules input)
      = map range_token (rules_ranges (parseHttpStatusCodeRules input))"
    and "rules_normalized (parseHttpStatusCodeRules input)
      = join [chr CHR '',''] (map range_token (rules_ranges (parseHttpStatusCodeRules input)))"
    and "rules_invalid (parseHttpStatusCodeRules input) = []"
  using assms
  by (auto simp: parseHttpStatusCodeRules_def Let_def rule_segments_def mergeRanges_def
      collect_segments_eq List.map_filter_simps split: if_splits)

lemma parsed_ranges_canonical:
  assumes "rules_ok (parseHttpStatusCodeRules input)"
  shows "canonical (rules_ranges (parseHttpStatusCodeRules input))"
    and "\<forall>r \<in> set (rules_ranges (parseHttpStatusCodeRules input)). http_range r"
proof -
  let ?rs = "List.map_filter parseToken (rule_segments (js_trim (case input of None \<Rightarrow> [] | Some s \<Rightarrow> s)))"
  have spec: "canonical (mergeRanges ?rs)" "codes (mergeRanges ?rs) = codes ?rs"
    by (rule mergeRanges_spec [OF map_filter_well_formed])+
  then show "canonical (rules_ranges (parseHttpStatusCodeRules input))"
    by (simp add: parsed_ranges [OF assms])
  show "\<forall>r \<in> set (rules_ranges (parseHttpStatusCodeRules input)). http_range r"
    unfolding parsed_ranges [OF assms]
    by (rule canonical_bounds [OF spec(1)]) (use codes_http spec(2) in blast)
qed

text \<open>Parsing the printed form of a canonical list gives the list back.\<close>

lemma parse_printed:
  assumes "canonical rs" and "\<forall>r \<in> set rs. http_range r"
  shows "parseHttpStatusCodeRules (Some (join [chr CHR '',''] (map range_token rs)))
    = \<lparr>rules_ok = True, rules_ranges = rs, rules_tokens = map range_token rs,
       rules_normalized = join [chr CHR '',''] (map range_token rs), rules_invalid = []\<rparr>"
proof (cases "rs = []")
  case True
  then show ?thesis by (simp add: parseHttpStatusCodeRules_def Let_def)
next
  case False
  let ?ts = "map range_token rs"
  have "filter (\<lambda>s. parseToken s = None) ?ts = []"
    using assms(2) by (auto simp: filter_empty_conv parseToken_range_token)
  moreover have "mergeRanges rs = rs"
    using assms(1) mergeRanges_spec [of rs] canonical_unique by (auto simp: canonical_def)
  ultimately show ?thesis
    using False assms(2) trim_join_tokens [of rs] join_tokens_Nil [of rs] rule_segments_join [OF False]
    by (simp add: parseHttpStatusCodeRules_def Let_def collect_segments_eq map_filter_tokens)
qed

lemma reparse_normalized:
  assumes "rules_ok (parseHttpStatusCodeRules input)"
  shows "parseHttpStatusCodeRules (Some (rules_normalized (parseHttpStatusCodeRules input)))
    = parseHttpStatusCodeRules input"
proof -
  let ?p = "parseHttpStatusCodeRules input"
  have "parseHttpStatusCodeRules (Some (rules_normalized ?p))
    = \<lparr>rules_ok = True, rules_ranges = rules_ranges ?p, rules_tokens = rules_tokens ?p,
       rules_normalized = rules_normalized ?p, rules_invalid = rules_invalid ?p\<rparr>"
    using parse_printed [OF parsed_ranges_canonical [OF assms]] parsed_ranges(2-) [OF assms] by simp
  also have "\<dots> = ?p" using assms by simp
  finally show ?thesis .
qed

section \<open>Properties\<close>

text \<open>
  C18: merging is exact and canonical.  Whatever order the ranges arrive in and however they
  overlap, the merged list covers the same status codes, is sorted, and leaves a gap between
  neighbours, so adjacent ranges (\<open>400-450\<close>, \<open>451-499\<close>) are joined.
\<close>

theorem mergeRanges_exact:
  assumes "\<forall>r \<in> set ranges. rstart r \<le> rend r"
  shows "codes (mergeRanges ranges) = codes ranges
    \<and> sorted_wrt (\<lambda>a b. rend a + 1 < rstart b) (mergeRanges ranges)"
  using assms mergeRanges_spec [of ranges] by (simp add: list_all_iff well_formed_def canonical_def)

theorem mergeRanges_exact_witness:
  "codes (mergeRanges [\<lparr>rstart = 451, rend = 499\<rparr>, \<lparr>rstart = 400, rend = 450\<rparr>])
     = codes [\<lparr>rstart = 451, rend = 499\<rparr>, \<lparr>rstart = 400, rend = 450\<rparr>]
   \<and> mergeRanges [\<lparr>rstart = 451, rend = 499\<rparr>, \<lparr>rstart = 400, rend = 450\<rparr>]
     = [\<lparr>rstart = 400, rend = 499\<rparr>]"
proof
  show "codes (mergeRanges [\<lparr>rstart = 451, rend = 499\<rparr>, \<lparr>rstart = 400, rend = 450\<rparr>])
     = codes [\<lparr>rstart = 451, rend = 499\<rparr>, \<lparr>rstart = 400, rend = 450\<rparr>]"
    by (rule conjunct1 [OF mergeRanges_exact]) simp
  show "mergeRanges [\<lparr>rstart = 451, rend = 499\<rparr>, \<lparr>rstart = 400, rend = 450\<rparr>] = [\<lparr>rstart = 400, rend = 499\<rparr>]"
    by (simp add: mergeRanges_def js_sort_def range_cmp_def merge_step_def)
qed

text \<open>
  C32: an accepted rule text selects exactly the codes its tokens name.  A code is covered by the
  parsed ranges if and only if some comma-separated token parses to a range that contains it, and
  every covered code is an HTTP status code between 100 and 599.
\<close>

theorem parse_selects_token_codes:
  assumes "rules_ok (parseHttpStatusCodeRules (Some input))"
  shows "(c \<in> codes (rules_ranges (parseHttpStatusCodeRules (Some input))) \<longleftrightarrow>
      (\<exists>t \<in> set (rule_segments (js_trim input)). \<exists>r. parseToken t = Some r \<and> rstart r \<le> c \<and> c \<le> rend r))
    \<and> (c \<in> codes (rules_ranges (parseHttpStatusCodeRules (Some input))) \<longrightarrow> 100 \<le> c \<and> c \<le> 599)"
proof -
  let ?rs = "List.map_filter parseToken (rule_segments (js_trim input))"
  have "codes (rules_ranges (parseHttpStatusCodeRules (Some input))) = codes ?rs"
    using parsed_ranges(1) [OF assms] mergeRanges_spec(2) [OF map_filter_well_formed] by simp
  then show ?thesis using codes_map_filter codes_http by blast
qed

theorem parse_selects_token_codes_witness:
  "rules_ok (parseHttpStatusCodeRules (Some (js ''500-503, 401'')))
   \<and> 502 \<in> codes (rules_ranges (parseHttpStatusCodeRules (Some (js ''500-503, 401''))))"
proof -
  have ok: "rules_ok (parseHttpStatusCodeRules (Some (js ''500-503, 401'')))" by code_simp
  have "\<exists>t \<in> set (rule_segments (js_trim (js ''500-503, 401''))).
      \<exists>r. parseToken t = Some r \<and> rstart r \<le> 502 \<and> 502 \<le> rend r"
  proof (rule bexI [of _ "js ''500-503''"])
    show "js ''500-503'' \<in> set (rule_segments (js_trim (js ''500-503, 401'')))" by code_simp
    have "parseToken (js ''500-503'') = Some \<lparr>rstart = 500, rend = 503\<rparr>" by code_simp
    then show "\<exists>r. parseToken (js ''500-503'') = Some r \<and> rstart r \<le> 502 \<and> 502 \<le> rend r" by simp
  qed
  then show ?thesis using ok parse_selects_token_codes [OF ok, of 502] by blast
qed

text \<open>
  the stored form is a fixed point.  Parsing the normalized text of an accepted input succeeds
  and returns the same ranges, the same tokens and the same normalized text.
\<close>

theorem normalized_roundtrip:
  assumes "rules_ok (parseHttpStatusCodeRules input)"
  shows "parseHttpStatusCodeRules (Some (rules_normalized (parseHttpStatusCodeRules input)))
    = parseHttpStatusCodeRules input"
  using reparse_normalized [OF assms] by simp

theorem normalized_roundtrip_witness:
  "rules_normalized (parseHttpStatusCodeRules (Some (js '' 503,500-502 ,401''))) = js ''401,500-503''
   \<and> parseHttpStatusCodeRules (Some (js ''401,500-503''))
     = parseHttpStatusCodeRules (Some (js '' 503,500-502 ,401''))"
proof -
  have ok: "rules_ok (parseHttpStatusCodeRules (Some (js '' 503,500-502 ,401'')))" by code_simp
  have n: "rules_normalized (parseHttpStatusCodeRules (Some (js '' 503,500-502 ,401''))) = js ''401,500-503''"
    by code_simp
  show ?thesis using normalized_roundtrip [OF ok] unfolding n by (simp only: n simp_thms)
qed

text \<open>
  C33: the normalized text is a normal form of the set of codes.  Two accepted inputs are stored as
  the same text if and only if they select the same status codes.
\<close>

theorem normalized_iff_same_codes:
  assumes "rules_ok (parseHttpStatusCodeRules a)" and "rules_ok (parseHttpStatusCodeRules b)"
  shows "rules_normalized (parseHttpStatusCodeRules a) = rules_normalized (parseHttpStatusCodeRules b)
    \<longleftrightarrow> codes (rules_ranges (parseHttpStatusCodeRules a)) = codes (rules_ranges (parseHttpStatusCodeRules b))"
proof
  assume "rules_normalized (parseHttpStatusCodeRules a) = rules_normalized (parseHttpStatusCodeRules b)"
  then have "parseHttpStatusCodeRules a = parseHttpStatusCodeRules b"
    using reparse_normalized [OF assms(1)] reparse_normalized [OF assms(2)] by metis
  then show "codes (rules_ranges (parseHttpStatusCodeRules a)) = codes (rules_ranges (parseHttpStatusCodeRules b))"
    by simp
next
  assume "codes (rules_ranges (parseHttpStatusCodeRules a)) = codes (rules_ranges (parseHttpStatusCodeRules b))"
  then have "rules_ranges (parseHttpStatusCodeRules a) = rules_ranges (parseHttpStatusCodeRules b)"
    using canonical_unique parsed_ranges_canonical(1) assms by blast
  then show "rules_normalized (parseHttpStatusCodeRules a) = rules_normalized (parseHttpStatusCodeRules b)"
    using parsed_ranges(3) assms by metis
qed

theorem normalized_iff_same_codes_witness:
  "rules_normalized (parseHttpStatusCodeRules (Some (js ''400-402''))) =
     rules_normalized (parseHttpStatusCodeRules (Some (js ''402,400-401'')))
   \<and> codes (rules_ranges (parseHttpStatusCodeRules (Some (js ''400-402'')))) =
     codes (rules_ranges (parseHttpStatusCodeRules (Some (js ''402,400-401''))))"
proof -
  have a: "rules_ok (parseHttpStatusCodeRules (Some (js ''400-402'')))" by code_simp
  have b: "rules_ok (parseHttpStatusCodeRules (Some (js ''402,400-401'')))" by code_simp
  have "rules_normalized (parseHttpStatusCodeRules (Some (js ''400-402''))) =
     rules_normalized (parseHttpStatusCodeRules (Some (js ''402,400-401'')))" by code_simp
  then show ?thesis using normalized_iff_same_codes [OF a b] by blast
qed

text \<open>
  C40: a range token with more than one dash is accepted and everything from the second dash on is
  dropped: \<open>const [a, b] = cleaned.split('-')\<close> reads the first two parts only.  The server's parser
  (\<^verbatim>\<open>src/setting/operation_setting/status_code_ranges.go\<close>) refuses such a token.
\<close>

theorem parseToken_ignores_extra_parts:
  assumes "isNumber a" and "isNumber b" and "isValidCode (parse_digits a)" and "isValidCode (parse_digits b)"
    and "parse_digits a \<le> parse_digits b" and "\<forall>c \<in> set rest. \<not> is_ws c"
  shows "parseToken (a @ chr CHR ''-'' # b @ chr CHR ''-'' # rest)
    = Some \<lparr>rstart = parse_digits a, rend = parse_digits b\<rparr>"
proof -
  let ?t = "a @ chr CHR ''-'' # b @ chr CHR ''-'' # rest"
  have nows: "\<forall>c \<in> set ?t. \<not> is_ws c"
    using assms(1,2,6) by (auto simp: isNumber_def list_all_iff is_digit_not_ws dash_not_ws)
  have trim: "js_trim ?t = ?t" by (rule js_trim_id [OF trimmed_no_ws [OF nows]])
  have "filter (\<lambda>c. \<not> is_ws c) ?t = ?t" using nows by (intro filter_True) blast
  then have clean: "filter (\<lambda>c. \<not> is_ws c) (js_trim ?t) = ?t" by (simp only: trim)
  have nodash: "chr CHR ''-'' \<notin> set a" "chr CHR ''-'' \<notin> set b"
    using assms(1,2) dash_not_digit by (auto simp: isNumber_def list_all_iff)
  have "split_on (chr CHR ''-'') ?t = a # b # split_on (chr CHR ''-'') rest"
    using nodash by (simp add: split_on_append)
  then show ?thesis
    using assms unfolding parseToken_def clean Let_def by simp
qed

theorem parseToken_ignores_extra_parts_witness:
  "parseToken (js ''400-499-600x'') = Some \<lparr>rstart = 400, rend = 499\<rparr>"
proof -
  have "parseToken (js ''400'' @ chr CHR ''-'' # js ''499'' @ chr CHR ''-'' # js ''600x'')
      = Some \<lparr>rstart = parse_digits (js ''400''), rend = parse_digits (js ''499'')\<rparr>"
    by (rule parseToken_ignores_extra_parts) code_simp+
  then show ?thesis by (simp add: js_eval)
qed

end
