(* ===== verification/JsNumber.thy ===== *)
theory JsNumber
  imports JsPrelude Complex_Main "HOL-Library.Log_Nat"
begin

text \<open>
  JavaScript numbers: IEEE 754 binary64 values with NaN and the two infinities.  A finite number is
  the rational it denotes (\<open>-0\<close> is identified with \<open>0\<close>: no source modelled here divides by zero or
  calls \<open>Object.is\<close>).  Every arithmetic operation computes the exact rational result and rounds it
  to the nearest double, ties to even, with gradual underflow and overflow to infinity.

  The lemmas at the end show that arithmetic on integers is exact as long as the result stays within
  \<open>2 ^ 53\<close>, which is what the quota, token and request counters of the program rely on.
\<close>

section \<open>Values and rounding\<close>

datatype jsnum = NaN | PInf | NInf | Fin rat

definition pow2 :: "int \<Rightarrow> rat" where
  "pow2 e = (if 0 \<le> e then 2 ^ nat e else 1 / 2 ^ nat (- e))"

text \<open>The binary exponent of a positive rational: \<open>pow2 (flog2 a) \<le> a < pow2 (flog2 a + 1)\<close>.\<close>

definition flog2 :: "rat \<Rightarrow> int" where
  "flog2 a = (let (n, d) = quotient_of a; k = bitlen n - bitlen d in
     if pow2 k \<le> a then k else k - 1)"

definition round_even :: "rat \<Rightarrow> int" where
  "round_even x = (let f = \<lfloor>x\<rfloor>; r = x - of_int f in
     if r < 1 / 2 then f else if r > 1 / 2 then f + 1 else if even f then f else f + 1)"

definition rnd :: "rat \<Rightarrow> jsnum" where
  "rnd x =
     (if x = 0 then Fin 0
      else let a = \<bar>x\<bar>; e = max (flog2 a - 52) (- 1074); v = of_int (round_even (a / pow2 e)) * pow2 e in
        if 1024 \<le> flog2 v then (if x > 0 then PInf else NInf)
        else Fin (if x > 0 then v else - v))"

section \<open>Arithmetic and comparison\<close>

fun num_neg :: "jsnum \<Rightarrow> jsnum" where
  "num_neg NaN = NaN"
| "num_neg PInf = NInf"
| "num_neg NInf = PInf"
| "num_neg (Fin x) = Fin (- x)"

fun num_add :: "jsnum \<Rightarrow> jsnum \<Rightarrow> jsnum" where
  "num_add (Fin x) (Fin y) = rnd (x + y)"
| "num_add NaN _ = NaN"
| "num_add _ NaN = NaN"
| "num_add PInf NInf = NaN"
| "num_add NInf PInf = NaN"
| "num_add PInf _ = PInf"
| "num_add _ PInf = PInf"
| "num_add NInf _ = NInf"
| "num_add _ NInf = NInf"

definition num_sub :: "jsnum \<Rightarrow> jsnum \<Rightarrow> jsnum" where
  "num_sub a b = num_add a (num_neg b)"

text \<open>The sign of a non-NaN number.\<close>

fun num_sgn :: "jsnum \<Rightarrow> int" where
  "num_sgn NaN = 0"
| "num_sgn PInf = 1"
| "num_sgn NInf = - 1"
| "num_sgn (Fin x) = (if x > 0 then 1 else if x < 0 then - 1 else 0)"

definition inf_of_sgn :: "int \<Rightarrow> jsnum" where
  "inf_of_sgn s = (if s > 0 then PInf else if s < 0 then NInf else NaN)"

fun num_mul :: "jsnum \<Rightarrow> jsnum \<Rightarrow> jsnum" where
  "num_mul (Fin x) (Fin y) = rnd (x * y)"
| "num_mul NaN _ = NaN"
| "num_mul _ NaN = NaN"
| "num_mul a b = inf_of_sgn (num_sgn a * num_sgn b)"

text \<open>Division by zero takes the sign of the dividend (the divisor being \<open>+0\<close>).\<close>

fun num_div :: "jsnum \<Rightarrow> jsnum \<Rightarrow> jsnum" where
  "num_div (Fin x) (Fin y) = (if y = 0 then inf_of_sgn (num_sgn (Fin x)) else rnd (x / y))"
| "num_div NaN _ = NaN"
| "num_div _ NaN = NaN"
| "num_div (Fin x) _ = Fin 0"
| "num_div a (Fin y) = inf_of_sgn (num_sgn a * (if y < 0 then - 1 else 1))"
| "num_div _ _ = NaN"

fun num_lt :: "jsnum \<Rightarrow> jsnum \<Rightarrow> bool" where
  "num_lt (Fin x) (Fin y) = (x < y)"
| "num_lt NInf (Fin y) = True"
| "num_lt NInf PInf = True"
| "num_lt (Fin x) PInf = True"
| "num_lt _ _ = False"

definition num_eq :: "jsnum \<Rightarrow> jsnum \<Rightarrow> bool" where
  "num_eq a b \<longleftrightarrow> a \<noteq> NaN \<and> a = b"

definition num_le :: "jsnum \<Rightarrow> jsnum \<Rightarrow> bool" where
  "num_le a b \<longleftrightarrow> num_lt a b \<or> num_eq a b"

definition num_truthy :: "jsnum \<Rightarrow> bool" where
  "num_truthy a \<longleftrightarrow> a \<noteq> NaN \<and> a \<noteq> Fin 0"

fun isFinite :: "jsnum \<Rightarrow> bool" where
  "isFinite (Fin x) = True"
| "isFinite _ = False"

fun isInteger :: "jsnum \<Rightarrow> bool" where
  "isInteger (Fin x) = (of_int \<lfloor>x\<rfloor> = x)"
| "isInteger _ = False"

fun num_floor :: "jsnum \<Rightarrow> jsnum" where
  "num_floor (Fin x) = Fin (of_int \<lfloor>x\<rfloor>)"
| "num_floor a = a"

fun num_ceil :: "jsnum \<Rightarrow> jsnum" where
  "num_ceil (Fin x) = Fin (of_int \<lceil>x\<rceil>)"
| "num_ceil a = a"

definition num_max :: "jsnum \<Rightarrow> jsnum \<Rightarrow> jsnum" where
  "num_max a b = (if a = NaN \<or> b = NaN then NaN else if num_lt a b then b else a)"

definition of_i :: "int \<Rightarrow> jsnum" where
  "of_i n = Fin (of_int n)"

section \<open>Exactness on integers\<close>

lemma round_even_of_int [simp]: "round_even (of_int n) = n"
  by (simp add: round_even_def)

lemma pow2_pos [simp]: "0 < pow2 e"
  by (simp add: pow2_def)

lemma pow2_0 [simp]: "pow2 0 = 1"
  by (simp add: pow2_def)

lemma bitlen_one [simp]: "bitlen 1 = 1"
  by (simp add: compute_bitlen)

lemma bitlen_le_iff: "0 < n \<Longrightarrow> n < 2 ^ k \<Longrightarrow> bitlen n \<le> int k"
  by (simp add: bitlen_le_iff_power)

lemma flog2_of_int:
  assumes "0 < n"
  shows "flog2 (of_int n) = bitlen n - 1"
proof -
  have "pow2 (bitlen n - 1) \<le> of_int n"
  proof -
    have pos: "0 < bitlen n" using assms bitlen_nonneg [of n] bitlen_eq_zero_iff [of n] by linarith
    have "2 ^ nat (bitlen n - 1) \<le> n" using bitlen_bounds [OF assms] by simp
    then have "(of_int (2 ^ nat (bitlen n - 1)) :: rat) \<le> of_int n" by (simp only: of_int_le_iff)
    then show ?thesis using pos by (simp add: pow2_def)
  qed
  then show ?thesis by (simp add: flog2_def Let_def quotient_of_int)
qed

text \<open>A positive integer that is a multiple of its rounding unit is a double.\<close>

lemma rnd_multiple:
  assumes "0 < n" and "of_int n / pow2 e = of_int m" and "e = max (flog2 (of_int n) - 52) (- 1074)"
    and "n < 2 ^ 1024"
  shows "rnd (of_int n) = Fin (of_int n)" and "rnd (- of_int n) = Fin (- of_int n)"
proof -
  have v: "of_int m * pow2 e = of_int n"
    using assms(2) pow2_pos [of e] by (metis nonzero_divide_eq_eq order_less_irrefl)
  have small: "flog2 (of_int n) < 1024"
    using bitlen_le_iff [OF assms(1,4)] assms(1) by (simp add: flog2_of_int)
  show "rnd (of_int n) = Fin (of_int n)" and "rnd (- of_int n) = Fin (- of_int n)"
    using assms(1,2,3) v small by (simp_all add: rnd_def Let_def)
qed

lemma rnd_pos_int:
  assumes "0 < n" and "n \<le> 2 ^ 53"
  shows "rnd (of_int n) = Fin (of_int n)" and "rnd (- of_int n) = Fin (- of_int n)"
proof -
  define e where "e = max (flog2 (of_int n) - 52) (- 1074)"
  have "\<exists>m. of_int n / pow2 e = of_int m"
  proof (cases "n = 2 ^ 53")
    case True
    have "bitlen (1 * 2 ^ 53) = bitlen 1 + int 53" by (rule bitlen_pow2) simp
    then have "bitlen n = 54" using True by simp
    then have "e = 1" using assms(1) by (simp add: e_def flog2_of_int)
    then have "of_int n / pow2 e = of_int (2 ^ 52)" using True by (simp add: pow2_def)
    then show ?thesis by blast
  next
    case False
    then have "n < 2 ^ 53" using assms by simp
    then have "bitlen n \<le> 53" using bitlen_le_iff [of n 53] assms(1) by simp
    then have "e \<le> 0" using assms(1) by (simp add: e_def flog2_of_int)
    then have "of_int n / pow2 e = of_int (n * 2 ^ nat (- e))"
      by (cases "e = 0") (simp_all add: pow2_def)
    then show ?thesis by blast
  qed
  then obtain m where m: "of_int n / pow2 e = of_int m" by blast
  have "(2 :: int) ^ 53 < 2 ^ 1024" by (rule power_strict_increasing) simp_all
  then have big: "n < 2 ^ 1024" using assms(2) by (rule order_le_less_trans [rotated])
  show "rnd (of_int n) = Fin (of_int n)" and "rnd (- of_int n) = Fin (- of_int n)"
    using rnd_multiple [OF assms(1) m e_def big] by simp_all
qed

lemma rnd_int: "\<bar>n\<bar> \<le> 2 ^ 53 \<Longrightarrow> rnd (of_int n) = Fin (of_int n)"
  using rnd_pos_int [of n] rnd_pos_int [of "- n"]
  by (cases "n = 0"; cases "n > 0") (simp_all add: rnd_def)

lemma num_add_int: "\<bar>a + b\<bar> \<le> 2 ^ 53 \<Longrightarrow> num_add (of_i a) (of_i b) = of_i (a + b)"
  using rnd_int [of "a + b"] by (simp add: of_i_def)

lemma num_sub_int: "\<bar>a - b\<bar> \<le> 2 ^ 53 \<Longrightarrow> num_sub (of_i a) (of_i b) = of_i (a - b)"
  using rnd_int [of "a - b"] by (simp add: of_i_def num_sub_def)

lemma of_i_simps [simp]:
  "of_i a = of_i b \<longleftrightarrow> a = b"
  "isFinite (of_i a)"
  "isInteger (of_i a)"
  "num_lt (of_i a) (of_i b) \<longleftrightarrow> a < b"
  "num_le (of_i a) (of_i b) \<longleftrightarrow> a \<le> b"
  "num_eq (of_i a) (of_i b) \<longleftrightarrow> a = b"
  "num_truthy (of_i a) \<longleftrightarrow> a \<noteq> 0"
  "num_floor (of_i a) = of_i a"
  by (auto simp: of_i_def num_le_def num_eq_def num_truthy_def)

lemma num_sgn_of_i [simp]: "num_sgn (of_i a) = sgn a"
  by (simp add: of_i_def)

lemma num_max_of_i [simp]: "num_max (of_i a) (of_i b) = of_i (max a b)"
  by (auto simp: num_max_def of_i_def)

section \<open>Order facts\<close>

lemma num_lt_irrefl [simp]: "\<not> num_lt a a"
  by (cases a) simp_all

lemma num_lt_trans: "num_lt a b \<Longrightarrow> num_lt b c \<Longrightarrow> num_lt a c"
  by (cases a; cases b; cases c) simp_all

lemma num_le_trans: "num_le a b \<Longrightarrow> num_le b c \<Longrightarrow> num_le a c"
  by (auto simp: num_le_def num_eq_def intro: num_lt_trans)

lemma num_lt_le: "num_lt a b \<Longrightarrow> num_le a b"
  by (simp add: num_le_def)

lemma num_le_max: "a \<noteq> NaN \<Longrightarrow> b \<noteq> NaN \<Longrightarrow> num_le a (num_max a b)"
  by (auto simp: num_max_def num_le_def num_eq_def)

text \<open>Rounding never changes the sign of a number.\<close>

lemma round_even_nonneg: "0 \<le> x \<Longrightarrow> 0 \<le> round_even x"
  by (simp add: round_even_def Let_def)

lemma rnd_nonneg: "0 \<le> x \<Longrightarrow> num_le (Fin 0) (rnd x)"
proof (cases "x = 0")
  case False
  assume "0 \<le> x"
  define e where "e = max (flog2 \<bar>x\<bar> - 52) (- 1074)"
  have "0 \<le> round_even (\<bar>x\<bar> / pow2 e)"
    by (rule round_even_nonneg) (simp add: less_imp_le)
  then have "0 \<le> (of_int (round_even (\<bar>x\<bar> / pow2 e)) :: rat) * pow2 e"
    by (simp add: less_imp_le)
  then show ?thesis
    using False \<open>0 \<le> x\<close> unfolding rnd_def Let_def e_def [symmetric]
    by (auto simp: num_le_def num_eq_def)
qed (simp add: rnd_def num_le_def num_eq_def)

end
