(* ===== verification/JsValue.thy ===== *)
theory JsValue
  imports JsNumber
begin

text \<open>
  The JavaScript values a JSON body or a form field holds, and the operations the program applies
  to a value of type \<open>unknown\<close>: property access, \<open>typeof\<close> tests, truthiness.  An object is the list
  of its own enumerable properties in insertion order; arrays answer \<open>length\<close> only, since no source
  modelled here reads a numeric index of an \<open>unknown\<close> array by name.  Functions, symbols and
  prototype properties do not occur in these values.
\<close>

datatype jsval =
    JUndef
  | JNull
  | JBool bool
  | JNum jsnum
  | JStr jstr
  | JArr "jsval list"
  | JObj "(jstr \<times> jsval) list"

type_synonym jsobj = "(jstr \<times> jsval) list"

definition obj_get :: "jsobj \<Rightarrow> jstr \<Rightarrow> jsval" where
  "obj_get ps k = (case map_of ps k of None \<Rightarrow> JUndef | Some v \<Rightarrow> v)"

fun js_get :: "jsval \<Rightarrow> jstr \<Rightarrow> jsval" where
  "js_get (JObj ps) k = obj_get ps k"
| "js_get (JArr xs) k = (if k = js ''length'' then JNum (of_i (int (length xs))) else JUndef)"
| "js_get (JStr s) k = (if k = js ''length'' then JNum (of_i (int (length s))) else JUndef)"
| "js_get _ k = JUndef"

fun js_truthy :: "jsval \<Rightarrow> bool" where
  "js_truthy JUndef = False"
| "js_truthy JNull = False"
| "js_truthy (JBool b) = b"
| "js_truthy (JNum x) = num_truthy x"
| "js_truthy (JStr s) = (s \<noteq> [])"
| "js_truthy (JArr _) = True"
| "js_truthy (JObj _) = True"

text \<open>\<open>typeof\<close> tests.  Note that \<open>typeof null\<close> is \<open>object\<close>.\<close>

fun is_string :: "jsval \<Rightarrow> bool" where
  "is_string (JStr _) = True"
| "is_string _ = False"

fun is_number :: "jsval \<Rightarrow> bool" where
  "is_number (JNum _) = True"
| "is_number _ = False"

fun is_boolean :: "jsval \<Rightarrow> bool" where
  "is_boolean (JBool _) = True"
| "is_boolean _ = False"

fun is_object :: "jsval \<Rightarrow> bool" where
  "is_object JNull = True"
| "is_object (JArr _) = True"
| "is_object (JObj _) = True"
| "is_object _ = False"

fun is_array :: "jsval \<Rightarrow> bool" where
  "is_array (JArr _) = True"
| "is_array _ = False"

text \<open>Reading a value whose type a guard has established.\<close>

fun str_of :: "jsval \<Rightarrow> jstr" where
  "str_of (JStr s) = s"
| "str_of _ = []"

fun num_of :: "jsval \<Rightarrow> jsnum" where
  "num_of (JNum x) = x"
| "num_of _ = NaN"

fun bool_of :: "jsval \<Rightarrow> bool" where
  "bool_of (JBool b) = b"
| "bool_of _ = False"

fun props_of :: "jsval \<Rightarrow> jsobj" where
  "props_of (JObj ps) = ps"
| "props_of _ = []"

text \<open>\<open>a ?? b\<close>\<close>

definition nullish :: "jsval \<Rightarrow> bool" where
  "nullish v \<longleftrightarrow> v = JUndef \<or> v = JNull"

definition js_coalesce :: "jsval \<Rightarrow> jsval \<Rightarrow> jsval" where
  "js_coalesce a b = (if nullish a then b else a)"

text \<open>\<open>a || b\<close>\<close>

definition js_or :: "jsval \<Rightarrow> jsval \<Rightarrow> jsval" where
  "js_or a b = (if js_truthy a then a else b)"

lemma is_string_iff: "is_string v \<longleftrightarrow> (\<exists>s. v = JStr s)"
  by (cases v) auto

lemma is_number_iff: "is_number v \<longleftrightarrow> (\<exists>x. v = JNum x)"
  by (cases v) auto

lemma is_boolean_iff: "is_boolean v \<longleftrightarrow> (\<exists>b. v = JBool b)"
  by (cases v) auto

lemma obj_get_Nil [simp]: "obj_get [] k = JUndef"
  by (simp add: obj_get_def)

lemma obj_get_Cons [simp]: "obj_get ((a, v) # ps) k = (if k = a then v else obj_get ps k)"
  by (simp add: obj_get_def)

end
