(* ===== verification/AuthStore.thy ===== *)
theory AuthStore
  imports JsValue
begin

text \<open>
  The in-memory authentication store (\<open>src/web/src/stores/auth-store.ts\<close>): the user, the access
  token with its expiry, the login session and the bootstrap state, with the five operations of the
  store.  The token, the expiry and the session belong together; \<open>coherent\<close> says so and every
  operation keeps it.
\<close>

section \<open>Data\<close>

text \<open>
  An \<open>AuthUser\<close> is the object the server sent.  The fields the client checks are typed; the
  optional ones are kept as they came.
\<close>

record auth_user =
  user_id :: jsnum
  username :: jstr
  role :: jsnum
  user_fields :: jsobj

record login_session =
  sid :: jstr
  current :: bool
  login_method :: jstr
  ip :: jstr
  user_agent :: jstr
  created_at :: jsnum
  last_active_at :: jsnum
  expires_at :: jsnum

record auth_bundle =
  access_token :: jstr
  token_type :: jstr
  access_expires_at :: jsnum
  bundle_user :: auth_user
  bundle_session :: login_session

datatype bootstrap_state = Idle | Checking | Complete

record auth_state =
  user :: "auth_user option"
  accessToken :: "jstr option"
  accessExpiresAt :: "jsnum option"
  session :: "login_session option"
  pending2FAFlowToken :: "jstr option"
  bootstrapState :: bootstrap_state

section \<open>Operations\<close>

definition initial_auth :: auth_state where
  "initial_auth = \<lparr>user = None, accessToken = None, accessExpiresAt = None, session = None,
     pending2FAFlowToken = None, bootstrapState = Idle\<rparr>"

definition setBundle :: "auth_bundle \<Rightarrow> auth_state \<Rightarrow> auth_state" where
  "setBundle b a = a\<lparr>user := Some (bundle_user b), accessToken := Some (access_token b),
     accessExpiresAt := Some (access_expires_at b), session := Some (bundle_session b),
     pending2FAFlowToken := None, bootstrapState := Complete\<rparr>"

definition setUser :: "auth_user option \<Rightarrow> auth_state \<Rightarrow> auth_state" where
  "setUser u a = a\<lparr>user := u\<rparr>"

definition setPending2FAFlowToken :: "jstr option \<Rightarrow> auth_state \<Rightarrow> auth_state" where
  "setPending2FAFlowToken t a = a\<lparr>pending2FAFlowToken := t\<rparr>"

definition setBootstrapState :: "bootstrap_state \<Rightarrow> auth_state \<Rightarrow> auth_state" where
  "setBootstrapState b a = a\<lparr>bootstrapState := b\<rparr>"

definition reset :: "bootstrap_state \<Rightarrow> auth_state \<Rightarrow> auth_state" where
  "reset b a = a\<lparr>user := None, accessToken := None, accessExpiresAt := None, session := None,
     pending2FAFlowToken := None, bootstrapState := b\<rparr>"

definition session_sid :: "auth_state \<Rightarrow> jstr option" where
  "session_sid a = map_option sid (session a)"

section \<open>Coherence\<close>

text \<open>
  A usable credential: a non-empty token with a positive finite expiry, for a session with an
  identifier.
\<close>

fun usable :: "jstr \<Rightarrow> jsnum \<Rightarrow> login_session \<Rightarrow> bool" where
  "usable t (Fin x) s = (t \<noteq> [] \<and> 0 < x \<and> sid s \<noteq> [])"
| "usable t _ s = False"

text \<open>Token, expiry and session are all present and usable, or all absent.\<close>

definition coherent :: "auth_state \<Rightarrow> bool" where
  "coherent a \<longleftrightarrow>
     (case (accessToken a, accessExpiresAt a, session a) of
        (None, None, None) \<Rightarrow> True
      | (Some t, Some x, Some s) \<Rightarrow> usable t x s
      | _ \<Rightarrow> False)"

definition bundle_ok :: "auth_bundle \<Rightarrow> bool" where
  "bundle_ok b \<longleftrightarrow> usable (access_token b) (access_expires_at b) (bundle_session b)"

lemma coherent_initial [simp]: "coherent initial_auth"
  by (simp add: coherent_def initial_auth_def)

lemma coherent_ops [simp]:
  "coherent (setBundle b a) \<longleftrightarrow> bundle_ok b"
  "coherent (setUser u a) \<longleftrightarrow> coherent a"
  "coherent (setPending2FAFlowToken p a) \<longleftrightarrow> coherent a"
  "coherent (setBootstrapState s a) \<longleftrightarrow> coherent a"
  "coherent (reset s a)"
  by (simp_all add: coherent_def setBundle_def setUser_def setPending2FAFlowToken_def
      setBootstrapState_def reset_def bundle_ok_def)

lemma session_ops [simp]:
  "session (setBundle b a) = Some (bundle_session b)"
  "session (setUser u a) = session a"
  "session (setPending2FAFlowToken p a) = session a"
  "session (setBootstrapState s a) = session a"
  "session (reset s a) = None"
  by (simp_all add: setBundle_def setUser_def setPending2FAFlowToken_def setBootstrapState_def
      reset_def)

lemma accessToken_ops [simp]:
  "accessToken (setBundle b a) = Some (access_token b)"
  "accessToken (setUser u a) = accessToken a"
  "accessToken (setPending2FAFlowToken p a) = accessToken a"
  "accessToken (setBootstrapState s a) = accessToken a"
  "accessToken (reset s a) = None"
  by (simp_all add: setBundle_def setUser_def setPending2FAFlowToken_def setBootstrapState_def
      reset_def)

lemma bootstrapState_ops [simp]:
  "bootstrapState (setBundle b a) = Complete"
  "bootstrapState (setUser u a) = bootstrapState a"
  "bootstrapState (setPending2FAFlowToken p a) = bootstrapState a"
  "bootstrapState (setBootstrapState s a) = s"
  "bootstrapState (reset s a) = s"
  by (simp_all add: setBundle_def setUser_def setPending2FAFlowToken_def setBootstrapState_def
      reset_def)

lemma session_sid_None [simp]: "session_sid a = None \<longleftrightarrow> session a = None"
  by (simp add: session_sid_def)

lemma coherent_no_session:
  "coherent a \<Longrightarrow> session a = None \<Longrightarrow> accessToken a = None \<and> accessExpiresAt a = None"
  by (auto simp: coherent_def split: option.splits)

lemma coherent_session:
  assumes "coherent a" and "session a = Some s"
  obtains t x where "accessToken a = Some t" "accessExpiresAt a = Some x" "usable t x s"
  using assms by (auto simp: coherent_def split: option.splits)

end
