(* ===== verification/JsText.thy ===== *)
theory JsText
  imports JsValue
begin

text \<open>
  Numbers as text: \<open>String(x)\<close>, \<open>Number(s)\<close> and \<open>parseFloat(s)\<close> of the ECMAScript standard.  Printing
  uses the fewest significant digits that read back as the same double; reading computes the exact
  rational the numeral denotes and rounds it once.  \<open>Number_String_int\<close> is the round trip the
  program's integer fields rely on.
\<close>

section \<open>Reading\<close>

definition rat_pow10 :: "int \<Rightarrow> rat" where
  "rat_pow10 e = (if 0 \<le> e then 10 ^ nat e else 1 / 10 ^ nat (- e))"

definition dec_val :: "jstr \<Rightarrow> jstr \<Rightarrow> int \<Rightarrow> rat" where
  "dec_val ip fp e = of_nat (parse_digits (ip @ fp)) * rat_pow10 (e - int (length fp))"

text \<open>An exponent part, when a complete one is there.\<close>

definition scan_exp :: "jstr \<Rightarrow> int \<times> jstr" where
  "scan_exp s = (case s of
       [] \<Rightarrow> (0, [])
     | c # r \<Rightarrow>
       (if c \<noteq> 101 \<and> c \<noteq> 69 then (0, s)
        else let neg = (r \<noteq> [] \<and> hd r = 45);
                 r' = (if r \<noteq> [] \<and> (hd r = 45 \<or> hd r = 43) then tl r else r);
                 ds = takeWhile is_digit r'
             in if ds = [] then (0, s)
                else (if neg then - int (parse_digits ds) else int (parse_digits ds),
                      dropWhile is_digit r')))"

definition scan_frac :: "jstr \<Rightarrow> jstr \<times> jstr" where
  "scan_frac s = (case s of
       [] \<Rightarrow> ([], [])
     | c # r \<Rightarrow> (if c = 46 then (takeWhile is_digit r, dropWhile is_digit r) else ([], s)))"

text \<open>An unsigned decimal literal at the start of the text, and what follows it.\<close>

definition scan_dec :: "jstr \<Rightarrow> (rat \<times> jstr) option" where
  "scan_dec s =
     (let ip = takeWhile is_digit s; (fp, r) = scan_frac (dropWhile is_digit s) in
      if ip = [] \<and> fp = [] then None
      else let (e, r') = scan_exp r in Some (dec_val ip fp e, r'))"

fun neg_num :: "bool \<Rightarrow> jsnum \<Rightarrow> jsnum" where
  "neg_num b x = (if b then num_neg x else x)"

definition hex_digit :: "jchar \<Rightarrow> nat option" where
  "hex_digit c = (if is_digit c then Some (c - 48)
     else if 97 \<le> c \<and> c \<le> 102 then Some (c - 87)
     else if 65 \<le> c \<and> c \<le> 70 then Some (c - 55) else None)"

fun radix_digits :: "nat \<Rightarrow> nat \<Rightarrow> jstr \<Rightarrow> nat option" where
  "radix_digits b acc [] = Some acc"
| "radix_digits b acc (c # s) = (case hex_digit c of
     None \<Rightarrow> None
   | Some d \<Rightarrow> (if d < b then radix_digits b (acc * b + d) s else None))"

definition radix_prefix :: "jstr \<Rightarrow> nat option" where
  "radix_prefix s = (if length s < 3 \<or> hd s \<noteq> 48 then None
     else let c = s ! 1 in
       if c = 120 \<or> c = 88 then radix_digits 16 0 (drop 2 s)
       else if c = 111 \<or> c = 79 then radix_digits 8 0 (drop 2 s)
       else if c = 98 \<or> c = 66 then radix_digits 2 0 (drop 2 s)
       else None)"

definition is_sign :: "jchar \<Rightarrow> bool" where
  "is_sign c \<longleftrightarrow> c = 45 \<or> c = 43"

definition Number :: "jstr \<Rightarrow> jsnum" where
  "Number s0 =
     (let s = js_trim s0 in
      if s = [] then Fin 0
      else case radix_prefix s of
        Some n \<Rightarrow> rnd (of_nat n)
      | None \<Rightarrow>
        (let neg = (hd s = 45); u = (if is_sign (hd s) then tl s else s) in
         if u = js ''Infinity'' then neg_num neg PInf
         else case scan_dec u of
             Some (q, []) \<Rightarrow> neg_num neg (rnd q)
           | _ \<Rightarrow> NaN))"

definition parseFloat :: "jstr \<Rightarrow> jsnum" where
  "parseFloat s0 =
     (let s = dropWhile is_ws s0 in
      if s = [] then NaN
      else let neg = (hd s = 45); u = (if is_sign (hd s) then tl s else s) in
        if starts_with (js ''Infinity'') u then neg_num neg PInf
        else case scan_dec u of Some (q, _) \<Rightarrow> neg_num neg (rnd q) | None \<Rightarrow> NaN)"

section \<open>Printing\<close>

text \<open>The decimal exponent \<open>n\<close> of a positive rational: \<open>10 ^ (n - 1) \<le> x < 10 ^ n\<close>.\<close>

definition dec_exp :: "rat \<Rightarrow> int" where
  "dec_exp x = (if 1 \<le> x then int (length (show_nat (nat \<lfloor>x\<rfloor>)))
     else case find (\<lambda>m. 1 \<le> x * 10 ^ Suc m) [0..<400] of None \<Rightarrow> - 400 | Some m \<Rightarrow> - int m)"

text \<open>The nearer of the two \<open>k\<close>-digit neighbours of \<open>x\<close> that reads back as \<open>x\<close>.\<close>

definition dec_candidate :: "rat \<Rightarrow> int \<Rightarrow> nat \<Rightarrow> nat option" where
  "dec_candidate x n k =
     (let y = x * rat_pow10 (int k - n); lo = nat \<lfloor>y\<rfloor>; hi = Suc lo;
          cs = (if y - of_nat lo \<le> of_nat hi - y then [lo, hi] else [hi, lo])
      in find (\<lambda>d. rnd (of_nat d * rat_pow10 (n - int k)) = Fin x) cs)"

fun shortest_from :: "rat \<Rightarrow> int \<Rightarrow> nat \<Rightarrow> nat list \<Rightarrow> nat \<times> nat" where
  "shortest_from x n k0 [] = (nat \<lfloor>x * rat_pow10 (int k0 - n)\<rfloor>, k0)"
| "shortest_from x n k0 (k # ks) = (case dec_candidate x n k of
     Some d \<Rightarrow> (d, k)
   | None \<Rightarrow> shortest_from x n k0 ks)"

definition show_exp10 :: "int \<Rightarrow> jstr" where
  "show_exp10 e = 101 # (if e < 0 then 45 # show_nat (nat (- e)) else 43 # show_nat (nat e))"

definition show_pos :: "rat \<Rightarrow> jstr" where
  "show_pos x =
     (if x = of_int \<lfloor>x\<rfloor> \<and> x \<le> 2 ^ 53 then show_nat (nat \<lfloor>x\<rfloor>)
      else let n0 = dec_exp x; (d, k0) = shortest_from x n0 17 [1..<18];
               ds = show_nat d; k = length ds; n = n0 + int k - int k0
        in if int k \<le> n \<and> n \<le> 21 then ds @ replicate (nat (n - int k)) 48
           else if 0 < n \<and> n \<le> 21 then take (nat n) ds @ [46] @ drop (nat n) ds
           else if - 6 < n \<and> n \<le> 0 then [48, 46] @ replicate (nat (- n)) 48 @ ds
           else if k = 1 then ds @ show_exp10 (n - 1)
           else hd ds # 46 # tl ds @ show_exp10 (n - 1))"

fun String :: "jsnum \<Rightarrow> jstr" where
  "String NaN = js ''NaN''"
| "String PInf = js ''Infinity''"
| "String NInf = js ''-Infinity''"
| "String (Fin x) =
     (if x = 0 then [48] else if x < 0 then 45 # show_pos (- x) else show_pos x)"

section \<open>Round trip on integers\<close>

lemma takeWhile_digits [simp]: "takeWhile is_digit (show_nat n) = show_nat n"
  using show_nat_digits by (auto simp: takeWhile_eq_all_conv)

lemma dropWhile_digits [simp]: "dropWhile is_digit (show_nat n) = []"
  using show_nat_digits by (auto simp: dropWhile_eq_Nil_conv)

lemma scan_dec_show_nat: "scan_dec (show_nat n) = Some (of_nat n, [])"
  by (simp add: scan_dec_def scan_frac_def scan_exp_def dec_val_def rat_pow10_def)

lemma hd_show_nat: "is_digit (hd (show_nat n))"
  using show_nat_digits [of "hd (show_nat n)" n] by simp

lemma show_nat_trim [simp]: "js_trim (show_nat n) = show_nat n"
  using show_nat_digits is_digit_not_ws by (blast intro: js_trim_id trimmed_no_ws)

lemma show_nat_no_radix: "radix_prefix (show_nat n) = None"
proof (cases "length (show_nat n) < 2")
  case False
  then have "show_nat n ! 1 \<in> set (show_nat n)" by simp
  then have "is_digit (show_nat n ! 1)" by (rule show_nat_digits)
  then show ?thesis by (auto simp: radix_prefix_def is_digit_def Let_def)
qed (simp add: radix_prefix_def)

lemma sign_facts: "\<not> is_digit 45" "\<not> is_digit 43" "\<not> is_digit 73" "\<not> is_ws 45"
  by (simp_all add: is_digit_def is_ws_def)

lemma Infinity_Cons: "js ''Infinity'' = 73 # js ''nfinity''"
  by (simp add: js_def)

lemma show_nat_not_Infinity: "show_nat n \<noteq> js ''Infinity''"
  using hd_show_nat [of n] sign_facts(3) by (metis Infinity_Cons list.sel(1))

lemma Number_show_nat: "Number (show_nat n) = rnd (of_nat n)"
proof -
  have "\<not> is_sign (hd (show_nat n))" "hd (show_nat n) \<noteq> 45"
    using hd_show_nat [of n] sign_facts by (auto simp: is_sign_def)
  then show ?thesis
    by (simp add: Number_def Let_def show_nat_no_radix show_nat_not_Infinity scan_dec_show_nat)
qed

lemma trim_minus_show_nat [simp]: "js_trim (45 # show_nat n) = 45 # show_nat n"
proof -
  have "\<forall>c \<in> set (45 # show_nat n). \<not> is_ws c"
    using show_nat_digits is_digit_not_ws sign_facts by auto
  then show ?thesis by (blast intro: js_trim_id trimmed_no_ws)
qed

lemma Number_minus_show_nat: "Number (45 # show_nat n) = num_neg (rnd (of_nat n))"
  by (simp add: Number_def Let_def radix_prefix_def is_sign_def show_nat_not_Infinity scan_dec_show_nat)

lemma String_of_nat: "n \<le> 2 ^ 53 \<Longrightarrow> String (of_i (int n)) = show_nat n"
proof -
  assume "n \<le> 2 ^ 53"
  then have "(of_nat n :: rat) \<le> of_nat (2 ^ 53)" by (simp only: of_nat_le_iff)
  then show ?thesis by (simp add: of_i_def show_pos_def show_nat.simps [of 0])
qed

lemma String_of_neg: "n \<le> 2 ^ 53 \<Longrightarrow> 0 < n \<Longrightarrow> String (of_i (- int n)) = 45 # show_nat n"
proof -
  assume "n \<le> 2 ^ 53" "0 < n"
  then have "(of_nat n :: rat) \<le> of_nat (2 ^ 53)" by (simp only: of_nat_le_iff)
  then show ?thesis using \<open>0 < n\<close> by (simp add: of_i_def show_pos_def)
qed

lemma String_of_i: "\<bar>z\<bar> \<le> 2 ^ 53 \<Longrightarrow>
  String (of_i z) = (if z < 0 then 45 # show_nat (nat (- z)) else show_nat (nat z))"
  using String_of_nat [of "nat z"] String_of_neg [of "nat (- z)"] by (cases "z < 0") simp_all

lemma rnd_nat_of_i: "int n \<le> 2 ^ 53 \<Longrightarrow> rnd (of_nat n) = of_i (int n)"
  using rnd_int [of "int n"] by (simp add: of_i_def)

lemma Number_String_int: "\<bar>z\<bar> \<le> 2 ^ 53 \<Longrightarrow> Number (String (of_i z)) = of_i z"
proof -
  assume z: "\<bar>z\<bar> \<le> 2 ^ 53"
  then have "rnd (of_nat (nat \<bar>z\<bar>)) = of_i \<bar>z\<bar>" using rnd_nat_of_i [of "nat \<bar>z\<bar>"] by simp
  then show ?thesis
    unfolding String_of_i [OF z] by (auto simp: Number_show_nat Number_minus_show_nat of_i_def)
qed

end
