(* ===== verification/JsJson.thy ===== *)
theory JsJson
  imports JsText
begin

text \<open>
  \<open>JSON.stringify\<close> (without indentation) and \<open>JSON.parse\<close> on the values of \<open>JsValue\<close>.  The parser is
  the recursive descent parser of the JSON grammar; its fuel bounds the nesting of calls and
  \<open>json_parse\<close> supplies twice the length of the text, two calls being made per character at most.
  \<open>json_roundtrip\<close> shows that what is printed is read back, so the fuel suffices there.
\<close>

section \<open>Objects\<close>

text \<open>
  Own properties enumerate with the array indices first, in ascending order, and the other keys in
  the order of their creation.  \<open>obj_put\<close> keeps the list of properties in that order.
\<close>

definition is_index_key :: "jstr \<Rightarrow> bool" where
  "is_index_key k \<longleftrightarrow> k \<noteq> [] \<and> list_all is_digit k \<and> (hd k = 48 \<longrightarrow> k = [48])
     \<and> parse_digits k < 2 ^ 32 - 1"

fun insert_index :: "jstr \<Rightarrow> 'v \<Rightarrow> (jstr \<times> 'v) list \<Rightarrow> (jstr \<times> 'v) list" where
  "insert_index k v [] = [(k, v)]"
| "insert_index k v ((k', v') # ps) =
     (if is_index_key k' \<and> parse_digits k' < parse_digits k then (k', v') # insert_index k v ps
      else (k, v) # (k', v') # ps)"

definition obj_put :: "jstr \<Rightarrow> 'v \<Rightarrow> (jstr \<times> 'v) list \<Rightarrow> (jstr \<times> 'v) list" where
  "obj_put k v ps =
     (if k \<in> fst ` set ps then AList.update k v ps
      else if is_index_key k then insert_index k v ps
      else ps @ [(k, v)])"

definition obj_of :: "(jstr \<times> 'v) list \<Rightarrow> (jstr \<times> 'v) list" where
  "obj_of ps = foldl (\<lambda>acc (k, v). obj_put k v acc) [] ps"

text \<open>\<open>{...a, ...b}\<close>\<close>

definition spread :: "jsobj \<Rightarrow> jsobj \<Rightarrow> jsobj" where
  "spread a b = foldl (\<lambda>acc (k, v). obj_put k v acc) a b"

lemma set_insert_index [simp]: "set (insert_index k v ps) = insert (k, v) (set ps)"
  by (induction k v ps rule: insert_index.induct) auto

lemma map_of_insert_index:
  "k \<notin> fst ` set ps \<Longrightarrow> map_of (insert_index k v ps) = (map_of ps)(k \<mapsto> v)"
  by (induction k v ps rule: insert_index.induct) (auto simp: fun_upd_twist)

lemma map_of_snoc: "k \<notin> fst ` set ps \<Longrightarrow> map_of (ps @ [(k, v)]) = (map_of ps)(k \<mapsto> v)"
  by (induction ps) (auto simp: fun_upd_twist)

lemma map_of_obj_put [simp]: "map_of (obj_put k v ps) = (map_of ps)(k \<mapsto> v)"
  by (simp add: obj_put_def map_of_insert_index update_conv' map_of_snoc del: map_of_append)

lemma keys_obj_put: "fst ` set (obj_put k v ps) = insert k (fst ` set ps)"
  using map_of_obj_put [of k v ps] by (simp flip: dom_map_of_conv_image_fst del: map_of_obj_put)

lemma distinct_insert_index: "k \<notin> fst ` set ps \<Longrightarrow> distinct (map fst ps) \<Longrightarrow> distinct (map fst (insert_index k v ps))"
  by (induction k v ps rule: insert_index.induct) auto

lemma distinct_obj_put: "distinct (map fst ps) \<Longrightarrow> distinct (map fst (obj_put k v ps))"
  by (auto simp: obj_put_def distinct_insert_index distinct_update)

lemma distinct_spread: "distinct (map fst a) \<Longrightarrow> distinct (map fst (spread a b))"
  unfolding spread_def by (induction b arbitrary: a) (auto simp: distinct_obj_put)

section \<open>Printing\<close>

definition is_high :: "jchar \<Rightarrow> bool" where
  "is_high c \<longleftrightarrow> 55296 \<le> c \<and> c \<le> 56319"

definition is_low :: "jchar \<Rightarrow> bool" where
  "is_low c \<longleftrightarrow> 56320 \<le> c \<and> c \<le> 57343"

definition hex_char :: "nat \<Rightarrow> jchar" where
  "hex_char d = (if d < 10 then 48 + d else 87 + d)"

definition json_u :: "jchar \<Rightarrow> jstr" where
  "json_u c = [92, 117, hex_char (c div 4096 mod 16), hex_char (c div 256 mod 16),
     hex_char (c div 16 mod 16), hex_char (c mod 16)]"

definition json_esc :: "jchar \<Rightarrow> jstr" where
  "json_esc c = (if c = 34 then [92, 34] else if c = 92 then [92, 92]
     else if c = 8 then [92, 98] else if c = 9 then [92, 116] else if c = 10 then [92, 110]
     else if c = 12 then [92, 102] else if c = 13 then [92, 114]
     else if c < 32 then json_u c else [c])"

text \<open>Lone surrogates are escaped; \<open>pair\<close> says that the previous unit opened a surrogate pair.\<close>

fun json_body :: "bool \<Rightarrow> jstr \<Rightarrow> jstr" where
  "json_body pair [] = []"
| "json_body pair (c # s) =
     (if is_low c \<and> pair then c # json_body False s
      else if is_high c \<and> s \<noteq> [] \<and> is_low (hd s) then c # json_body True s
      else if is_high c \<or> is_low c then json_u c @ json_body False s
      else json_esc c @ json_body False s)"

definition json_quote :: "jstr \<Rightarrow> jstr" where
  "json_quote s = 34 # json_body False s @ [34]"

fun json_stringify :: "jsval \<Rightarrow> jstr option" where
  "json_stringify JUndef = None"
| "json_stringify JNull = Some (js ''null'')"
| "json_stringify (JBool b) = Some (if b then js ''true'' else js ''false'')"
| "json_stringify (JNum x) = Some (if isFinite x then String x else js ''null'')"
| "json_stringify (JStr s) = Some (json_quote s)"
| "json_stringify (JArr xs) =
     Some (91 # join [44] (map (\<lambda>x. case json_stringify x of None \<Rightarrow> js ''null'' | Some t \<Rightarrow> t) xs) @ [93])"
| "json_stringify (JObj ps) =
     Some (123 # join [44] (concat (map (\<lambda>(k, v).
        case json_stringify v of None \<Rightarrow> [] | Some t \<Rightarrow> [json_quote k @ 58 # t]) ps)) @ [125])"

section \<open>Parsing\<close>

definition json_ws :: "jchar \<Rightarrow> bool" where
  "json_ws c \<longleftrightarrow> c = 32 \<or> c = 9 \<or> c = 10 \<or> c = 13"

abbreviation skip_ws :: "jstr \<Rightarrow> jstr" where
  "skip_ws s \<equiv> dropWhile json_ws s"

definition hex4 :: "jchar \<Rightarrow> jchar \<Rightarrow> jchar \<Rightarrow> jchar \<Rightarrow> nat option" where
  "hex4 a b c d = radix_digits 16 0 [a, b, c, d]"

definition unescape :: "jchar \<Rightarrow> jchar option" where
  "unescape e = (if e = 34 \<or> e = 92 \<or> e = 47 then Some e
     else if e = 98 then Some 8 else if e = 102 then Some 12 else if e = 110 then Some 10
     else if e = 114 then Some 13 else if e = 116 then Some 9 else None)"

fun pstr :: "jstr \<Rightarrow> (jstr \<times> jstr) option" where
  "pstr [] = None"
| "pstr (c # r) =
     (if c = 34 then Some ([], r)
      else if c < 32 then None
      else if c = 92 then
        (case r of
           [] \<Rightarrow> None
         | e # r1 \<Rightarrow>
           (if e = 117 then
              (case r1 of
                 h1 # h2 # h3 # h4 # r2 \<Rightarrow>
                   (case hex4 h1 h2 h3 h4 of
                      None \<Rightarrow> None
                    | Some n \<Rightarrow> map_option (\<lambda>(t, q). (n # t, q)) (pstr r2))
               | _ \<Rightarrow> None)
            else case unescape e of
                None \<Rightarrow> None
              | Some n \<Rightarrow> map_option (\<lambda>(t, q). (n # t, q)) (pstr r1)))
      else map_option (\<lambda>(t, q). (c # t, q)) (pstr r))"

definition pnum :: "jstr \<Rightarrow> (jsval \<times> jstr) option" where
  "pnum s =
     (let neg = (s \<noteq> [] \<and> hd s = 45); u = (if neg then tl s else s);
          ip = takeWhile is_digit u; r = dropWhile is_digit u; (fp, r1) = scan_frac r
      in if ip = [] \<or> (hd ip = 48 \<and> length ip > 1) \<or> (r \<noteq> [] \<and> hd r = 46 \<and> fp = []) then None
         else let (e, r2) = scan_exp r1 in Some (JNum (neg_num neg (rnd (dec_val ip fp e))), r2))"

definition pword :: "jstr \<Rightarrow> (jsval \<times> jstr) option" where
  "pword s =
     (if starts_with (js ''true'') s then Some (JBool True, drop 4 s)
      else if starts_with (js ''false'') s then Some (JBool False, drop 5 s)
      else if starts_with (js ''null'') s then Some (JNull, drop 4 s)
      else pnum s)"

fun pval :: "nat \<Rightarrow> jstr \<Rightarrow> (jsval \<times> jstr) option"
  and parr :: "nat \<Rightarrow> jstr \<Rightarrow> (jsval list \<times> jstr) option"
  and pobj :: "nat \<Rightarrow> jstr \<Rightarrow> ((jstr \<times> jsval) list \<times> jstr) option" where
  "pval 0 s = None"
| "pval (Suc f) s = (case skip_ws s of
     [] \<Rightarrow> None
   | c # r \<Rightarrow>
     (if c = 34 then map_option (\<lambda>(t, q). (JStr t, q)) (pstr r)
      else if c = 91 then
        (case skip_ws r of
           [] \<Rightarrow> None
         | d # q \<Rightarrow> (if d = 93 then Some (JArr [], q) else map_option (\<lambda>(xs, q). (JArr xs, q)) (parr f r)))
      else if c = 123 then
        (case skip_ws r of
           [] \<Rightarrow> None
         | d # q \<Rightarrow>
           (if d = 125 then Some (JObj [], q) else map_option (\<lambda>(ps, q). (JObj (obj_of ps), q)) (pobj f r)))
      else pword (c # r)))"
| "parr 0 s = None"
| "parr (Suc f) s = (case pval f s of
     None \<Rightarrow> None
   | Some (v, r) \<Rightarrow> (case skip_ws r of
       [] \<Rightarrow> None
     | c # q \<Rightarrow>
       (if c = 44 then map_option (\<lambda>(xs, q). (v # xs, q)) (parr f q)
        else if c = 93 then Some ([v], q) else None)))"
| "pobj 0 s = None"
| "pobj (Suc f) s = (case skip_ws s of
     [] \<Rightarrow> None
   | d # r0 \<Rightarrow> (if d \<noteq> 34 then None else case pstr r0 of
       None \<Rightarrow> None
     | Some (k, r1) \<Rightarrow> (case skip_ws r1 of
         [] \<Rightarrow> None
       | e # r2 \<Rightarrow> (if e \<noteq> 58 then None else case pval f r2 of
           None \<Rightarrow> None
         | Some (v, r) \<Rightarrow> (case skip_ws r of
             [] \<Rightarrow> None
           | c # q \<Rightarrow>
             (if c = 44 then map_option (\<lambda>(ps, q). ((k, v) # ps, q)) (pobj f q)
              else if c = 125 then Some ([(k, v)], q) else None))))))"

text \<open>\<open>None\<close> is the \<open>SyntaxError\<close> that \<open>JSON.parse\<close> throws.\<close>

definition json_parse :: "jstr \<Rightarrow> jsval option" where
  "json_parse s = (case pval (2 * length s + 2) s of
     Some (v, r) \<Rightarrow> (if skip_ws r = [] then Some v else None)
   | None \<Rightarrow> None)"

section \<open>Round trip\<close>

lemma hex_digit_hex_char [simp]: "d < 16 \<Longrightarrow> hex_digit (hex_char d) = Some d"
  by (auto simp: hex_digit_def hex_char_def is_digit_def)

lemma base16: "c = 16 * c1 + m0 \<Longrightarrow> c1 = 16 * c2 + m1 \<Longrightarrow> c2 = 16 * c3 + m2 \<Longrightarrow>
  ((c3 * 16 + m2) * 16 + m1) * 16 + m0 = (c :: nat)"
  by simp

lemma hex4_json_u:
  assumes "c < 65536"
  shows "hex4 (hex_char (c div 4096 mod 16)) (hex_char (c div 256 mod 16))
           (hex_char (c div 16 mod 16)) (hex_char (c mod 16)) = Some c"
proof -
  have "c div 4096 < 16" using assms by (simp add: div_less_iff_less_mult)
  then have top: "c div 4096 mod 16 = c div 4096" by simp
  have "c div 16 = 16 * (c div 256) + c div 16 mod 16"
    using mult_div_mod_eq [of 16 "c div 16"] by (simp flip: div_mult2_eq)
  moreover have "c div 256 = 16 * (c div 4096) + c div 256 mod 16"
    using mult_div_mod_eq [of 16 "c div 256"] by (simp flip: div_mult2_eq)
  ultimately have "((c div 4096 * 16 + c div 256 mod 16) * 16 + c div 16 mod 16) * 16 + c mod 16 = c"
    by (rule base16 [OF mult_div_mod_eq [symmetric]])
  then show ?thesis unfolding top by (simp add: hex4_def \<open>c div 4096 < 16\<close>)
qed

lemma pstr_json_u:
  "c < 65536 \<Longrightarrow> pstr (json_u c @ s) = map_option (\<lambda>(t, q). (c # t, q)) (pstr s)"
  using hex4_json_u [of c] by (simp add: json_u_def)

lemma pstr_json_esc:
  "c < 65536 \<Longrightarrow> pstr (json_esc c @ s) = map_option (\<lambda>(t, q). (c # t, q)) (pstr s)"
  by (simp add: json_esc_def pstr_json_u unescape_def)

lemma pstr_surrogate:
  "is_high c \<or> is_low c \<Longrightarrow> pstr (c # s) = map_option (\<lambda>(t, q). (c # t, q)) (pstr s)"
  by (auto simp: is_high_def is_low_def)

lemma pstr_json_body:
  "\<forall>c \<in> set s. c < 65536 \<Longrightarrow> pstr (json_body p s @ 34 # r) = Some (s, r)"
  by (induction s arbitrary: p) (simp_all add: pstr_json_u pstr_json_esc pstr_surrogate del: pstr.simps(2),
      simp)

text \<open>What may follow a value inside a printed text.\<close>

definition delim :: "jstr \<Rightarrow> bool" where
  "delim r \<longleftrightarrow> r = [] \<or> hd r = 44 \<or> hd r = 93 \<or> hd r = 125"

lemma show_nat_no_leading_zero: "hd (show_nat n) = 48 \<Longrightarrow> length (show_nat n) = 1"
proof (induction n rule: show_nat.induct)
  case (1 n)
  show ?case
  proof (cases "n < 10")
    case False
    then have "hd (show_nat (n div 10)) = 48"
      using 1(2) by (simp add: show_nat.simps [of n])
    then have "length (show_nat (n div 10)) = 1" using 1(1) False by blast
    then have "n div 10 < 10" by (simp add: show_nat.simps [of "n div 10"] split: if_splits)
    then have "n div 10 = 0"
      using \<open>hd (show_nat (n div 10)) = 48\<close> by (simp add: show_nat.simps [of "n div 10"])
    then show ?thesis using False by simp
  qed (simp add: show_nat.simps [of n])
qed

lemma delim_simps:
  assumes "delim r"
  shows "takeWhile is_digit (show_nat n @ r) = show_nat n"
    and "dropWhile is_digit (show_nat n @ r) = r"
    and "scan_frac r = ([], r)" and "scan_exp r = (0, r)" and "\<not> (r \<noteq> [] \<and> hd r = 46)"
proof -
  have nd: "takeWhile is_digit r = []" "dropWhile is_digit r = r"
    using assms by (cases r; auto simp: delim_def is_digit_def)+
  show "takeWhile is_digit (show_nat n @ r) = show_nat n"
    and "dropWhile is_digit (show_nat n @ r) = r"
    using nd show_nat_digits [of _ n] by (simp_all add: takeWhile_append dropWhile_append)
  show "scan_frac r = ([], r)" and "scan_exp r = (0, r)" and "\<not> (r \<noteq> [] \<and> hd r = 46)"
    using assms by (cases r; auto simp: delim_def scan_frac_def scan_exp_def)+
qed

lemma pnum_show_nat:
  assumes "delim r"
  shows "pnum (show_nat n @ r) = Some (JNum (rnd (of_nat n)), r)"
proof -
  have "hd (show_nat n) \<noteq> 45" using hd_show_nat [of n] sign_facts(1) by auto
  moreover have "\<not> (hd (show_nat n) = 48 \<and> 1 < length (show_nat n))"
    using show_nat_no_leading_zero [of n] by simp
  moreover note delim_simps [OF assms]
  ultimately show ?thesis
    by (auto simp add: pnum_def Let_def dec_val_def rat_pow10_def simp del: dropWhile_eq_Nil_conv)
qed

lemma pnum_minus_show_nat:
  assumes "delim r"
  shows "pnum (45 # show_nat n @ r) = Some (JNum (num_neg (rnd (of_nat n))), r)"
proof -
  have "\<not> (hd (show_nat n) = 48 \<and> 1 < length (show_nat n))"
    using show_nat_no_leading_zero [of n] by simp
  moreover note delim_simps [OF assms]
  ultimately show ?thesis
    by (auto simp add: pnum_def Let_def dec_val_def rat_pow10_def simp del: dropWhile_eq_Nil_conv)
qed

lemma pnum_String:
  assumes "\<bar>z\<bar> \<le> 2 ^ 53" and "delim r"
  shows "pnum (String (of_i z) @ r) = Some (JNum (of_i z), r)"
proof -
  have "rnd (of_nat (nat \<bar>z\<bar>)) = of_i \<bar>z\<bar>" using assms rnd_nat_of_i [of "nat \<bar>z\<bar>"] by simp
  then show ?thesis unfolding String_of_i [OF assms(1)]
    using assms(2) by (auto simp: pnum_show_nat pnum_minus_show_nat of_i_def)
qed

text \<open>The values that survive printing: no \<open>undefined\<close>, integral numbers up to \<open>2 ^ 53\<close>.\<close>

abbreviation code_units :: "jstr \<Rightarrow> bool" where
  "code_units s \<equiv> list_all (\<lambda>c. c < 65536) s"

fun json_ok :: "jsval \<Rightarrow> bool" where
  "json_ok JUndef = False"
| "json_ok JNull = True"
| "json_ok (JBool b) = True"
| "json_ok (JNum x) = (isInteger x \<and> num_le (of_i (- (2 ^ 53))) x \<and> num_le x (of_i (2 ^ 53)))"
| "json_ok (JStr s) = code_units s"
| "json_ok (JArr xs) = list_all json_ok xs"
| "json_ok (JObj ps) = (list_all (\<lambda>(k, v). code_units k \<and> json_ok v) ps \<and> obj_of ps = ps)"

definition json_text :: "jsval \<Rightarrow> jstr" where
  "json_text v = (case json_stringify v of None \<Rightarrow> js ''null'' | Some t \<Rightarrow> t)"

lemma json_ok_num: "json_ok (JNum x) \<Longrightarrow> \<exists>z. x = of_i z \<and> \<bar>z\<bar> \<le> 2 ^ 53"
proof -
  assume ok: "json_ok (JNum x)"
  then obtain q where q: "x = Fin q" "of_int \<lfloor>q\<rfloor> = q" by (cases x) auto
  then have "(of_int (- (2 ^ 53)) :: rat) \<le> of_int \<lfloor>q\<rfloor>" "(of_int \<lfloor>q\<rfloor> :: rat) \<le> of_int (2 ^ 53)"
    using ok by (auto simp: num_le_def num_eq_def of_i_def)
  then have "\<bar>\<lfloor>q\<rfloor>\<bar> \<le> 2 ^ 53" by (simp add: abs_le_iff)
  moreover have "x = of_i \<lfloor>q\<rfloor>" unfolding q(1) of_i_def q(2) ..
  ultimately show ?thesis by blast
qed

lemma json_stringify_ok: "json_ok v \<Longrightarrow> json_stringify v = Some (json_text v)"
  by (cases v) (simp_all add: json_text_def)

definition pair_text :: "jstr \<times> jsval \<Rightarrow> jstr" where
  "pair_text p = json_quote (fst p) @ 58 # json_text (snd p)"

lemma json_text_fun: "(\<lambda>x. case json_stringify x of None \<Rightarrow> js ''null'' | Some t \<Rightarrow> t) = json_text"
  by (simp add: fun_eq_iff json_text_def)

lemma json_text_simps:
  "json_text JNull = js ''null''"
  "json_text (JBool b) = (if b then js ''true'' else js ''false'')"
  "json_text (JNum (of_i z)) = String (of_i z)"
  "json_text (JStr s) = json_quote s"
  "json_text (JArr xs) = 91 # join [44] (map json_text xs) @ [93]"
  unfolding json_text_def [of JNull] json_text_def [of "JBool b"] json_text_def [of "JNum (of_i z)"]
    json_text_def [of "JStr s"] json_text_def [of "JArr xs"]
  by (simp_all add: of_i_def json_text_fun)

lemma concat_pair_text:
  "list_all (\<lambda>(k, v). json_ok v) ps \<Longrightarrow>
   concat (map (\<lambda>(k, v). case json_stringify v of None \<Rightarrow> [] | Some t \<Rightarrow> [json_quote k @ 58 # t]) ps)
   = map pair_text ps"
  by (induction ps) (auto simp: pair_text_def json_stringify_ok)

lemma json_text_obj:
  assumes "json_ok (JObj ps)"
  shows "json_text (JObj ps) = 123 # join [44] (map pair_text ps) @ [125]"
proof -
  have "list_all (\<lambda>(k, v). json_ok v) ps" using assms by (auto simp: list_all_iff)
  then show ?thesis by (simp add: json_text_def concat_pair_text)
qed

lemma word_text:
  "js ''null'' = [110, 117, 108, 108]" "js ''true'' = [116, 114, 117, 101]"
  "js ''false'' = [102, 97, 108, 115, 101]"
  by (simp_all add: js_def)

lemma String_head:
  assumes "\<bar>z\<bar> \<le> 2 ^ 53"
  obtains c t where "String (of_i z) = c # t" and "is_digit c \<or> c = 45"
proof (cases "z < 0")
  case True
  then show ?thesis using that [of 45 "show_nat (nat (- z))"] by (simp only: String_of_i [OF assms]) simp
next
  case False
  then show ?thesis
    using that [of "hd (show_nat (nat z))" "tl (show_nat (nat z))"] hd_show_nat [of "nat z"]
    by (simp only: String_of_i [OF assms]) simp
qed

lemma json_text_head:
  assumes "json_ok v"
  obtains c t where "json_text v = c # t" and "\<not> json_ws c" and "c \<noteq> 93" and "c \<noteq> 125"
proof (cases v)
  case (JNum x)
  then obtain z where z: "x = of_i z" "\<bar>z\<bar> \<le> 2 ^ 53" using assms json_ok_num by blast
  then obtain c t where "String (of_i z) = c # t" "is_digit c \<or> c = 45" by (elim String_head)
  then show ?thesis using that [of c t] JNum z by (auto simp: json_text_simps json_ws_def is_digit_def)
next
  case (JBool b)
  then show ?thesis using that by (cases b) (auto simp: json_text_simps word_text json_ws_def)
next
  case (JObj ps)
  then show ?thesis using that assms by (simp add: json_text_obj json_ws_def)
qed (use assms that in \<open>auto simp: json_text_simps word_text json_ws_def json_quote_def split: if_splits\<close>)

lemma pword_num: "is_digit c \<or> c = 45 \<Longrightarrow> pword (c # t) = pnum (c # t)"
  by (auto simp: pword_def starts_with_def word_text is_digit_def)

lemma pval_num:
  assumes "\<bar>z\<bar> \<le> 2 ^ 53" and "delim r"
  shows "pval (Suc f) (String (of_i z) @ r) = Some (JNum (of_i z), r)"
proof -
  obtain c t where t: "String (of_i z) = c # t" "is_digit c \<or> c = 45" by (rule String_head [OF assms(1)])
  then have "\<not> json_ws c" "c \<noteq> 34" "c \<noteq> 91" "c \<noteq> 123" by (auto simp: json_ws_def is_digit_def)
  then have "pval (Suc f) (String (of_i z) @ r) = pnum (String (of_i z) @ r)"
    using t by (simp add: pword_num)
  then show ?thesis using pnum_String [OF assms] by simp
qed

lemma pval_word:
  "pval (Suc f) (js ''null'' @ r) = Some (JNull, r)"
  "pval (Suc f) (js ''true'' @ r) = Some (JBool True, r)"
  "pval (Suc f) (js ''false'' @ r) = Some (JBool False, r)"
  by (simp_all add: word_text json_ws_def pword_def starts_with_def)

lemma pval_str:
  "code_units s \<Longrightarrow> pval (Suc f) (json_quote s @ r) = Some (JStr s, r)"
  by (simp add: json_quote_def json_ws_def pstr_json_body list_all_iff)

text \<open>A value is read back: by whom it is followed does not matter as long as it is a delimiter.\<close>

definition reads_back :: "jsval \<Rightarrow> bool" where
  "reads_back v \<longleftrightarrow> (\<forall>f r. delim r \<longrightarrow> size v < f \<longrightarrow> pval f (json_text v @ r) = Some (v, r))"

lemma delim_comma [simp]: "delim (44 # r)" "delim (93 # r)" "delim (125 # r)" "delim []"
  by (simp_all add: delim_def)

lemma json_ws_delim [simp]:
  "\<not> json_ws 44" "\<not> json_ws 93" "\<not> json_ws 125" "\<not> json_ws 58" "\<not> json_ws 34"
  by (simp_all add: json_ws_def)

lemma parr_reads_back:
  "xs \<noteq> [] \<Longrightarrow> list_all reads_back xs \<Longrightarrow> size_list size xs < f \<Longrightarrow>
   parr f (join [44] (map json_text xs) @ 93 # r) = Some (xs, r)"
proof (induction xs arbitrary: f)
  case (Cons x ys)
  obtain g where g: "f = Suc g" using Cons(4) by (cases f) auto
  show ?case
  proof (cases ys)
    case Nil
    then show ?thesis using Cons(3,4) g by (simp add: reads_back_def)
  next
    case (Cons y zs)
    have "pval g (json_text x @ 44 # join [44] (map json_text ys) @ 93 # r)
        = Some (x, 44 # join [44] (map json_text ys) @ 93 # r)"
      using Cons.prems(2,3) g by (simp add: reads_back_def)
    moreover have "parr g (join [44] (map json_text ys) @ 93 # r) = Some (ys, r)"
      using Cons.IH Cons.prems Cons g by simp
    ultimately show ?thesis using g Cons by simp
  qed
qed simp

lemma pobj_step:
  assumes "code_units k"
  shows "pobj (Suc f) (pair_text (k, v) @ s) = (case pval f (json_text v @ s) of
           None \<Rightarrow> None
         | Some (v, r) \<Rightarrow> (case skip_ws r of
             [] \<Rightarrow> None
           | c # q \<Rightarrow>
             (if c = 44 then map_option (\<lambda>(ps, q). ((k, v) # ps, q)) (pobj f q)
              else if c = 125 then Some ([(k, v)], q) else None)))"
  using assms by (simp add: pair_text_def json_quote_def pstr_json_body list_all_iff)

lemma pobj_reads_back:
  "ps \<noteq> [] \<Longrightarrow> list_all (\<lambda>(k, v). code_units k \<and> reads_back v) ps \<Longrightarrow>
   sum_list (map (\<lambda>p. Suc (size (snd p))) ps) < f \<Longrightarrow>
   pobj f (join [44] (map pair_text ps) @ 125 # r) = Some (ps, r)"
proof (induction ps arbitrary: f)
  case (Cons p ys)
  obtain g where g: "f = Suc g" using Cons(4) by (cases f) auto
  obtain k v where p: "p = (k, v)" by (cases p)
  show ?case
  proof (cases ys)
    case Nil
    then show ?thesis using Cons(3,4) g p by (simp add: reads_back_def pobj_step del: pobj.simps)
  next
    case (Cons y zs)
    have "pval g (json_text v @ 44 # join [44] (map pair_text ys) @ 125 # r)
        = Some (v, 44 # join [44] (map pair_text ys) @ 125 # r)"
      using Cons.prems(2,3) g p by (simp add: reads_back_def)
    moreover have "pobj g (join [44] (map pair_text ys) @ 125 # r) = Some (ys, r)"
      using Cons.IH Cons.prems Cons g by simp
    ultimately show ?thesis using g p Cons Cons.prems(2) by (simp add: pobj_step del: pobj.simps)
  qed
qed simp

lemma size_JObj: "sum_list (map (\<lambda>p. Suc (size (snd p))) ps) < size (JObj ps)"
  by (induction ps) auto

lemma text_list_head:
  assumes "xs \<noteq> []" and "list_all json_ok xs"
  obtains c t where "join [44] (map json_text xs) = c # t" and "\<not> json_ws c" and "c \<noteq> 93"
proof -
  obtain x ys where xs: "xs = x # ys" using assms(1) by (cases xs) auto
  have "json_ok x" using assms(2) xs by simp
  then obtain c t where "json_text x = c # t" "\<not> json_ws c" "c \<noteq> 93" by (rule json_text_head)
  then show ?thesis using that xs by (cases ys) auto
qed

lemma json_reads_back: "json_ok v \<Longrightarrow> reads_back v"
proof (induction v)
  case (JNum x)
  then obtain z where "x = of_i z" "\<bar>z\<bar> \<le> 2 ^ 53" using json_ok_num by blast
  then show ?case unfolding reads_back_def
    by (metis json_text_simps(3) less_nat_zero_code not0_implies_Suc pval_num)
next
  case (JArr xs)
  then have rb: "list_all reads_back xs" by (auto simp: list_all_iff)
  show ?case unfolding reads_back_def
  proof (intro allI impI)
    fix f r assume f: "size (JArr xs) < f"
    then obtain g where g: "f = Suc g" by (cases f) auto
    show "pval f (json_text (JArr xs) @ r) = Some (JArr xs, r)"
    proof (cases "xs = []")
      case False
      then obtain c t where "join [44] (map json_text xs) = c # t" "\<not> json_ws c" "c \<noteq> 93"
        using text_list_head [of xs] JArr by auto
      then show ?thesis
        using parr_reads_back [OF False rb, of g r] f g by (simp add: json_text_simps json_ws_def)
    qed (simp add: json_text_simps g json_ws_def)
  qed
next
  case (JObj ps)
  then have rb: "list_all (\<lambda>(k, v). code_units k \<and> reads_back v) ps"
    by (fastforce simp: list_all_iff)
  show ?case unfolding reads_back_def
  proof (intro allI impI)
    fix f r assume f: "size (JObj ps) < f"
    then obtain g where g: "f = Suc g" by (cases f) auto
    show "pval f (json_text (JObj ps) @ r) = Some (JObj ps, r)"
    proof (cases "ps = []")
      case False
      then obtain t where "join [44] (map pair_text ps) = 34 # t"
        by (cases ps; cases "tl ps") (auto simp: pair_text_def json_quote_def)
      then show ?thesis using pobj_reads_back [OF False rb, of g r] size_JObj [of ps] f g JObj(2)
        by (simp add: json_text_obj json_ws_def)
    qed (simp add: json_text_def g json_ws_def)
  qed
qed (auto simp: reads_back_def json_text_simps pval_word pval_str gr0_conv_Suc
    dest!: less_imp_Suc_add simp del: pval.simps)

text \<open>The fuel that \<open>json_parse\<close> supplies covers the nesting of every printed value.\<close>

lemma length_join: "length (join [d] xs) + 1 \<ge> sum_list (map (\<lambda>x. length x + 1) xs)"
  by (induction "[d]" xs rule: join.induct) auto

lemma size_list_text:
  "list_all (\<lambda>x. size x \<le> 2 * length (json_text x)) xs \<Longrightarrow>
   size_list size xs \<le> 2 * sum_list (map (\<lambda>x. length x + 1) (map json_text xs))"
  by (induction xs) auto

lemma size_pairs_text:
  "list_all (\<lambda>(k, v). size v \<le> 2 * length (json_text v)) ps \<Longrightarrow>
   size (JObj ps) \<le> 1 + 2 * sum_list (map (\<lambda>x. length x + 1) (map pair_text ps))"
  by (induction ps) (auto simp: pair_text_def json_quote_def)

lemma size_json_text: "json_ok v \<Longrightarrow> size v \<le> 2 * length (json_text v)"
proof (induction v)
  case (JArr xs)
  then have "list_all (\<lambda>x. size x \<le> 2 * length (json_text x)) xs" by (auto simp: list_all_iff)
  then show ?case
    using size_list_text [of xs] length_join [of "map json_text xs" 44] by (simp add: json_text_simps)
next
  case (JObj ps)
  then have "list_all (\<lambda>(k, v). size v \<le> 2 * length (json_text v)) ps"
    by (fastforce simp: list_all_iff)
  then show ?case
    using size_pairs_text [of ps] length_join [of "map pair_text ps" 44]
    by (simp add: json_text_obj [OF JObj.prems])
qed auto

lemma json_roundtrip: "json_ok v \<Longrightarrow> Option.bind (json_stringify v) json_parse = Some v"
proof -
  assume ok: "json_ok v"
  have "pval (2 * length (json_text v) + 2) (json_text v @ []) = Some (v, [])"
    using json_reads_back [OF ok] size_json_text [OF ok] delim_comma(4) unfolding reads_back_def
    by (metis le_imp_less_Suc less_SucI add_2_eq_Suc')
  then show ?thesis by (simp add: json_stringify_ok [OF ok] json_parse_def del: pval.simps)
qed

lemma json_parse_text: "json_ok v \<Longrightarrow> json_parse (json_text v) = Some v"
  using json_roundtrip [of v] json_stringify_ok [of v] by simp

section \<open>Object literals\<close>

lemma obj_of_distinct_plain:
  "distinct (map fst ps) \<Longrightarrow> list_all (\<lambda>p. \<not> is_index_key (fst p)) ps \<Longrightarrow> obj_of ps = ps"
proof (induction ps rule: rev_induct)
  case (snoc p ps)
  then have "obj_of ps = ps" by simp
  then have "obj_of (ps @ [p]) = obj_put (fst p) (snd p) ps" by (simp add: obj_of_def split_def)
  then show ?case using snoc.prems by (auto simp: obj_put_def)
qed (simp add: obj_of_def)

lemma code_units_js [simp]: "code_units (js s)"
  by (auto simp: js_def list_all_iff intro: less_trans [OF nat_of_char_less_256])

lemma json_ok_of_i: "0 \<le> t \<Longrightarrow> t \<le> 2 ^ 53 \<Longrightarrow> json_ok (JNum (of_i t))"
proof -
  assume t: "0 \<le> t" "t \<le> 2 ^ 53"
  then have "(of_int (- (2 ^ 53)) :: rat) \<le> of_int t" "(of_int t :: rat) \<le> of_int (2 ^ 53)"
    by (simp_all only: of_int_le_iff)
  then show ?thesis by (auto simp: of_i_def num_le_def num_eq_def)
qed

lemma js_inject: "js a = js b \<longleftrightarrow> a = b"
proof -
  have "inj (of_char :: char \<Rightarrow> nat)" by (rule inj_of_char)
  then show ?thesis by (simp add: js_def inj_map_eq_map)
qed

lemma plain_key: "k \<noteq> [] \<Longrightarrow> \<not> is_digit (of_char (hd k)) \<Longrightarrow> \<not> is_index_key (js k)"
  by (cases k) (auto simp: is_index_key_def js_def)

end
