(* ===== verification/SessionSync.thy ===== *)
theory SessionSync
  imports JsJson
begin

text \<open>
  Cross-tab session events (\<open>src/web/src/lib/auth-session-sync.ts\<close>) and the session hint cookie
  (\<open>src/web/src/lib/session-hint.ts\<close>).  A tab publishes an event on a \<open>BroadcastChannel\<close>, or through
  a storage write when the browser has no channels; a receiving tab checks the shape, the source and
  the age of what arrives before it acts.
\<close>

section \<open>Events\<close>

datatype sync_kind = EvAuthenticated | EvSignedOut

record sync_event =
  ev_kind :: sync_kind
  ev_sid :: jstr
  ev_source :: jstr
  ev_nonce :: jstr
  ev_timestamp :: jsnum

text \<open>
  What a tab has: whether it runs in a window, whether channels exist, whether \<open>localStorage\<close> can be
  written, its random source identifier and its clock.  The identifiers come from the browser's
  \<open>crypto\<close>.
\<close>

record tab_env =
  hasWindow :: bool
  hasBroadcastChannel :: bool
  storageWritable :: bool
  authSyncSource :: jstr
  tab_now :: jsnum

definition AUTH_SYNC_STORAGE_KEY :: jstr where
  "AUTH_SYNC_STORAGE_KEY = js ''new-api:auth-session:event''"

definition kind_text :: "sync_kind \<Rightarrow> jstr" where
  "kind_text k = (case k of EvAuthenticated \<Rightarrow> js ''authenticated'' | EvSignedOut \<Rightarrow> js ''signed_out'')"

definition event_value :: "sync_event \<Rightarrow> jsval" where
  "event_value e = JObj [
     (js ''kind'', JStr (kind_text (ev_kind e))),
     (js ''sid'', JStr (ev_sid e)),
     (js ''source'', JStr (ev_source e)),
     (js ''nonce'', JStr (ev_nonce e)),
     (js ''timestamp'', JNum (ev_timestamp e))]"

definition isAuthSessionSyncEvent :: "jsval \<Rightarrow> bool" where
  "isAuthSessionSyncEvent v \<longleftrightarrow>
     js_truthy v \<and> is_object v \<and>
     (js_get v (js ''kind'') = JStr (js ''authenticated'') \<or> js_get v (js ''kind'') = JStr (js ''signed_out'')) \<and>
     is_string (js_get v (js ''sid'')) \<and>
     str_of (js_get v (js ''sid'')) \<noteq> [] \<and>
     is_string (js_get v (js ''source'')) \<and>
     is_string (js_get v (js ''nonce'')) \<and>
     is_number (js_get v (js ''timestamp''))"

text \<open>The typed event behind a value that passed the guard.\<close>

definition to_sync_event :: "jsval \<Rightarrow> sync_event" where
  "to_sync_event v = \<lparr>
     ev_kind = (if js_get v (js ''kind'') = JStr (js ''authenticated'') then EvAuthenticated else EvSignedOut),
     ev_sid = str_of (js_get v (js ''sid'')),
     ev_source = str_of (js_get v (js ''source'')),
     ev_nonce = str_of (js_get v (js ''nonce'')),
     ev_timestamp = num_of (js_get v (js ''timestamp''))\<rparr>"

section \<open>Publishing and delivery\<close>

text \<open>
  What leaves the tab: a channel message, or a storage write, whose listeners see the text and, for
  the removal that follows, an event without a new value.
\<close>

datatype wire = Posted jsval | StorageEvent jstr "jstr option"

definition publishAuthSessionEvent :: "tab_env \<Rightarrow> jstr \<Rightarrow> sync_kind \<Rightarrow> jstr \<Rightarrow> wire list" where
  "publishAuthSessionEvent env nonce kind sid =
     (if \<not> hasWindow env \<or> sid = [] then []
      else let event = event_value \<lparr>ev_kind = kind, ev_sid = sid, ev_source = authSyncSource env,
                 ev_nonce = nonce, ev_timestamp = tab_now env\<rparr>
        in if hasBroadcastChannel env then [Posted event]
           else if storageWritable env then
             [StorageEvent AUTH_SYNC_STORAGE_KEY (json_stringify event),
              StorageEvent AUTH_SYNC_STORAGE_KEY None]
           else [])"

definition num_abs :: "jsnum \<Rightarrow> jsnum" where
  "num_abs x = (if num_lt x (Fin 0) then num_neg x else x)"

text \<open>The event handed to the listener, if any.\<close>

definition deliver :: "tab_env \<Rightarrow> jsval \<Rightarrow> sync_event option" where
  "deliver env v =
     (if isAuthSessionSyncEvent v
         \<and> ev_source (to_sync_event v) \<noteq> authSyncSource env
         \<and> num_lt (num_abs (num_sub (tab_now env) (ev_timestamp (to_sync_event v)))) (of_i 60000)
      then Some (to_sync_event v) else None)"

definition handleStorage :: "tab_env \<Rightarrow> jstr \<Rightarrow> jstr option \<Rightarrow> sync_event option" where
  "handleStorage env key newValue = (case newValue of
     None \<Rightarrow> None
   | Some text \<Rightarrow>
     (if key \<noteq> AUTH_SYNC_STORAGE_KEY \<or> text = [] then None
      else case json_parse text of None \<Rightarrow> None | Some v \<Rightarrow> deliver env v))"

text \<open>The subscription of a tab: it listens to the channel if it has one, else to storage.\<close>

fun subscribeAuthSessionEvents :: "tab_env \<Rightarrow> wire \<Rightarrow> sync_event option" where
  "subscribeAuthSessionEvents env (Posted v) =
     (if hasWindow env \<and> hasBroadcastChannel env then deliver env v else None)"
| "subscribeAuthSessionEvents env (StorageEvent key newValue) =
     (if hasWindow env \<and> \<not> hasBroadcastChannel env then handleStorage env key newValue else None)"

section \<open>The hint cookie\<close>

fun find_cookie :: "jstr list \<Rightarrow> jstr \<Rightarrow> jstr option" where
  "find_cookie [] name = None"
| "find_cookie (part # parts) name = (case index_of [61] part of
     None \<Rightarrow> find_cookie parts name
   | Some separator \<Rightarrow>
     (if js_trim (take separator part) \<noteq> name then find_cookie parts name
      else Some (js_trim (drop (separator + 1) part))))"

definition readCookie :: "jstr \<Rightarrow> jstr \<Rightarrow> jstr option" where
  "readCookie cookieHeader name = find_cookie (split_on 59 cookieHeader) name"

definition SESSION_HINT_COOKIE_NAME :: jstr where
  "SESSION_HINT_COOKIE_NAME = js ''new_api_has_session''"

text \<open>\<open>None\<close> stands for a missing \<open>document\<close>.\<close>

definition hasSessionHint :: "jstr option \<Rightarrow> bool" where
  "hasSessionHint document_cookie = (case document_cookie of
     None \<Rightarrow> True
   | Some c \<Rightarrow> readCookie c SESSION_HINT_COOKIE_NAME \<noteq> None)"

section \<open>Delivery\<close>

lemma sync_keys [simp]:
  "js ''kind'' \<noteq> js ''sid''" "js ''kind'' \<noteq> js ''source''" "js ''kind'' \<noteq> js ''nonce''"
  "js ''kind'' \<noteq> js ''timestamp''" "js ''sid'' \<noteq> js ''source''" "js ''sid'' \<noteq> js ''nonce''"
  "js ''sid'' \<noteq> js ''timestamp''" "js ''source'' \<noteq> js ''nonce''" "js ''source'' \<noteq> js ''timestamp''"
  "js ''nonce'' \<noteq> js ''timestamp''" "js ''authenticated'' \<noteq> js ''signed_out''"
  by (simp_all add: js_def)

lemmas sync_keys_sym [simp] = sync_keys [THEN not_sym]

lemma event_value_shape:
  "isAuthSessionSyncEvent (event_value e) \<longleftrightarrow> ev_sid e \<noteq> []"
  "to_sync_event (event_value e) = e"
  by (cases "ev_kind e"; simp add: isAuthSessionSyncEvent_def to_sync_event_def event_value_def
      kind_text_def)+

lemma sync_keys_plain:
  "\<not> is_index_key (js ''kind'')" "\<not> is_index_key (js ''sid'')" "\<not> is_index_key (js ''source'')"
  "\<not> is_index_key (js ''nonce'')" "\<not> is_index_key (js ''timestamp'')"
  by (simp_all add: is_index_key_def js_def is_digit_def)

lemma json_ok_event:
  assumes "code_units (ev_sid e)" "code_units (ev_source e)" "code_units (ev_nonce e)"
    and "json_ok (JNum (ev_timestamp e))"
  shows "json_ok (event_value e)"
  using assms unfolding event_value_def json_ok.simps
  by (intro conjI obj_of_distinct_plain; simp add: sync_keys_plain kind_text_def split: sync_kind.split)

lemma num_age:
  assumes "0 \<le> ta" "ta \<le> 2 ^ 53" "0 \<le> tb" "tb \<le> 2 ^ 53"
  shows "num_lt (num_abs (num_sub (of_i tb) (of_i ta))) (of_i 60000) \<longleftrightarrow> \<bar>tb - ta\<bar> < 60000"
proof -
  have "num_sub (of_i tb) (of_i ta) = of_i (tb - ta)" by (rule num_sub_int) (use assms in linarith)
  then show ?thesis by (auto simp: num_abs_def of_i_def)
qed

text \<open>The events a tab's listener sees of what another tab put on the wire.\<close>

definition delivered :: "tab_env \<Rightarrow> wire list \<Rightarrow> sync_event list" where
  "delivered env ws = List.map_filter (subscribeAuthSessionEvents env) ws"

lemma json_stringify_event:
  "json_ok (event_value e) \<Longrightarrow> \<exists>t. json_stringify (event_value e) = Some t \<and> t \<noteq> []
     \<and> json_parse t = Some (event_value e)"
  using json_roundtrip [of "event_value e"] by (auto simp: event_value_def simp del: json_ok.simps)

lemma delivered_exactly:
  assumes "hasWindow a" and "hasWindow b" and "hasBroadcastChannel a = hasBroadcastChannel b"
    and "storageWritable a"
    and "tab_now a = of_i ta" and "tab_now b = of_i tb"
    and "0 \<le> ta" and "ta \<le> 2 ^ 53" and "0 \<le> tb" and "tb \<le> 2 ^ 53"
    and "code_units s" and "code_units nonce" and "code_units (authSyncSource a)"
  shows "delivered b (publishAuthSessionEvent a nonce k s) =
    (if s \<noteq> [] \<and> authSyncSource a \<noteq> authSyncSource b \<and> \<bar>tb - ta\<bar> < 60000
     then [\<lparr>ev_kind = k, ev_sid = s, ev_source = authSyncSource a, ev_nonce = nonce, ev_timestamp = of_i ta\<rparr>]
     else [])"
proof -
  define e where "e = \<lparr>ev_kind = k, ev_sid = s, ev_source = authSyncSource a, ev_nonce = nonce,
    ev_timestamp = of_i ta\<rparr>"
  have ok: "json_ok (event_value e)"
    using assms json_ok_of_i [of ta] by (intro json_ok_event) (simp_all add: e_def)
  obtain t where t: "json_stringify (event_value e) = Some t" "t \<noteq> []" "json_parse t = Some (event_value e)"
    using json_stringify_event [OF ok] by blast
  have dl: "deliver b (event_value e) =
      (if s \<noteq> [] \<and> authSyncSource a \<noteq> authSyncSource b \<and> \<bar>tb - ta\<bar> < 60000 then Some e else None)"
    using num_age [OF assms(7-10)] assms(6) by (auto simp: deliver_def event_value_shape) (simp_all add: e_def)
  have "publishAuthSessionEvent a nonce k s =
      (if s = [] then [] else if hasBroadcastChannel b then [Posted (event_value e)]
       else [StorageEvent AUTH_SYNC_STORAGE_KEY (Some t), StorageEvent AUTH_SYNC_STORAGE_KEY None])"
    using assms(1-5) t(1) by (simp add: publishAuthSessionEvent_def e_def)
  then show ?thesis unfolding e_def [symmetric]
    by (simp add: delivered_def handleStorage_def List.map_filter_simps dl t assms(2))
qed

text \<open>
  C25: an event published by one tab reaches the listener of another tab of the same browser exactly
  once and unchanged when the session identifier is not empty, the tabs differ in their source
  identifier and the clocks differ by less than a minute; otherwise nothing is delivered.  This holds
  for both transports, the channel and the JSON text written to storage.
\<close>

theorem sync_event_delivered:
  assumes "hasWindow a" and "hasWindow b" and "hasBroadcastChannel a = hasBroadcastChannel b"
    and "storageWritable a"
    and "tab_now a = of_i ta" and "tab_now b = of_i tb"
    and "0 \<le> ta" and "ta \<le> 2 ^ 53" and "0 \<le> tb" and "tb \<le> 2 ^ 53"
    and "code_units s" and "code_units nonce" and "code_units (authSyncSource a)"
  shows "delivered b (publishAuthSessionEvent a nonce k s) =
    (if s \<noteq> [] \<and> authSyncSource a \<noteq> authSyncSource b \<and> \<bar>tb - ta\<bar> < 60000
     then [\<lparr>ev_kind = k, ev_sid = s, ev_source = authSyncSource a, ev_nonce = nonce, ev_timestamp = of_i ta\<rparr>]
     else [])"
  using assms by (rule delivered_exactly)

theorem sync_event_delivered_witness:
  "delivered \<lparr>hasWindow = True, hasBroadcastChannel = False, storageWritable = True,
       authSyncSource = js ''tab-2'', tab_now = of_i 1700000001000\<rparr>
     (publishAuthSessionEvent \<lparr>hasWindow = True, hasBroadcastChannel = False, storageWritable = True,
       authSyncSource = js ''tab-1'', tab_now = of_i 1700000000000\<rparr> (js ''n1'') EvSignedOut (js ''s1''))
   = [\<lparr>ev_kind = EvSignedOut, ev_sid = js ''s1'', ev_source = js ''tab-1'', ev_nonce = js ''n1'',
       ev_timestamp = of_i 1700000000000\<rparr>]"
  using sync_event_delivered [of
      "\<lparr>hasWindow = True, hasBroadcastChannel = False, storageWritable = True,
         authSyncSource = js ''tab-1'', tab_now = of_i 1700000000000\<rparr>"
      "\<lparr>hasWindow = True, hasBroadcastChannel = False, storageWritable = True,
         authSyncSource = js ''tab-2'', tab_now = of_i 1700000001000\<rparr>"
      1700000000000 1700000001000 "js ''s1''" "js ''n1''" EvSignedOut]
  by (simp add: js_def)

section \<open>Cookies\<close>

definition cookie_pair :: "jstr \<times> jstr \<Rightarrow> jstr" where
  "cookie_pair c = fst c @ 61 # snd c"

definition cookie_ok :: "jstr \<times> jstr \<Rightarrow> bool" where
  "cookie_ok c \<longleftrightarrow> trimmed (fst c) \<and> trimmed (snd c) \<and> 61 \<notin> set (fst c) \<and> 59 \<notin> set (fst c) \<and> 59 \<notin> set (snd c)"

lemma js_trim_space: "js_trim (32 # s) = js_trim s"
  by (simp add: js_trim_def is_ws_def)

lemma index_of_single: "d \<notin> set x \<Longrightarrow> index_of [d] (x @ d # y) = Some (length x)"
  by (induction x) (auto simp: starts_with_def)

lemma find_cookie_pair:
  assumes "cookie_ok c" and "pre = [] \<or> pre = [32]"
  shows "find_cookie ((pre @ cookie_pair c) # parts) name =
    (if fst c = name then Some (snd c) else find_cookie parts name)"
proof -
  have "61 \<notin> set (pre @ fst c)" using assms by (auto simp: cookie_ok_def)
  from index_of_single [OF this, of "snd c"]
  have "index_of [61] (pre @ cookie_pair c) = Some (length (pre @ fst c))" by (simp add: cookie_pair_def)
  moreover have "js_trim (pre @ fst c) = fst c" "js_trim (snd c) = snd c"
    using assms by (auto simp: cookie_ok_def js_trim_id js_trim_space)
  ultimately show ?thesis by (simp add: cookie_pair_def)
qed

lemma find_cookie_rest:
  "list_all cookie_ok cs \<Longrightarrow> find_cookie (map (\<lambda>c. [32] @ cookie_pair c) cs) name = map_of cs name"
proof (induction cs)
  case (Cons c cs)
  then show ?case
    using find_cookie_pair [of c "[32]" "map (\<lambda>c. [32] @ cookie_pair c) cs" name] by (cases c) auto
qed simp

lemma join_Cons_hd: "join sep ((c # x) # ys) = c # join sep (x # ys)"
  by (cases ys) simp_all

lemma join_cookies:
  "join [59, 32] (map cookie_pair (c # cs)) =
   join [59] (cookie_pair c # map (\<lambda>c. [32] @ cookie_pair c) cs)"
  by (induction cs arbitrary: c) (simp_all add: join_Cons_hd)

text \<open>
  reading a cookie out of the string a browser builds from its cookies (\<open>name=value\<close> joined with
  a semicolon and a space) returns the value of the first cookie of that name, and nothing when there
  is none; a value may itself contain equals signs.
\<close>

theorem readCookie_document_cookie:
  assumes "list_all cookie_ok cs"
  shows "readCookie (join [59, 32] (map cookie_pair cs)) name = map_of cs name"
proof (cases cs)
  case (Cons c ds)
  have "\<forall>p \<in> set (cookie_pair c # map (\<lambda>c. [32] @ cookie_pair c) ds). 59 \<notin> set p"
    using assms Cons by (auto simp: cookie_pair_def cookie_ok_def list_all_iff)
  then have "readCookie (join [59, 32] (map cookie_pair cs)) name
      = find_cookie (([] @ cookie_pair c) # map (\<lambda>c. [32] @ cookie_pair c) ds) name"
    unfolding readCookie_def Cons join_cookies by (subst split_on_join) simp_all
  then show ?thesis
    using assms Cons find_cookie_pair [of c "[]"] find_cookie_rest [of ds name] by (cases c) simp
qed (simp add: readCookie_def)

theorem readCookie_document_cookie_witness:
  "readCookie (join [59, 32] (map cookie_pair [(js ''a'', js ''x=y''), (js ''new_api_has_session'', js ''1'')]))
     SESSION_HINT_COOKIE_NAME = Some (js ''1'')"
proof -
  have "list_all cookie_ok [(js ''a'', js ''x=y''), (js ''new_api_has_session'', js ''1'')]" by code_simp
  from readCookie_document_cookie [OF this, of SESSION_HINT_COOKIE_NAME] show ?thesis
    by (simp add: SESSION_HINT_COOKIE_NAME_def js_def)
qed

end
