(* ===== verification/AuthSession.thy ===== *)
theory AuthSession
  imports AuthStore SessionSync
begin

text \<open>
  The login session client (\<open>src/web/src/lib/auth-session.ts\<close>): validation of server responses,
  the operations on the store, and the refresh runner.  The runner is an \<open>async\<close> function; it is
  modelled by what it does between two awaits.  \<open>run_enter\<close> is the code up to the request,
  \<open>run_resume\<close> the code from the response to the next await or to the return, and a value of \<open>run_cmd\<close>
  says what the runner waits for.  The runner works against the interface \<open>AuthRefreshRuntime\<close> of the
  source, the record \<open>runtime\<close>; what the runner needs of an implementation is the locale
  \<open>refresh_runtime\<close>, interpreted below for the runtime of the page.
\<close>

section \<open>Validation of server data\<close>

definition isRecord :: "jsval \<Rightarrow> bool" where
  "isRecord v \<longleftrightarrow> js_truthy v \<and> is_object v"

definition isAuthUser :: "jsval \<Rightarrow> bool" where
  "isAuthUser v \<longleftrightarrow> isRecord v \<and>
     is_number (js_get v (js ''id'')) \<and> isInteger (num_of (js_get v (js ''id''))) \<and>
     num_lt (Fin 0) (num_of (js_get v (js ''id''))) \<and>
     is_string (js_get v (js ''username'')) \<and>
     is_number (js_get v (js ''role''))"

definition isLoginSession :: "jsval \<Rightarrow> bool" where
  "isLoginSession v \<longleftrightarrow> isRecord v \<and>
     is_string (js_get v (js ''sid'')) \<and>
     str_of (js_get v (js ''sid'')) \<noteq> [] \<and>
     is_boolean (js_get v (js ''current'')) \<and>
     is_string (js_get v (js ''login_method'')) \<and>
     is_string (js_get v (js ''ip'')) \<and>
     is_string (js_get v (js ''user_agent'')) \<and>
     is_number (js_get v (js ''created_at'')) \<and>
     is_number (js_get v (js ''last_active_at'')) \<and>
     is_number (js_get v (js ''expires_at''))"

definition hasValidTokenFields :: "jsval \<Rightarrow> bool" where
  "hasValidTokenFields v \<longleftrightarrow>
     is_string (js_get v (js ''access_token'')) \<and>
     str_of (js_get v (js ''access_token'')) \<noteq> [] \<and>
     is_string (js_get v (js ''token_type'')) \<and>
     str_of (js_get v (js ''token_type'')) \<noteq> [] \<and>
     is_number (js_get v (js ''access_expires_at'')) \<and>
     isFinite (num_of (js_get v (js ''access_expires_at''))) \<and>
     num_lt (Fin 0) (num_of (js_get v (js ''access_expires_at'')))"

definition isAuthBundle :: "jsval \<Rightarrow> bool" where
  "isAuthBundle v \<longleftrightarrow> isRecord v \<and> hasValidTokenFields v \<and>
     isAuthUser (js_get v (js ''user'')) \<and> isLoginSession (js_get v (js ''session''))"

definition isAuthTokenRotation :: "jsval \<Rightarrow> bool" where
  "isAuthTokenRotation v \<longleftrightarrow> isRecord v \<and> hasValidTokenFields v \<and>
     js_get v (js ''token_type'') = JStr (js ''Bearer'') \<and>
     isLoginSession (js_get v (js ''session'')) \<and>
     bool_of (js_get (js_get v (js ''session'')) (js ''current''))"

text \<open>The typed views of values that passed a guard.\<close>

definition to_user :: "jsval \<Rightarrow> auth_user" where
  "to_user v = \<lparr>user_id = num_of (js_get v (js ''id'')), username = str_of (js_get v (js ''username'')),
     role = num_of (js_get v (js ''role'')), user_fields = props_of v\<rparr>"

definition to_session :: "jsval \<Rightarrow> login_session" where
  "to_session v = \<lparr>sid = str_of (js_get v (js ''sid'')), current = bool_of (js_get v (js ''current'')),
     login_method = str_of (js_get v (js ''login_method'')), ip = str_of (js_get v (js ''ip'')),
     user_agent = str_of (js_get v (js ''user_agent'')), created_at = num_of (js_get v (js ''created_at'')),
     last_active_at = num_of (js_get v (js ''last_active_at'')),
     expires_at = num_of (js_get v (js ''expires_at''))\<rparr>"

definition to_bundle :: "jsval \<Rightarrow> auth_user \<Rightarrow> auth_bundle" where
  "to_bundle v u = \<lparr>access_token = str_of (js_get v (js ''access_token'')),
     token_type = str_of (js_get v (js ''token_type'')),
     access_expires_at = num_of (js_get v (js ''access_expires_at'')),
     bundle_user = u, bundle_session = to_session (js_get v (js ''session''))\<rparr>"

definition parse_bundle :: "jsval \<Rightarrow> auth_bundle option" where
  "parse_bundle v = (if isAuthBundle v then Some (to_bundle v (to_user (js_get v (js ''user'')))) else None)"

section \<open>The refresh runner\<close>

datatype refresh_error = Superseded | Failed jsval

datatype refresh_outcome =
    Authenticated auth_bundle
  | Anonymous
  | TransientError refresh_error
  | OutOfSync jstr

record http_response =
  status :: nat
  data :: jsval
  error :: jsval

record 'w runtime =
  getExpectedSID :: "'w \<Rightarrow> jstr option"
  parseBundle :: "jsval \<Rightarrow> auth_bundle option"
  acceptBundle :: "auth_bundle \<Rightarrow> 'w \<Rightarrow> 'w"
  clear :: "bool \<Rightarrow> bootstrap_state option \<Rightarrow> 'w \<Rightarrow> 'w"
  markTransient :: "'w \<Rightarrow> 'w"
  isCurrent :: "('w \<Rightarrow> bool) option"

definition refreshRaceDelays :: "nat list" where
  "refreshRaceDelays = [80, 200, 500]"

text \<open>What the runner waits for, with the arguments of the pending call of \<open>run\<close>.\<close>

datatype run_cmd =
    Request "jstr option" nat bool
  | Wait nat nat bool
  | Return refresh_outcome

definition superseded :: refresh_outcome where
  "superseded = TransientError Superseded"

definition stale :: "'w runtime \<Rightarrow> 'w \<Rightarrow> bool" where
  "stale rt w = (case isCurrent rt of None \<Rightarrow> False | Some f \<Rightarrow> \<not> f w)"

definition run_enter :: "'w runtime \<Rightarrow> nat \<Rightarrow> bool \<Rightarrow> 'w \<Rightarrow> run_cmd" where
  "run_enter rt raceAttempt allowMismatchRetry w =
     (if stale rt w then Return superseded
      else Request (getExpectedSID rt w) raceAttempt allowMismatchRetry)"

definition response_code :: "http_response \<Rightarrow> jstr option" where
  "response_code r = (case js_get (data r) (js ''code'') of JStr s \<Rightarrow> Some s | _ \<Rightarrow> None)"

definition run_resume :: "'w runtime \<Rightarrow> nat \<Rightarrow> bool \<Rightarrow> http_response \<Rightarrow> 'w \<Rightarrow> run_cmd \<times> 'w" where
  "run_resume rt raceAttempt allowMismatchRetry r w =
     (if stale rt w then (Return superseded, w)
      else
        let responseData = (if isRecord (data r) then data r else JUndef);
            code = response_code (r\<lparr>data := responseData\<rparr>);
            bundle = parseBundle rt (js_get responseData (js ''data''))
        in if js_get responseData (js ''success'') = JBool True \<and> bundle \<noteq> None then
             (Return (Authenticated (the bundle)), acceptBundle rt (the bundle) w)
           else if status r = 409 \<and> code = Some (js ''AUTH_REFRESH_RACE'') then
             (if raceAttempt < length refreshRaceDelays then
                (Wait (refreshRaceDelays ! raceAttempt) (raceAttempt + 1) allowMismatchRetry, w)
              else (Return (OutOfSync (the code)), clear rt False None w))
           else if status r = 409 \<and> code = Some (js ''AUTH_SESSION_MISMATCH'') then
             (if allowMismatchRetry then
                (let w' = clear rt False (Some Idle) w in (run_enter rt 0 False w', w'))
              else (Return (OutOfSync (the code)), clear rt False None w))
           else if status r = 401 then (Return Anonymous, clear rt True None w)
           else if status r = 0 \<or> 500 \<le> status r \<or> status r = 429 then
             (Return (TransientError (Failed (js_coalesce (error r) (data r)))), markTransient rt w)
           else
             (Return (OutOfSync (case code of Some c \<Rightarrow> c | None \<Rightarrow> js ''AUTH_INVALID_REFRESH_RESPONSE'')),
              clear rt False None w))"

text \<open>\<open>requestRefresh\<close>: the header sent, and the response seen by the runner.\<close>

definition refresh_header :: "jstr option \<Rightarrow> (jstr \<times> jstr) list" where
  "refresh_header expectedSID = (case expectedSID of
     Some s \<Rightarrow> (if s \<noteq> [] then [(js ''X-Auth-Session'', s)] else [])
   | None \<Rightarrow> [])"

datatype post_result =
    PostOk nat jsval
  | PostAxiosError "(nat \<times> jsval) option" jsval
  | PostThrown jsval

fun requestRefresh :: "post_result \<Rightarrow> http_response" where
  "requestRefresh (PostOk st d) = \<lparr>status = st, data = d, error = JUndef\<rparr>"
| "requestRefresh (PostThrown e) = \<lparr>status = 0, data = JUndef, error = e\<rparr>"
| "requestRefresh (PostAxiosError None e) = \<lparr>status = 0, data = JUndef, error = e\<rparr>"
| "requestRefresh (PostAxiosError (Some (st, d)) e) = \<lparr>status = st, data = d, error = e\<rparr>"

section \<open>The page\<close>

text \<open>
  A refresh in progress: the epoch it started in, what it waits for, and the session identifiers its
  requests carried so far.  \<open>Settled\<close> is a promise whose \<open>finally\<close> callback has not run yet.
\<close>

datatype refresh_result = Resolved refresh_outcome | Rejected jsval

datatype refresh_phase =
    AwaitLock
  | AwaitResponse nat bool
  | AwaitTimer nat nat bool
  | Settled refresh_result

record refresh =
  epoch :: nat
  phase :: refresh_phase
  sent :: "jstr option list"

text \<open>
  \<open>navigator.locks\<close>: missing, present, or with a \<open>request\<close> that throws at once.
\<close>

datatype lock_manager = NoLocks | Locks | LocksThrow jsval

record page =
  auth :: auth_state
  authEpoch :: nat
  refreshPromise :: "refresh option"
  published :: "(sync_kind \<times> jstr) list"
  queryClears :: nat
  navigatorLocks :: lock_manager

definition initial_page :: "lock_manager \<Rightarrow> page" where
  "initial_page locks = \<lparr>auth = initial_auth, authEpoch = 0, refreshPromise = None, published = [],
     queryClears = 0, navigatorLocks = locks\<rparr>"

definition on_auth :: "(auth_state \<Rightarrow> auth_state) \<Rightarrow> page \<Rightarrow> page" where
  "on_auth f w = w\<lparr>auth := f (auth w)\<rparr>"

definition publish :: "sync_kind \<Rightarrow> jstr \<Rightarrow> page \<Rightarrow> page" where
  "publish k s w = (if s = [] then w else w\<lparr>published := published w @ [(k, s)]\<rparr>)"

definition applyAuthBundle :: "auth_bundle \<Rightarrow> bool \<Rightarrow> page \<Rightarrow> page" where
  "applyAuthBundle b synchronizeTabs w =
     (let previousSID = session_sid (auth w);
          w' = on_auth (setBundle b) (w\<lparr>authEpoch := authEpoch w + 1\<rparr>)
      in if synchronizeTabs \<and> previousSID \<noteq> Some (sid (bundle_session b))
         then publish EvAuthenticated (sid (bundle_session b)) w' else w')"

datatype rotation_error = InvalidRotation | NoActiveSession | RotationMismatch

definition applyAuthRotation :: "jsval \<Rightarrow> page \<Rightarrow> rotation_error + page" where
  "applyAuthRotation v w =
     (if \<not> isAuthTokenRotation v then Inl InvalidRotation
      else case (user (auth w), session (auth w)) of
        (Some u, Some s) \<Rightarrow>
          (if sid (to_session (js_get v (js ''session''))) \<noteq> sid s then Inl RotationMismatch
           else Inr (applyAuthBundle (to_bundle v u) False w))
      | _ \<Rightarrow> Inl NoActiveSession)"

definition clearAuthentication :: "bool \<Rightarrow> bootstrap_state \<Rightarrow> page \<Rightarrow> page" where
  "clearAuthentication synchronizeTabs b w =
     (let s = session_sid (auth w); w' = on_auth (reset b) (w\<lparr>authEpoch := authEpoch w + 1\<rparr>)
      in case s of
           Some s \<Rightarrow> (if synchronizeTabs then publish EvSignedOut s w' else w')
         | None \<Rightarrow> w')"

definition clearAuthenticatedClientState :: "bool \<Rightarrow> page \<Rightarrow> page" where
  "clearAuthenticatedClientState synchronizeTabs w =
     clearAuthentication synchronizeTabs Complete (w\<lparr>queryClears := queryClears w + 1\<rparr>)"

definition page_clear :: "bool \<Rightarrow> bootstrap_state option \<Rightarrow> page \<Rightarrow> page" where
  "page_clear synchronizeTabs b w =
     (if \<not> synchronizeTabs \<and> b = Some Idle then on_auth (reset Idle) w
      else clearAuthentication synchronizeTabs (case b of None \<Rightarrow> Complete | Some s \<Rightarrow> s) w)"

text \<open>The runtime that \<open>runRefresh\<close> passes to the runner.\<close>

definition page_runtime :: "nat \<Rightarrow> page runtime" where
  "page_runtime refreshEpoch = \<lparr>
     getExpectedSID = (\<lambda>w. session_sid (auth w)),
     parseBundle = parse_bundle,
     acceptBundle = (\<lambda>b. applyAuthBundle b False),
     clear = page_clear,
     markTransient = on_auth (setBootstrapState Idle),
     isCurrent = Some (\<lambda>w. authEpoch w = refreshEpoch)\<rparr>"

section \<open>Starting and resuming a refresh\<close>

text \<open>The refresh proceeds to what the runner asks for.\<close>

fun continue_refresh :: "refresh \<Rightarrow> run_cmd \<times> page \<Rightarrow> page" where
  "continue_refresh rf (Request s race allow, w) =
     w\<lparr>refreshPromise := Some (rf\<lparr>phase := AwaitResponse race allow, sent := sent rf @ [s]\<rparr>)\<rparr>"
| "continue_refresh rf (Wait delay race allow, w) =
     w\<lparr>refreshPromise := Some (rf\<lparr>phase := AwaitTimer delay race allow\<rparr>)\<rparr>"
| "continue_refresh rf (Return out, w) =
     w\<lparr>refreshPromise := Some (rf\<lparr>phase := Settled (Resolved out)\<rparr>)\<rparr>"

definition runRefresh :: "refresh \<Rightarrow> page \<Rightarrow> page" where
  "runRefresh rf w = continue_refresh rf (run_enter (page_runtime (epoch rf)) 0 True w, w)"

text \<open>
  Both promises are returned and not awaited inside the \<open>try\<close> block, so its handler sees only what is
  thrown at once.
\<close>

definition performRefreshWithBrowserLock :: "refresh \<Rightarrow> page \<Rightarrow> page" where
  "performRefreshWithBrowserLock rf w = (case navigatorLocks w of
     NoLocks \<Rightarrow> runRefresh rf w
   | Locks \<Rightarrow> w\<lparr>refreshPromise := Some (rf\<lparr>phase := AwaitLock\<rparr>)\<rparr>
   | LocksThrow e \<Rightarrow> (on_auth (setBootstrapState Idle) w)
       \<lparr>refreshPromise := Some (rf\<lparr>phase := Settled (Resolved (TransientError (Failed e)))\<rparr>)\<rparr>)"

definition refreshAuthentication :: "page \<Rightarrow> page" where
  "refreshAuthentication w = (case refreshPromise w of
     Some _ \<Rightarrow> w
   | None \<Rightarrow> performRefreshWithBrowserLock \<lparr>epoch = authEpoch w, phase = AwaitLock, sent = []\<rparr> w)"

section \<open>Callers\<close>

definition now_seconds :: "jsnum \<Rightarrow> jsnum" where
  "now_seconds now = num_floor (num_div now (of_i 1000))"

definition currentValidAuthBundle :: "jsnum \<Rightarrow> auth_state \<Rightarrow> auth_bundle option" where
  "currentValidAuthBundle now a = (case (user a, accessToken a, accessExpiresAt a, session a) of
     (Some u, Some t, Some x, Some s) \<Rightarrow>
       (if t = [] \<or> \<not> num_truthy x \<or> num_le x (now_seconds now) then None
        else Some \<lparr>access_token = t, token_type = js ''Bearer'', access_expires_at = x,
               bundle_user = u, bundle_session = s\<rparr>)
   | _ \<Rightarrow> None)"

text \<open>An \<open>async\<close> caller either has its result or awaits the shared refresh.\<close>

datatype 'a await = Done 'a | AwaitRefresh

definition resolveAuthentication :: "jsnum \<Rightarrow> page \<Rightarrow> refresh_outcome await \<times> page" where
  "resolveAuthentication now w = (case currentValidAuthBundle now (auth w) of
     Some b \<Rightarrow> (Done (Authenticated b), on_auth (setBootstrapState Complete) w)
   | None \<Rightarrow>
     (let hasStaleSession = (user (auth w) \<noteq> None \<and> session (auth w) \<noteq> None) in
      if bootstrapState (auth w) = Complete \<and> \<not> hasStaleSession then (Done Anonymous, w)
      else (AwaitRefresh, refreshAuthentication (on_auth (setBootstrapState Checking) w))))"

definition bootstrapAuthentication ::
    "jsnum \<Rightarrow> jstr option \<Rightarrow> page \<Rightarrow> refresh_outcome await \<times> page" where
  "bootstrapAuthentication now document_cookie w =
     (if currentValidAuthBundle now (auth w) = None \<and> \<not> hasSessionHint document_cookie
         \<and> user (auth w) = None \<and> session (auth w) = None
      then (Done Anonymous, w)
      else resolveAuthentication now w)"

definition getCommonHeaders :: "auth_state \<Rightarrow> (jstr \<times> jstr) list" where
  "getCommonHeaders a = (js ''Content-Type'', js ''application/json'') #
     (case accessToken a of
        Some t \<Rightarrow> (if t \<noteq> [] then [(js ''Authorization'', js ''Bearer '' @ t)] else [])
      | None \<Rightarrow> [])"

definition token_live_until :: "jsnum \<Rightarrow> auth_state \<Rightarrow> bool" where
  "token_live_until limit a = (case (accessToken a, accessExpiresAt a) of
     (Some t, Some x) \<Rightarrow> t \<noteq> [] \<and> num_truthy x \<and> num_lt limit x
   | _ \<Rightarrow> False)"

definition getFreshAuthHeaders :: "jsnum \<Rightarrow> page \<Rightarrow> (jstr \<times> jstr) list await \<times> page" where
  "getFreshAuthHeaders now w =
     (if token_live_until (num_add (now_seconds now) (of_i 60)) (auth w)
      then (Done (getCommonHeaders (auth w)), w)
      else (AwaitRefresh, refreshAuthentication w))"

datatype header_error = RequestFailed refresh_error | SessionExpired | RefreshRejected jsval

fun getFreshAuthHeaders_resume ::
    "refresh_result \<Rightarrow> jsnum \<Rightarrow> auth_state \<Rightarrow> header_error + (jstr \<times> jstr) list" where
  "getFreshAuthHeaders_resume (Rejected e) now a = Inl (RefreshRejected e)"
| "getFreshAuthHeaders_resume (Resolved out) now a =
     (case out of
        Authenticated _ \<Rightarrow> Inr (getCommonHeaders a)
      | _ \<Rightarrow>
        (if token_live_until (now_seconds now) a then Inr (getCommonHeaders a)
         else case out of
             TransientError e \<Rightarrow> Inl (RequestFailed e)
           | _ \<Rightarrow> Inl SessionExpired))"

section \<open>What the runner needs of its runtime\<close>

text \<open>
  The contract of \<open>AuthRefreshRuntime\<close>: accepting a bundle installs its session, clearing removes the
  session, marking a transient failure keeps it, and the clear that precedes the mismatch retry does
  not supersede the refresh that asked for it.
\<close>

locale refresh_runtime =
  fixes rt :: "'w runtime"
  assumes accept_sid: "getExpectedSID rt (acceptBundle rt b w) = Some (sid (bundle_session b))"
    and clear_sid: "getExpectedSID rt (clear rt sync st w) = None"
    and mark_sid: "getExpectedSID rt (markTransient rt w) = getExpectedSID rt w"
    and idle_clear_stale: "stale rt (clear rt False (Some Idle) w) = stale rt w"
begin

text \<open>What a returned outcome says about the session that the store then holds.\<close>

lemma return_agrees:
  assumes "run_resume rt race allow r w = (Return out, w')"
  shows "case out of
      Authenticated b \<Rightarrow> getExpectedSID rt w' = Some (sid (bundle_session b))
    | Anonymous \<Rightarrow> getExpectedSID rt w' = None
    | OutOfSync _ \<Rightarrow> getExpectedSID rt w' = None
    | TransientError _ \<Rightarrow> getExpectedSID rt w' = getExpectedSID rt w"
  using assms
  by (auto simp: run_resume_def run_enter_def superseded_def Let_def idle_clear_stale accept_sid clear_sid
      mark_sid split: if_splits)

text \<open>A repeated request follows a mismatch, comes at most once and carries no session.\<close>

lemma request_again:
  assumes "run_resume rt race allow r w = (Request s race' allow', w')"
  shows "allow \<and> \<not> allow' \<and> race' = 0 \<and> s = None \<and> getExpectedSID rt w' = None"
  using assms
  by (auto simp: run_resume_def run_enter_def Let_def clear_sid split: if_splits)

end

lemma auth_on_auth [simp]:
  "auth (on_auth f w) = f (auth w)" "authEpoch (on_auth f w) = authEpoch w"
  "refreshPromise (on_auth f w) = refreshPromise w" "published (on_auth f w) = published w"
  "navigatorLocks (on_auth f w) = navigatorLocks w"
  by (simp_all add: on_auth_def)

lemma publish_simps [simp]:
  "auth (publish k s w) = auth w" "authEpoch (publish k s w) = authEpoch w"
  "refreshPromise (publish k s w) = refreshPromise w" "navigatorLocks (publish k s w) = navigatorLocks w"
  by (simp_all add: publish_def)

lemma applyAuthBundle_simps [simp]:
  "auth (applyAuthBundle b sync w) = setBundle b (auth w)"
  "authEpoch (applyAuthBundle b sync w) = authEpoch w + 1"
  "refreshPromise (applyAuthBundle b sync w) = refreshPromise w"
  "navigatorLocks (applyAuthBundle b sync w) = navigatorLocks w"
  "published (applyAuthBundle b False w) = published w"
  by (simp_all add: applyAuthBundle_def Let_def)

lemma clearAuthentication_simps [simp]:
  "auth (clearAuthentication sync st w) = reset st (auth w)"
  "authEpoch (clearAuthentication sync st w) = authEpoch w + 1"
  "refreshPromise (clearAuthentication sync st w) = refreshPromise w"
  "navigatorLocks (clearAuthentication sync st w) = navigatorLocks w"
  "published (clearAuthentication False st w) = published w"
  by (simp_all add: clearAuthentication_def Let_def split: option.splits)

lemma page_clear_simps [simp]:
  "auth (page_clear sync st w) = reset (case st of None \<Rightarrow> Complete | Some s \<Rightarrow> s) (auth w)"
  "refreshPromise (page_clear sync st w) = refreshPromise w"
  "authEpoch (page_clear False (Some Idle) w) = authEpoch w"
  "published (page_clear False st w) = published w"
  by (auto simp: page_clear_def split: option.splits)

lemma authEpoch_page_clear: "authEpoch w \<le> authEpoch (page_clear sync st w)"
  by (simp add: page_clear_def)

lemma page_runtime_simps [simp]:
  "getExpectedSID (page_runtime e) w = session_sid (auth w)"
  "parseBundle (page_runtime e) = parse_bundle"
  "acceptBundle (page_runtime e) b w = applyAuthBundle b False w"
  "clear (page_runtime e) = page_clear"
  "markTransient (page_runtime e) w = on_auth (setBootstrapState Idle) w"
  "stale (page_runtime e) w \<longleftrightarrow> authEpoch w \<noteq> e"
  by (simp_all add: page_runtime_def stale_def)

interpretation page_rt: refresh_runtime "page_runtime e"
  by unfold_locales (simp_all add: session_sid_def)

section \<open>Validated data is usable\<close>

lemma hasValidTokenFields_usable:
  assumes "hasValidTokenFields v" and "isLoginSession (js_get v (js ''session''))"
  shows "bundle_ok (to_bundle v u)"
proof -
  obtain x where x: "num_of (js_get v (js ''access_expires_at'')) = Fin x" "0 < x"
    using assms(1)
    by (cases "num_of (js_get v (js ''access_expires_at''))") (auto simp: hasValidTokenFields_def)
  then show ?thesis
    using assms by (simp add: bundle_ok_def to_bundle_def to_session_def hasValidTokenFields_def isLoginSession_def)
qed

lemma parse_bundle_ok: "parse_bundle v = Some b \<Longrightarrow> bundle_ok b"
  using hasValidTokenFields_usable by (auto simp: parse_bundle_def isAuthBundle_def split: if_splits)

lemma rotation_ok: "isAuthTokenRotation v \<Longrightarrow> bundle_ok (to_bundle v u)"
  using hasValidTokenFields_usable by (auto simp: isAuthTokenRotation_def)

text \<open>A rotation replaces the credential of the session it belongs to.\<close>

lemma applyAuthRotation_Inr:
  assumes "applyAuthRotation v w = Inr w'"
  obtains u s where "user (auth w) = Some u" and "session (auth w) = Some s"
    and "w' = applyAuthBundle (to_bundle v u) False w" and "bundle_ok (to_bundle v u)"
    and "sid (bundle_session (to_bundle v u)) = sid s"
  using assms rotation_ok
  by (auto simp: applyAuthRotation_def to_bundle_def split: if_splits option.splits)

section \<open>Bounds of a refresh\<close>

text \<open>The number of steps the runner can still make before its promise is forgotten.\<close>

fun cmd_rank :: "run_cmd \<Rightarrow> nat" where
  "cmd_rank (Request _ race allow) = (if allow then 9 else 2) + 2 * (3 - race)"
| "cmd_rank (Wait _ race allow) = (if allow then 10 else 3) + 2 * (3 - race)"
| "cmd_rank (Return _) = 1"

fun cmd_race :: "run_cmd \<Rightarrow> nat" where
  "cmd_race (Request _ race _) = race"
| "cmd_race (Wait _ race _) = race"
| "cmd_race (Return _) = 0"

lemma run_enter_rank: "cmd_rank (run_enter rt race allow w) \<le> (if allow then 9 else 2) + 2 * (3 - race)"
  by (simp add: run_enter_def)

lemma run_resume_rank:
  "cmd_rank (fst (run_resume rt race allow r w)) < (if allow then 9 else 2) + 2 * (3 - race)"
  using run_enter_rank [of rt 0 False "clear rt False (Some Idle) w"]
  by (auto simp: run_resume_def Let_def refreshRaceDelays_def)

lemma run_resume_race: "cmd_race (fst (run_resume rt race allow r w)) \<le> 3"
  by (auto simp: run_resume_def run_enter_def Let_def refreshRaceDelays_def)

end
