(* ===== verification/AuthProtocol.thy ===== *)
theory AuthProtocol
  imports AuthSession
begin

text \<open>
  The page as a concurrent system: calls of the exported operations, answers of the server, timers,
  browser locks and events of other tabs happen in any order.  \<open>exec\<close> gives the effect of one event
  and is undefined when the event cannot happen; \<open>page_run\<close> are the possible histories.  Everything
  the page does between two awaits is one event, as JavaScript runs it.  The events from other tabs
  are handled as in \<open>src/web/src/routes/__root.tsx\<close>, the answer to a second factor as in
  \<open>src/web/src/features/auth/otp/components/otp-form.tsx\<close>.
\<close>

section \<open>Events\<close>

datatype sync_action = NoAction | ReloadPage | GoToSignIn

definition on_sync_event :: "sync_event \<Rightarrow> page \<Rightarrow> sync_action \<times> page" where
  "on_sync_event ev w =
     (let currentSID = session_sid (auth w) in
      if ev_kind ev = EvAuthenticated then
        (if Some (ev_sid ev) = currentSID then (NoAction, w)
         else (ReloadPage, case currentSID of
             Some s \<Rightarrow> (if s \<noteq> [] then clearAuthentication False Complete w else w)
           | None \<Rightarrow> w))
      else if (case currentSID of Some s \<Rightarrow> s \<noteq> [] \<and> ev_sid ev = s | None \<Rightarrow> False) then
        (GoToSignIn, clearAuthenticatedClientState False w)
      else (NoAction, w))"

text \<open>A reload discards the memory of the page; what was published stays published.\<close>

definition reload :: "page \<Rightarrow> page" where
  "reload w = (initial_page (navigatorLocks w))\<lparr>published := published w\<rparr>"

text \<open>
  The form for the second factor (\<open>features/auth/otp/components/otp-form.tsx\<close>) is the one sign-in that
  does not validate its answer: unless there is none at all, the answer goes through
  \<open>handleLoginSuccess\<close> to \<open>applyAuthBundle\<close> as it is.  Fields that are missing or \<open>null\<close> arrive in the store as such;
  without a session, reading its identifier throws after the store was written.  Answers in which a field
  is there with another type than the declared one are not modelled.
\<close>

definition present :: "(jsval \<Rightarrow> 'a) \<Rightarrow> jsval \<Rightarrow> 'a option" where
  "present f v = (if nullish v then None else Some (f v))"

definition otp_data :: "jsval \<Rightarrow> bool" where
  "otp_data v \<longleftrightarrow>
     (let declared = (\<lambda>k P. nullish (js_get v (js k)) \<or> P (js_get v (js k))) in
      declared ''access_token'' is_string \<and> declared ''access_expires_at'' is_number \<and>
      declared ''user'' (\<lambda>u. isRecord u \<and> is_number (js_get u (js ''id'')) \<and> is_string (js_get u (js ''username'')) \<and>
        is_number (js_get u (js ''role''))) \<and>
      declared ''session'' (\<lambda>x. isRecord x \<and> is_string (js_get x (js ''sid'')) \<and> is_boolean (js_get x (js ''current'')) \<and>
        is_string (js_get x (js ''login_method'')) \<and> is_string (js_get x (js ''ip'')) \<and> is_string (js_get x (js ''user_agent'')) \<and>
        is_number (js_get x (js ''created_at'')) \<and> is_number (js_get x (js ''last_active_at'')) \<and>
        is_number (js_get x (js ''expires_at''))))"

definition otp_login :: "jsval \<Rightarrow> page \<Rightarrow> page" where
  "otp_login v w = (if \<not> js_truthy v then w else
     let s = present to_session (js_get v (js ''session''));
         w' = on_auth (\<lambda>a. a\<lparr>user := present to_user (js_get v (js ''user'')),
                accessToken := present str_of (js_get v (js ''access_token'')),
                accessExpiresAt := present num_of (js_get v (js ''access_expires_at'')), session := s,
                pending2FAFlowToken := None, bootstrapState := Complete\<rparr>) (w\<lparr>authEpoch := authEpoch w + 1\<rparr>)
     in case s of
          None \<Rightarrow> w'
        | Some x \<Rightarrow> (if session_sid (auth w) \<noteq> Some (sid x) then publish EvAuthenticated (sid x) w' else w'))"

text \<open>
  \<open>SignIn\<close> stands for the sign-ins that check \<open>isAuthBundle\<close> first (password, WeChat, Telegram, passkey, the
  OAuth routes), \<open>SignInOtp\<close> for the second factor.
\<close>

datatype event =
    CallRefresh
  | CallResolve jsnum
  | CallBootstrap jsnum "jstr option"
  | CallHeaders jsnum
  | LockGranted
  | LockFailed jsval
  | HttpResponse post_result
  | TimerFired
  | Finally
  | SignIn jsval bool
  | SignInOtp jsval
  | Rotate jsval
  | SignOut bool
  | SignOutClient bool
  | SetUser "auth_user option"
  | SetFlowToken "jstr option"
  | SyncReceived sync_event

fun lock_granted :: "refresh option \<Rightarrow> page \<Rightarrow> page option" where
  "lock_granted (Some rf) w = (if phase rf = AwaitLock then Some (runRefresh rf w) else None)"
| "lock_granted None w = None"

text \<open>
  A rejected lock request: the promise was returned, so the rejection goes to the callers of the refresh.
\<close>

fun lock_failed :: "jsval \<Rightarrow> refresh option \<Rightarrow> page \<Rightarrow> page option" where
  "lock_failed e (Some rf) w =
     (if phase rf = AwaitLock
      then Some (w\<lparr>refreshPromise := Some (rf\<lparr>phase := Settled (Rejected e)\<rparr>)\<rparr>) else None)"
| "lock_failed e None w = None"

fun http_arrived :: "post_result \<Rightarrow> refresh option \<Rightarrow> page \<Rightarrow> page option" where
  "http_arrived p (Some rf) w = (case phase rf of
     AwaitResponse race allow \<Rightarrow>
       Some (continue_refresh rf (run_resume (page_runtime (epoch rf)) race allow (requestRefresh p) w))
   | _ \<Rightarrow> None)"
| "http_arrived p None w = None"

fun timer_fired :: "refresh option \<Rightarrow> page \<Rightarrow> page option" where
  "timer_fired (Some rf) w = (case phase rf of
     AwaitTimer delay race allow \<Rightarrow>
       Some (continue_refresh rf (run_enter (page_runtime (epoch rf)) race allow w, w))
   | _ \<Rightarrow> None)"
| "timer_fired None w = None"

fun run_finally :: "refresh option \<Rightarrow> page \<Rightarrow> page option" where
  "run_finally (Some rf) w = (case phase rf of
     Settled _ \<Rightarrow> Some (w\<lparr>refreshPromise := None\<rparr>)
   | _ \<Rightarrow> None)"
| "run_finally None w = None"

fun exec :: "event \<Rightarrow> page \<Rightarrow> page option" where
  "exec CallRefresh w = Some (refreshAuthentication w)"
| "exec (CallResolve now) w = Some (snd (resolveAuthentication now w))"
| "exec (CallBootstrap now cookie) w = Some (snd (bootstrapAuthentication now cookie w))"
| "exec (CallHeaders now) w = Some (snd (getFreshAuthHeaders now w))"
| "exec LockGranted w = lock_granted (refreshPromise w) w"
| "exec (LockFailed e) w = lock_failed e (refreshPromise w) w"
| "exec (HttpResponse p) w = http_arrived p (refreshPromise w) w"
| "exec TimerFired w = timer_fired (refreshPromise w) w"
| "exec Finally w = run_finally (refreshPromise w) w"
| "exec (SignIn v sync) w = map_option (\<lambda>b. applyAuthBundle b sync w) (parse_bundle v)"
| "exec (SignInOtp v) w = (if otp_data v then Some (otp_login v w) else None)"
| "exec (Rotate v) w = (case applyAuthRotation v w of Inl _ \<Rightarrow> Some w | Inr w' \<Rightarrow> Some w')"
| "exec (SignOut sync) w = Some (clearAuthentication sync Complete w)"
| "exec (SignOutClient sync) w = Some (clearAuthenticatedClientState sync w)"
| "exec (SetUser u) w = Some (on_auth (setUser u) w)"
| "exec (SetFlowToken t) w = Some (on_auth (setPending2FAFlowToken t) w)"
| "exec (SyncReceived ev) w = (case on_sync_event ev w of
     (ReloadPage, w') \<Rightarrow> Some (reload w')
   | (_, w') \<Rightarrow> Some w')"

inductive page_run :: "page \<Rightarrow> event list \<Rightarrow> page \<Rightarrow> bool" where
  run_nil: "page_run w [] w"
| run_snoc: "page_run w es w' \<Longrightarrow> exec e w' = Some w'' \<Longrightarrow> page_run w (es @ [e]) w''"

inductive_cases page_run_snocE: "page_run w (es @ [e]) w'"

text \<open>Histories compute.\<close>

fun exec_all :: "event list \<Rightarrow> page \<Rightarrow> page option" where
  "exec_all [] w = Some w"
| "exec_all (e # es) w = Option.bind (exec e w) (exec_all es)"

lemma exec_all_append: "exec_all (es @ fs) w = Option.bind (exec_all es w) (exec_all fs)"
  by (induction es arbitrary: w) (auto split: Option.bind_splits)

lemma page_run_iff: "page_run w es w' \<longleftrightarrow> exec_all es w = Some w'"
proof
  show "page_run w es w' \<Longrightarrow> exec_all es w = Some w'"
    by (induction rule: page_run.induct) (simp_all add: exec_all_append)
  show "exec_all es w = Some w' \<Longrightarrow> page_run w es w'"
  proof (induction es arbitrary: w' rule: rev_induct)
    case Nil
    then show ?case by (simp add: page_run.run_nil)
  next
    case (snoc e es)
    then obtain v where "exec_all es w = Some v" "exec e v = Some w'"
      by (auto simp: exec_all_append bind_eq_Some_conv)
    then show ?case using snoc.IH by (blast intro: page_run.run_snoc)
  qed
qed

lemma page_run_the: "exec_all es w \<noteq> None \<Longrightarrow> page_run w es (the (exec_all es w))"
  by (simp add: page_run_iff)

section \<open>The invariant\<close>

text \<open>
  How many requests a refresh has sent in each phase: one per race attempt, at most four before and
  four after the mismatch retry.
\<close>

fun phase_ok :: "refresh_phase \<Rightarrow> nat \<Rightarrow> bool" where
  "phase_ok AwaitLock n = (n = 0)"
| "phase_ok (AwaitResponse race allow) n =
     (race \<le> 3 \<and> (if allow then n = race + 1 else race + 2 \<le> n \<and> n \<le> race + 5))"
| "phase_ok (AwaitTimer _ race allow) n =
     (1 \<le> race \<and> race \<le> 3 \<and> (if allow then n = race else race + 1 \<le> n \<and> n \<le> race + 4))"
| "phase_ok (Settled _) n = (n \<le> 8)"

fun past_mismatch :: "refresh_phase \<Rightarrow> bool" where
  "past_mismatch (AwaitResponse _ allow) = (\<not> allow)"
| "past_mismatch (AwaitTimer _ _ allow) = (\<not> allow)"
| "past_mismatch _ = False"

text \<open>
  After the mismatch reset a refresh that is still current runs without a session, so that its
  remaining requests carry none.
\<close>

definition refresh_ok :: "refresh \<Rightarrow> page \<Rightarrow> bool" where
  "refresh_ok rf w \<longleftrightarrow> epoch rf \<le> authEpoch w \<and> phase_ok (phase rf) (length (sent rf)) \<and>
     (past_mismatch (phase rf) \<and> epoch rf = authEpoch w \<longrightarrow> session (auth w) = None)"

definition page_ok :: "page \<Rightarrow> bool" where
  "page_ok w \<longleftrightarrow> (case refreshPromise w of None \<Rightarrow> True | Some rf \<Rightarrow> refresh_ok rf w)"

lemma page_ok_initial [simp]: "page_ok (initial_page l)"
  by (simp add: page_ok_def initial_page_def)

lemma page_ok_reload [simp]: "page_ok (reload w)"
  by (simp add: page_ok_def reload_def initial_page_def)

text \<open>An operation on the store that starts a new epoch, or keeps the session, keeps the invariant.\<close>

lemma page_ok_epoch:
  assumes "page_ok w" and "refreshPromise w' = refreshPromise w"
    and "authEpoch w' = authEpoch w + 1 \<or> authEpoch w' = authEpoch w \<and> session (auth w') = session (auth w)"
  shows "page_ok w'"
  using assms by (auto simp: page_ok_def refresh_ok_def split: option.splits)

fun cmd_phase :: "run_cmd \<Rightarrow> refresh_phase" where
  "cmd_phase (Request _ race allow) = AwaitResponse race allow"
| "cmd_phase (Wait delay race allow) = AwaitTimer delay race allow"
| "cmd_phase (Return out) = Settled (Resolved out)"

fun cmd_requests :: "run_cmd \<Rightarrow> nat" where
  "cmd_requests (Request _ _ _) = 1"
| "cmd_requests _ = 0"

lemma page_ok_continue:
  assumes "epoch rf \<le> authEpoch w"
    and "phase_ok (cmd_phase c) (length (sent rf) + cmd_requests c)"
    and "past_mismatch (cmd_phase c) \<Longrightarrow> epoch rf = authEpoch w \<Longrightarrow> session (auth w) = None"
  shows "page_ok (continue_refresh rf (c, w))"
  using assms by (cases c) (auto simp: page_ok_def refresh_ok_def)

lemma run_resume_page:
  shows "coherent (auth w) \<Longrightarrow> coherent (auth (snd (run_resume (page_runtime e) race allow r w)))"
    and "authEpoch w \<le> authEpoch (snd (run_resume (page_runtime e) race allow r w))"
  using authEpoch_page_clear [of w] parse_bundle_ok
  by (auto simp: run_resume_def Let_def)

lemma run_resume_phase:
  assumes "phase_ok (AwaitResponse race allow) n"
    and "run_resume (page_runtime e) race allow r w = (c, w')"
  shows "phase_ok (cmd_phase c) (n + cmd_requests c)"
  using assms by (auto simp: run_resume_def run_enter_def Let_def refreshRaceDelays_def split: if_splits)

lemma run_resume_past:
  assumes "run_resume (page_runtime e) race allow r w = (c, w')" and "past_mismatch (cmd_phase c)"
    and "\<not> allow \<Longrightarrow> session (auth w) = None"
  shows "session (auth w') = None"
  using assms by (auto simp: run_resume_def run_enter_def Let_def split: if_splits)

lemma page_ok_http:
  assumes "page_ok w" and "http_arrived p (refreshPromise w) w = Some w'"
  shows "page_ok w'"
proof -
  obtain rf race allow where rf: "refreshPromise w = Some rf" "phase rf = AwaitResponse race allow"
    using assms(2) by (cases "refreshPromise w") (auto split: refresh_phase.splits)
  obtain c v where c: "run_resume (page_runtime (epoch rf)) race allow (requestRefresh p) w = (c, v)"
    by (metis surj_pair)
  have ok: "refresh_ok rf w" using assms(1) rf by (simp add: page_ok_def)
  have "authEpoch w \<le> authEpoch v"
    using run_resume_page(2) [of w "epoch rf" race allow "requestRefresh p"] c by simp
  moreover have "phase_ok (cmd_phase c) (length (sent rf) + cmd_requests c)"
    using ok rf(2) by (intro run_resume_phase [OF _ c]) (auto simp: refresh_ok_def)
  moreover have "session (auth v) = None"
    if "past_mismatch (cmd_phase c)" "epoch rf = authEpoch v"
  proof (rule run_resume_past [OF c that(1)])
    show "session (auth w) = None" if "\<not> allow"
      using that \<open>epoch rf = authEpoch v\<close> \<open>authEpoch w \<le> authEpoch v\<close> ok rf(2)
      by (simp add: refresh_ok_def)
  qed
  ultimately have "page_ok (continue_refresh rf (c, v))"
    using ok by (intro page_ok_continue) (auto simp: refresh_ok_def)
  then show ?thesis using assms(2) rf c by simp
qed

lemma page_ok_enter:
  assumes "epoch rf \<le> authEpoch w" and "race \<le> 3"
    and "if allow then length (sent rf) = race
         else race + 1 \<le> length (sent rf) \<and> length (sent rf) \<le> race + 4 \<and>
              (epoch rf = authEpoch w \<longrightarrow> session (auth w) = None)"
  shows "page_ok (continue_refresh rf (run_enter (page_runtime (epoch rf)) race allow w, w))"
  using assms by (intro page_ok_continue) (auto simp: run_enter_def split: if_splits)

lemma page_ok_timer:
  assumes "page_ok w" and "timer_fired (refreshPromise w) w = Some w'"
  shows "page_ok w'"
proof -
  obtain rf d race allow where rf: "refreshPromise w = Some rf" "phase rf = AwaitTimer d race allow"
    using assms(2) by (cases "refreshPromise w") (auto split: refresh_phase.splits)
  then have "page_ok (continue_refresh rf (run_enter (page_runtime (epoch rf)) race allow w, w))"
    using assms(1) by (intro page_ok_enter) (auto simp: page_ok_def refresh_ok_def split: if_splits)
  then show ?thesis using assms(2) rf by simp
qed

lemma page_ok_runRefresh:
  assumes "epoch rf \<le> authEpoch w" and "sent rf = []"
  shows "page_ok (runRefresh rf w)"
  unfolding runRefresh_def using assms by (intro page_ok_enter) simp_all

lemma page_ok_refreshAuthentication: "page_ok w \<Longrightarrow> page_ok (refreshAuthentication w)"
  by (auto simp: refreshAuthentication_def performRefreshWithBrowserLock_def page_ok_runRefresh
      page_ok_def [of w] split: option.splits lock_manager.splits) (simp_all add: page_ok_def refresh_ok_def)

lemma page_ok_bootstrapState: "page_ok w \<Longrightarrow> page_ok (on_auth (setBootstrapState st) w)"
  by (auto simp: page_ok_def refresh_ok_def split: option.splits)

lemma page_ok_resolve: "page_ok w \<Longrightarrow> page_ok (snd (resolveAuthentication now w))"
  by (simp add: resolveAuthentication_def Let_def page_ok_refreshAuthentication page_ok_bootstrapState
      split: option.splits)

lemma page_ok_granted:
  assumes "page_ok w" and "lock_granted (refreshPromise w) w = Some w'"
  shows "page_ok w'"
proof -
  obtain rf where rf: "refreshPromise w = Some rf" "phase rf = AwaitLock" "w' = runRefresh rf w"
    using assms(2) by (cases "refreshPromise w") (auto split: if_splits)
  then show ?thesis using assms(1)
    by (auto simp: page_ok_def [of w] refresh_ok_def intro: page_ok_runRefresh)
qed

lemma page_ok_failed:
  assumes "page_ok w" and "lock_failed e (refreshPromise w) w = Some w'"
  shows "page_ok w'"
proof -
  obtain rf where rf: "refreshPromise w = Some rf" "phase rf = AwaitLock"
    and w': "w' = w\<lparr>refreshPromise := Some (rf\<lparr>phase := Settled (Rejected e)\<rparr>)\<rparr>"
    using assms(2) by (cases "refreshPromise w") (auto split: if_splits)
  show ?thesis using assms(1) rf unfolding w' by (simp add: page_ok_def refresh_ok_def)
qed

lemma page_ok_finally:
  assumes "page_ok w" and "run_finally (refreshPromise w) w = Some w'"
  shows "page_ok w'"
proof -
  have "w' = w\<lparr>refreshPromise := None\<rparr>"
    using assms(2) by (cases "refreshPromise w") (auto split: refresh_phase.splits)
  then show ?thesis using assms(1) by (simp add: page_ok_def)
qed

lemma page_ok_sync:
  assumes "page_ok w" and "exec (SyncReceived ev) w = Some w'"
  shows "page_ok w'"
proof -
  have "page_ok (clearAuthenticatedClientState False w)"
    by (rule page_ok_epoch [OF assms(1)]) (simp_all add: clearAuthenticatedClientState_def)
  then show ?thesis using assms
    by (auto simp: on_sync_event_def Let_def split: if_splits option.splits)
qed

lemma otp_login_page:
  "refreshPromise (otp_login v w) = refreshPromise w"
  "authEpoch (otp_login v w) = authEpoch w + 1 \<or> authEpoch (otp_login v w) = authEpoch w \<and> session (auth (otp_login v w)) = session (auth w)"
  by (simp_all add: otp_login_def Let_def on_auth_def split: option.splits)

lemma page_ok_exec:
  assumes "page_ok w" and "exec e w = Some w'"
  shows "page_ok w'"
proof (cases e)
  case (SignIn v sync)
  then obtain b where "parse_bundle v = Some b" "w' = applyAuthBundle b sync w" using assms(2) by auto
  then show ?thesis by (intro page_ok_epoch [OF assms(1)]) simp_all
next
  case (SignInOtp v)
  then show ?thesis using assms(2) otp_login_page [of v w] by (intro page_ok_epoch [OF assms(1)]) (auto split: if_splits)
next
  case (Rotate v)
  then show ?thesis using assms
    by (cases "applyAuthRotation v w") (auto elim!: applyAuthRotation_Inr intro: page_ok_epoch)
next
  case (SignOut sync)
  then show ?thesis using assms(2) by (intro page_ok_epoch [OF assms(1)]) auto
next
  case (SignOutClient sync)
  then show ?thesis using assms(2)
    by (intro page_ok_epoch [OF assms(1)]) (auto simp: clearAuthenticatedClientState_def)
next
  case (SetUser u)
  then show ?thesis using assms by (intro page_ok_epoch [OF assms(1)]) (auto simp: page_ok_def)
next
  case (SetFlowToken t)
  then show ?thesis using assms by (intro page_ok_epoch [OF assms(1)]) (auto simp: page_ok_def)
qed (use assms page_ok_sync in \<open>auto simp: bootstrapAuthentication_def getFreshAuthHeaders_def
    page_ok_refreshAuthentication page_ok_resolve simp del: exec.simps(17)
    intro: page_ok_granted page_ok_failed page_ok_http page_ok_timer page_ok_finally split: if_splits\<close>)

lemma page_ok_run: "page_run w es w' \<Longrightarrow> page_ok w \<Longrightarrow> page_ok w'"
  by (induction rule: page_run.induct) (auto intro: page_ok_exec)

text \<open>The events by which a refresh in progress advances, and the calls that may start one.\<close>

fun refresh_event :: "event \<Rightarrow> bool" where
  "refresh_event LockGranted = True"
| "refresh_event (LockFailed _) = True"
| "refresh_event (HttpResponse _) = True"
| "refresh_event TimerFired = True"
| "refresh_event Finally = True"
| "refresh_event _ = False"

fun call_event :: "event \<Rightarrow> bool" where
  "call_event CallRefresh = True"
| "call_event (CallResolve _) = True"
| "call_event (CallBootstrap _ _) = True"
| "call_event (CallHeaders _) = True"
| "call_event _ = False"

section \<open>The credential is whole\<close>

text \<open>An answer that would have passed validation is applied as after validation.\<close>

lemma otp_login_valid:
  assumes "isAuthBundle v"
  shows "otp_login v w = applyAuthBundle (to_bundle v (to_user (js_get v (js ''user'')))) True w"
proof -
  have "\<not> nullish (js_get v (js k))" if "k \<in> {''access_token'', ''access_expires_at'', ''user'', ''session''}" for k
    using that assms by (cases "js_get v (js k)")
      (auto simp: isAuthBundle_def hasValidTokenFields_def isAuthUser_def isLoginSession_def isRecord_def nullish_def)
  moreover have "js_truthy v" using assms by (simp add: isAuthBundle_def isRecord_def)
  ultimately show ?thesis
    by (simp add: otp_login_def applyAuthBundle_def present_def Let_def to_bundle_def setBundle_def on_auth_def)
qed

lemma auth_continue [simp]: "auth (continue_refresh rf (c, w)) = auth w"
  by (cases c) simp_all

lemma coherent_refreshAuthentication [simp]: "coherent (auth (refreshAuthentication w)) \<longleftrightarrow> coherent (auth w)"
  by (simp add: refreshAuthentication_def performRefreshWithBrowserLock_def runRefresh_def split: option.split lock_manager.split)

lemma coherent_refresh_event:
  assumes "coherent (auth w)" and "refresh_event e" and "exec e w = Some w'"
  shows "coherent (auth w')"
proof -
  obtain rf where rf: "refreshPromise w = Some rf" using assms by (cases e; cases "refreshPromise w") auto
  have "coherent (auth (continue_refresh rf (run_resume (page_runtime (epoch rf)) race allow r w)))" for race allow r
    using run_resume_page(1) [OF assms(1)] by (metis auth_continue prod.collapse)
  then show ?thesis using assms rf by (cases e) (auto simp: runRefresh_def split: if_splits refresh_phase.splits)
qed

lemma coherent_exec:
  assumes "coherent (auth w)" and "exec e w = Some w'" and "\<And>v. e = SignInOtp v \<Longrightarrow> js_truthy v \<Longrightarrow> isAuthBundle v"
  shows "coherent (auth w')"
proof (cases "refresh_event e")
  case True
  then show ?thesis using coherent_refresh_event assms by blast
next
  case False
  have otp: "coherent (auth (otp_login v w))" if "e = SignInOtp v" for v
  proof (cases "js_truthy v")
    case True
    then have "isAuthBundle v" using assms(3) that by blast
    then have "coherent (auth (otp_login v w)) \<longleftrightarrow> bundle_ok (to_bundle v (to_user (js_get v (js ''user''))))"
      by (simp add: otp_login_valid)
    then show ?thesis using \<open>isAuthBundle v\<close> parse_bundle_ok [of v] by (simp add: parse_bundle_def)
  qed (use assms(1) in \<open>simp add: otp_login_def\<close>)
  have "coherent (auth (reload v))" for v by (simp add: reload_def initial_page_def)
  then show ?thesis using assms(1,2) False otp
    by (cases e) (auto simp: resolveAuthentication_def bootstrapAuthentication_def getFreshAuthHeaders_def Let_def
        on_sync_event_def clearAuthenticatedClientState_def parse_bundle_ok elim!: applyAuthRotation_Inr
        split: option.splits if_splits sum.splits)
qed

lemma coherent_run:
  "page_run w es w' \<Longrightarrow> coherent (auth w) \<Longrightarrow> \<forall>v. SignInOtp v \<in> set es \<longrightarrow> js_truthy v \<longrightarrow> isAuthBundle v \<Longrightarrow> coherent (auth w')"
proof (induction rule: page_run.induct)
  case (run_snoc w es w' e w'')
  then show ?case by (intro coherent_exec [of w' e w'']) auto
qed

text \<open>
  C2: in every page reached from a fresh one by any interleaving of calls, server answers, timers,
  locks and events of other tabs, the access token, its expiry and the login session are present
  together or absent together, the token and the session identifier are not empty and the expiry is
  positive and finite, provided the server answers the second factor with a bundle that \<open>isAuthBundle\<close>
  accepts: the form for it does not check.  No other response needs to be trusted.
\<close>

theorem auth_store_coherent:
  assumes "page_run (initial_page locks) es w"
    and "\<forall>v. SignInOtp v \<in> set es \<longrightarrow> js_truthy v \<longrightarrow> isAuthBundle v"
  shows "coherent (auth w)"
  by (rule coherent_run [OF assms(1) _ assms(2)]) (simp add: initial_page_def)

text \<open>A server answer that passes validation.\<close>

definition sample_session :: "string \<Rightarrow> jsval" where
  "sample_session s = JObj [(js ''sid'', JStr (js s)), (js ''current'', JBool True),
     (js ''login_method'', JStr (js ''password'')), (js ''ip'', JStr (js ''10.0.0.1'')),
     (js ''user_agent'', JStr (js ''ua'')), (js ''created_at'', JNum (of_i 1)),
     (js ''last_active_at'', JNum (of_i 2)), (js ''expires_at'', JNum (of_i 3))]"

definition sample_bundle :: "string \<Rightarrow> jsval" where
  "sample_bundle s = JObj [(js ''access_token'', JStr (js ''token'')), (js ''token_type'', JStr (js ''Bearer'')),
     (js ''access_expires_at'', JNum (of_i 1700000600)),
     (js ''user'', JObj [(js ''id'', JNum (of_i 7)), (js ''username'', JStr (js ''u'')), (js ''role'', JNum (of_i 1))]),
     (js ''session'', sample_session s)]"

definition sample_ok :: "string \<Rightarrow> post_result" where
  "sample_ok s = PostOk 200 (JObj [(js ''success'', JBool True), (js ''data'', sample_bundle s)])"

definition sample_conflict :: "string \<Rightarrow> post_result" where
  "sample_conflict c = PostAxiosError (Some (409, JObj [(js ''success'', JBool False), (js ''code'', JStr (js c))])) JNull"

theorem auth_store_coherent_witness:
  "coherent (auth (the (exec_all [CallResolve (of_i 1700000000000), LockGranted, HttpResponse (sample_ok ''s1''),
     SignOut True, SignInOtp (sample_bundle ''s2'')] (initial_page Locks))))"
proof (rule auth_store_coherent [OF page_run_the])
  have "isAuthBundle (sample_bundle ''s2'')" by code_simp
  then show "\<forall>v. SignInOtp v \<in> set [CallResolve (of_i 1700000000000), LockGranted, HttpResponse (sample_ok ''s1''),
     SignOut True, SignInOtp (sample_bundle ''s2'')] \<longrightarrow> js_truthy v \<longrightarrow> isAuthBundle v" by simp
qed code_simp

section \<open>A refresh ends\<close>

fun phase_rank :: "refresh_phase \<Rightarrow> nat" where
  "phase_rank AwaitLock = 16"
| "phase_rank (AwaitResponse race allow) = (if allow then 9 else 2) + 2 * (3 - race)"
| "phase_rank (AwaitTimer _ race allow) = (if allow then 10 else 3) + 2 * (3 - race)"
| "phase_rank (Settled _) = 1"

definition rank :: "page \<Rightarrow> nat" where
  "rank w = (case refreshPromise w of None \<Rightarrow> 0 | Some rf \<Rightarrow> phase_rank (phase rf))"

lemma rank_continue: "rank (continue_refresh rf (c, w)) = cmd_rank c"
  by (cases c) (simp_all add: rank_def)

lemma rank_on_auth [simp]: "rank (on_auth f w) = rank w"
  by (simp add: rank_def)

lemma rank_runRefresh: "rank (runRefresh rf w) \<le> 15"
  using run_enter_rank [of "page_runtime (epoch rf)" 0 True w] by (simp add: runRefresh_def rank_continue)

lemma rank_refreshAuthentication:
  "rank (refreshAuthentication w) \<le> (if rank w = 0 then 16 else rank w)"
proof (cases "refreshPromise w")
  case None
  then show ?thesis
    using rank_runRefresh [of "\<lparr>epoch = authEpoch w, phase = AwaitLock, sent = []\<rparr>" w]
    by (auto simp: refreshAuthentication_def performRefreshWithBrowserLock_def rank_def [of w] split: lock_manager.split)
       (simp_all add: rank_def)
next
  case (Some rf)
  then show ?thesis by (cases "phase rf") (simp_all add: refreshAuthentication_def rank_def)
qed

lemma rank_pos: "refreshPromise w = Some rf \<Longrightarrow> 0 < rank w"
  by (cases "phase rf") (simp_all add: rank_def)

lemma rank_call:
  assumes "call_event e" and "exec e w = Some w'"
  shows "rank w' \<le> rank w + 16"
proof -
  have "rank (refreshAuthentication v) \<le> rank v + 16" for v
    using rank_refreshAuthentication [of v] by (auto split: if_splits)
  note * = this [of w] this [of "on_auth (setBootstrapState Checking) w"]
  show ?thesis using assms *
    by (cases e) (auto simp: resolveAuthentication_def bootstrapAuthentication_def getFreshAuthHeaders_def
        Let_def split: option.splits if_splits)
qed

lemma rank_refresh_event:
  assumes "refresh_event e" and "exec e w = Some w'"
  shows "rank w' < rank w"
proof -
  obtain rf where rf: "refreshPromise w = Some rf"
    using assms by (cases e; cases "refreshPromise w") auto
  have rank: "rank w = phase_rank (phase rf)" using rf by (simp add: rank_def)
  have "rank (continue_refresh rf (run_resume (page_runtime (epoch rf)) race allow r w)) < rank w"
    if "phase rf = AwaitResponse race allow" for race allow r
    using run_resume_rank [of "page_runtime (epoch rf)" race allow r w] that rank
    by (metis phase_rank.simps(2) prod.collapse rank_continue)
  moreover have "rank (continue_refresh rf (run_enter (page_runtime (epoch rf)) race allow w, w)) < rank w"
    if "phase rf = AwaitTimer d race allow" for d race allow
    using run_enter_rank [of "page_runtime (epoch rf)" race allow w] that rank by (auto simp: rank_continue)
  moreover have "rank (runRefresh rf w) < rank w" if "phase rf = AwaitLock"
    using rank_runRefresh [of rf w] that rank by simp
  moreover have "rank (w\<lparr>refreshPromise := Some (rf\<lparr>phase := Settled res\<rparr>)\<rparr>) = 1"
    and "rank (w\<lparr>refreshPromise := None\<rparr>) = 0" for res by (simp_all add: rank_def)
  ultimately show ?thesis
    using assms rf rank by (cases e) (auto split: if_splits refresh_phase.splits)
qed

lemma rank_other:
  assumes "\<not> refresh_event e" and "\<not> call_event e" and "exec e w = Some w'"
  shows "rank w' \<le> rank w"
  using assms
  by (cases e) (auto simp: rank_def clearAuthenticatedClientState_def on_sync_event_def Let_def reload_def otp_login_page(1)
      initial_page_def elim!: applyAuthRotation_Inr split: sum.splits option.splits if_splits)

lemma rank_run:
  "page_run w es w' \<Longrightarrow> length (filter refresh_event es) + rank w' \<le> rank w + 16 * length (filter call_event es)"
proof (induction rule: page_run.induct)
  case (run_snoc w es w' e w'')
  have "\<not> (refresh_event e \<and> call_event e)" by (cases e) simp_all
  then show ?case
    using run_snoc rank_call [of e w' w''] rank_refresh_event [of e w' w''] rank_other [of e w' w'']
    by (cases "refresh_event e"; cases "call_event e") auto
qed simp

text \<open>
  C3: a refresh always ends.  While one is in progress some step of it is possible, whatever else the
  page does, and over any history the steps of refreshes number at most sixteen per call that may
  start one, counting the lock, the responses, the timers and the final callback.
\<close>

theorem refresh_terminates:
  assumes "page_run (initial_page locks) es w"
  shows "(refreshPromise w \<noteq> None \<longrightarrow> (\<exists>e. refresh_event e \<and> exec e w \<noteq> None)) \<and>
    length (filter refresh_event es) \<le> 16 * length (filter call_event es)"
proof -
  have "\<exists>e. refresh_event e \<and> exec e w \<noteq> None" if "refreshPromise w = Some rf" for rf
  proof (cases "phase rf")
    case AwaitLock
    then show ?thesis using that by (intro exI [of _ LockGranted]) simp
  next
    case (AwaitResponse race allow)
    then show ?thesis using that by (intro exI [of _ "HttpResponse (PostThrown JNull)"]) simp
  next
    case (AwaitTimer d race allow)
    then show ?thesis using that by (intro exI [of _ TimerFired]) simp
  next
    case (Settled r)
    then show ?thesis using that by (intro exI [of _ Finally]) simp
  qed
  moreover have "rank (initial_page locks) = 0" by (simp add: rank_def initial_page_def)
  ultimately show ?thesis using rank_run [OF assms] by auto
qed

text \<open>
  C22: a refresh sends at most eight requests: four while races are retried, and four more after the
  single retry on a session mismatch.
\<close>

theorem refresh_requests_bounded:
  assumes "page_run (initial_page locks) es w" and "refreshPromise w = Some rf"
  shows "length (sent rf) \<le> 8"
proof -
  have "phase_ok (phase rf) (length (sent rf))"
    using page_ok_run [OF assms(1) page_ok_initial] assms(2) by (simp add: page_ok_def refresh_ok_def)
  then show ?thesis by (cases "phase rf") (auto split: if_splits)
qed

definition race_rounds :: "event list" where
  "race_rounds = concat (replicate 3 [HttpResponse (sample_conflict ''AUTH_REFRESH_RACE''), TimerFired])"

definition longest_refresh :: "event list" where
  "longest_refresh = [CallRefresh] @ race_rounds @
     [HttpResponse (sample_conflict ''AUTH_SESSION_MISMATCH'')] @ race_rounds"

theorem refresh_terminates_witness:
  "length (filter refresh_event longest_refresh) \<le> 16 * length (filter call_event longest_refresh)"
  by (rule conjunct2 [OF refresh_terminates [OF page_run_the [of _ "initial_page NoLocks"]]]) code_simp

theorem refresh_requests_bounded_witness:
  "length (sent (the (refreshPromise (the (exec_all longest_refresh (initial_page NoLocks)))))) \<le> 8 \<and>
   length (sent (the (refreshPromise (the (exec_all longest_refresh (initial_page NoLocks)))))) = 8"
proof
  let ?w = "the (exec_all longest_refresh (initial_page NoLocks))"
  have run: "exec_all longest_refresh (initial_page NoLocks) \<noteq> None" by code_simp
  have "refreshPromise ?w \<noteq> None" by code_simp
  then have "refreshPromise ?w = Some (the (refreshPromise ?w))" by simp
  then show "length (sent (the (refreshPromise ?w))) \<le> 8"
    by (rule refresh_requests_bounded [OF page_run_the [OF run]])
  show "length (sent (the (refreshPromise ?w))) = 8" by code_simp
qed

section \<open>A sign-out is not undone by a refresh\<close>

text \<open>No session, and the refresh in progress, if any, belongs to an earlier epoch or has ended.\<close>

definition signed_out :: "page \<Rightarrow> bool" where
  "signed_out w \<longleftrightarrow> session (auth w) = None \<and> accessToken (auth w) = None \<and>
     (case refreshPromise w of
        None \<Rightarrow> True
      | Some rf \<Rightarrow> epoch rf < authEpoch w \<or> (case phase rf of Settled _ \<Rightarrow> True | _ \<Rightarrow> False))"

fun sign_in_event :: "event \<Rightarrow> bool" where
  "sign_in_event (SignIn _ _) = True"
| "sign_in_event (SignInOtp _) = True"
| "sign_in_event e = call_event e"

lemma stale_enter: "epoch rf < authEpoch w \<Longrightarrow> run_enter (page_runtime (epoch rf)) race allow w = Return superseded"
  by (simp add: run_enter_def)

lemma stale_resume:
  "epoch rf < authEpoch w \<Longrightarrow> run_resume (page_runtime (epoch rf)) race allow r w = (Return superseded, w)"
  by (simp add: run_resume_def)

lemma signed_out_epoch:
  assumes "signed_out w" and "session (auth w') = None" and "accessToken (auth w') = None" and "refreshPromise w' = refreshPromise w"
    and "authEpoch w \<le> authEpoch w'"
  shows "signed_out w'"
  using assms by (auto simp: signed_out_def split: option.splits)

lemma signed_out_refresh_event:
  assumes "signed_out w" and "refresh_event e" and "exec e w = Some w'"
  shows "signed_out w'"
proof -
  obtain rf where rf: "refreshPromise w = Some rf"
    using assms by (cases e; cases "refreshPromise w") auto
  have st: "epoch rf < authEpoch w" if "\<And>r. phase rf \<noteq> Settled r"
    using assms(1) rf that by (auto simp: signed_out_def split: refresh_phase.splits)
  show ?thesis using assms rf st
    by (cases e) (auto simp: runRefresh_def stale_enter stale_resume signed_out_def
        split: if_splits refresh_phase.splits)
qed

lemma signed_out_exec:
  assumes "signed_out w" and "\<not> sign_in_event e" and "exec e w = Some w'"
  shows "signed_out w'"
proof (cases "refresh_event e")
  case True
  then show ?thesis using signed_out_refresh_event assms by blast
next
  case False
  have "signed_out (reload v)" for v by (simp add: signed_out_def reload_def initial_page_def initial_auth_def)
  moreover have "session (auth w) = None" "accessToken (auth w) = None" using assms(1) by (simp_all add: signed_out_def)
  ultimately show ?thesis
    using assms False
    by (cases e) (auto simp: clearAuthenticatedClientState_def on_sync_event_def Let_def
        elim!: applyAuthRotation_Inr intro: signed_out_epoch [OF assms(1)] split: sum.splits option.splits if_splits)
qed

lemma signed_out_run:
  "page_run w es w' \<Longrightarrow> signed_out w \<Longrightarrow> list_all (\<lambda>e. \<not> sign_in_event e) es \<Longrightarrow> signed_out w'"
  by (induction rule: page_run.induct) (auto intro: signed_out_exec)

text \<open>
  C1: a sign-out is final.  Whatever refresh was in progress when the user signed out, in whatever
  phase and with whatever answers still to come, the page stays without session and token until the
  user signs in or a new refresh is started.
\<close>

theorem sign_out_not_undone:
  assumes "page_run (initial_page locks) es w"
    and "page_run (clearAuthentication sync Complete w) fs w'"
    and "list_all (\<lambda>e. \<not> sign_in_event e) fs"
  shows "session (auth w') = None \<and> accessToken (auth w') = None"
proof -
  have ok: "page_ok w" using page_ok_run [OF assms(1) page_ok_initial] .
  have "signed_out (clearAuthentication sync Complete w)"
    using ok by (auto simp: signed_out_def page_ok_def refresh_ok_def split: option.splits)
  then have "signed_out w'" using signed_out_run [OF assms(2) _ assms(3)] by blast
  then show ?thesis by (simp add: signed_out_def)
qed

theorem sign_out_not_undone_witness:
  "session (auth (the (exec_all [HttpResponse (sample_ok ''s2''), Finally]
     (clearAuthentication True Complete (the (exec_all [SignIn (sample_bundle ''s1'') True, CallRefresh, LockGranted]
       (initial_page Locks))))))) = None \<and>
   accessToken (auth (the (exec_all [HttpResponse (sample_ok ''s2''), Finally]
     (clearAuthentication True Complete (the (exec_all [SignIn (sample_bundle ''s1'') True, CallRefresh, LockGranted]
       (initial_page Locks))))))) = None"
  by (rule sign_out_not_undone [OF page_run_the page_run_the]) code_simp+

section \<open>The outcome agrees with the store\<close>

lemma http_settles:
  assumes "exec (HttpResponse p) w = Some w'" and "refreshPromise w' = Some rf'"
    and "phase rf' = Settled (Resolved out)"
  obtains rf race allow v where "refreshPromise w = Some rf" and "phase rf = AwaitResponse race allow"
    and "run_resume (page_runtime (epoch rf)) race allow (requestRefresh p) w = (Return out, v)"
    and "auth w' = auth v"
proof -
  obtain rf race allow where rf: "refreshPromise w = Some rf" "phase rf = AwaitResponse race allow"
    using assms(1) by (cases "refreshPromise w") (auto split: refresh_phase.splits)
  obtain c v where c: "run_resume (page_runtime (epoch rf)) race allow (requestRefresh p) w = (c, v)"
    by (metis surj_pair)
  have "w' = continue_refresh rf (c, v)" using assms(1) rf c by simp
  then have "c = Return out \<and> auth w' = auth v" using assms(2,3) by (cases c) auto
  then show ?thesis using that rf c by blast
qed

text \<open>
  C23: when a server answer ends a refresh, what its callers are told agrees with the session the page
  then holds: after an authenticated outcome the session of that bundle, after an anonymous or
  out-of-sync outcome none, and after a transient error the session there was before.
\<close>

theorem refresh_outcome_agrees:
  assumes "exec (HttpResponse p) w = Some w'" and "refreshPromise w' = Some rf'"
    and "phase rf' = Settled (Resolved out)"
  shows "session_sid (auth w') = (case out of
      Authenticated b \<Rightarrow> Some (sid (bundle_session b))
    | TransientError _ \<Rightarrow> session_sid (auth w)
    | _ \<Rightarrow> None)"
proof -
  obtain rf race allow v where "refreshPromise w = Some rf" "phase rf = AwaitResponse race allow"
    and "run_resume (page_runtime (epoch rf)) race allow (requestRefresh p) w = (Return out, v)"
    and "auth w' = auth v"
    by (rule http_settles [OF assms])
  then show ?thesis using page_rt.return_agrees [of "epoch rf" race allow "requestRefresh p" w out v]
    by (cases out) simp_all
qed

definition waiting_page :: page where
  "waiting_page = the (exec_all [SignIn (sample_bundle ''s1'') True, CallRefresh, LockGranted] (initial_page Locks))"

definition answered_ok_page :: page where
  "answered_ok_page = the (exec (HttpResponse (sample_ok ''s1'')) waiting_page)"

definition answered_page :: page where
  "answered_page = the (exec (HttpResponse (PostAxiosError (Some (401, JUndef)) JNull)) waiting_page)"

theorem refresh_outcome_agrees_witness:
  "session_sid (auth waiting_page) = Some (js ''s1'') \<and> session_sid (auth answered_page) = None"
proof
  show "session_sid (auth waiting_page) = Some (js ''s1'')" by code_simp
  have "exec (HttpResponse (PostAxiosError (Some (401, JUndef)) JNull)) waiting_page \<noteq> None" by code_simp
  then have 1: "exec (HttpResponse (PostAxiosError (Some (401, JUndef)) JNull)) waiting_page = Some answered_page"
    by (simp add: answered_page_def)
  have 2: "refreshPromise answered_page = Some (the (refreshPromise answered_page))" by code_simp
  have 3: "phase (the (refreshPromise answered_page)) = Settled (Resolved Anonymous)" by code_simp
  from refresh_outcome_agrees [OF 1 2 3] show "session_sid (auth answered_page) = None" by simp
qed

section \<open>Other tabs\<close>

text \<open>The tab puts its events on the wire; another tab handles what is delivered to it.\<close>

definition broadcast :: "tab_env \<Rightarrow> jstr \<Rightarrow> (sync_kind \<times> jstr) list \<Rightarrow> wire list" where
  "broadcast env nonce evs = concat (map (\<lambda>(k, s). publishAuthSessionEvent env nonce k s) evs)"

definition receive_all :: "tab_env \<Rightarrow> wire list \<Rightarrow> page \<Rightarrow> page" where
  "receive_all env ws w = foldl (\<lambda>w ev. snd (on_sync_event ev w)) w (delivered env ws)"

lemma on_sync_event_quiet: "published (snd (on_sync_event ev w)) = published w"
  by (simp add: on_sync_event_def Let_def clearAuthenticatedClientState_def split: option.splits)

lemma published_clear:
  "session_sid (auth w) = Some s \<Longrightarrow> s \<noteq> [] \<Longrightarrow>
   published (clearAuthentication True st w) = published w @ [(EvSignedOut, s)]"
  by (simp add: clearAuthentication_def publish_def)

text \<open>
  C24: signing out in one tab signs out every other tab of the browser that holds the same session:
  the sign-out publishes one event, and a tab with that session that receives it within a minute
  ends without session and token, and publishes nothing itself.
\<close>

theorem sign_out_reaches_other_tabs:
  assumes "hasWindow a" and "hasWindow b" and "hasBroadcastChannel a = hasBroadcastChannel b"
    and "storageWritable a" and "authSyncSource a \<noteq> authSyncSource b"
    and "tab_now a = of_i ta" and "tab_now b = of_i tb" and "0 \<le> ta" and "ta \<le> tb"
    and "tb < ta + 60000" and "tb \<le> 2 ^ 53"
    and "code_units s" and "code_units nonce" and "code_units (authSyncSource a)"
    and "s \<noteq> []"
    and "session_sid (auth wa) = Some s" and "session_sid (auth wb) = Some s"
    and "wb' = receive_all b (broadcast a nonce
           (drop (length (published wa)) (published (clearAuthentication True Complete wa)))) wb"
  shows "session (auth wb') = None \<and> accessToken (auth wb') = None \<and> published wb' = published wb"
proof -
  define ev where "ev = \<lparr>ev_kind = EvSignedOut, ev_sid = s, ev_source = authSyncSource a, ev_nonce = nonce,
    ev_timestamp = of_i ta\<rparr>"
  have "ta \<le> 2 ^ 53" "0 \<le> tb" "\<bar>tb - ta\<bar> < 60000" using assms(8-11) by linarith+
  then have "delivered b (publishAuthSessionEvent a nonce EvSignedOut s) = [ev]"
    using delivered_exactly [of a b ta tb s nonce EvSignedOut] assms(1-8,11-15) unfolding ev_def by simp
  moreover have "drop (length (published wa)) (published (clearAuthentication True Complete wa)) = [(EvSignedOut, s)]"
    using published_clear [OF assms(16,15)] by simp
  ultimately have "wb' = snd (on_sync_event ev wb)"
    unfolding assms(18) by (simp add: receive_all_def broadcast_def)
  then show ?thesis using assms(15,17)
    by (simp add: on_sync_event_quiet) (simp add: on_sync_event_def ev_def clearAuthenticatedClientState_def)
qed

definition sample_tab :: "string \<Rightarrow> int \<Rightarrow> tab_env" where
  "sample_tab src now = \<lparr>hasWindow = True, hasBroadcastChannel = True, storageWritable = True,
     authSyncSource = js src, tab_now = of_i now\<rparr>"

definition signed_in_page :: page where
  "signed_in_page = the (exec (SignIn (sample_bundle ''s1'') True) (initial_page Locks))"

theorem sign_out_reaches_other_tabs_witness:
  "session (auth (receive_all (sample_tab ''tab-2'' 1700000000500) (broadcast (sample_tab ''tab-1'' 1700000000000)
     (js ''n'') (drop (length (published signed_in_page))
       (published (clearAuthentication True Complete signed_in_page)))) signed_in_page)) = None"
  by (rule conjunct1 [OF sign_out_reaches_other_tabs [where a = "sample_tab ''tab-1'' 1700000000000"
        and ta = 1700000000000 and tb = 1700000000500 and s = "js ''s1''" and wb = signed_in_page
        and wa = signed_in_page]])
    (simp_all add: sample_tab_def, code_simp+)

section \<open>Bootstrap, the second factor and headers\<close>

lemma refresh_started: "refreshPromise (refreshAuthentication w) \<noteq> None"
  by (simp add: refreshAuthentication_def performRefreshWithBrowserLock_def runRefresh_def run_enter_def
      split: option.split lock_manager.split)

text \<open>
  skipping the refresh for want of the hint cookie is not a verdict: the page is left as it was,
  in particular not marked complete, and resolving authentication afterwards still goes to the
  server.
\<close>

theorem bootstrap_skip_is_no_verdict:
  assumes "bootstrapState (auth w) \<noteq> Complete"
    and "user (auth w) = None" and "session (auth w) = None"
    and "readCookie cookie SESSION_HINT_COOKIE_NAME = None"
  shows "bootstrapAuthentication now (Some cookie) w = (Done Anonymous, w) \<and>
    fst (resolveAuthentication later w) = AwaitRefresh \<and>
    refreshPromise (snd (resolveAuthentication later w)) \<noteq> None"
proof -
  have none: "currentValidAuthBundle t (auth w) = None" for t
    using assms(2) by (simp add: currentValidAuthBundle_def)
  show ?thesis using assms none
    by (simp add: refresh_started bootstrapAuthentication_def hasSessionHint_def resolveAuthentication_def)
qed

theorem bootstrap_skip_is_no_verdict_witness:
  "bootstrapAuthentication (of_i 5) (Some (js ''theme=dark'')) (initial_page Locks) = (Done Anonymous, initial_page Locks)"
  by (rule conjunct1 [OF bootstrap_skip_is_no_verdict]) code_simp+

lemma getCommonHeaders_token:
  "map_of (getCommonHeaders a) (js ''Authorization'') =
     (case accessToken a of Some t \<Rightarrow> if t \<noteq> [] then Some (js ''Bearer '' @ t) else None | None \<Rightarrow> None)"
  by (simp add: getCommonHeaders_def js_def split: option.splits)



text \<open>A refresh that ends authenticated ends with its bundle, which was validated, in the store.\<close>

definition settled_refresh :: "page \<Rightarrow> refresh_result option" where
  "settled_refresh w = (case refreshPromise w of
     Some rf \<Rightarrow> (case phase rf of Settled res \<Rightarrow> Some res | _ \<Rightarrow> None)
   | None \<Rightarrow> None)"

lemma enter_not_authenticated: "run_enter rt race allow w \<noteq> Return (Authenticated b)"
  by (simp add: run_enter_def superseded_def)

lemma resume_authenticated:
  assumes "run_resume (page_runtime e) race allow r w = (Return (Authenticated b), v)"
  shows "v = applyAuthBundle b False w \<and> bundle_ok b"
  using assms parse_bundle_ok
  by (auto simp: run_resume_def Let_def superseded_def enter_not_authenticated split: if_splits)

lemma start_not_authenticated:
  "settled_refresh w = None \<Longrightarrow> settled_refresh (refreshAuthentication w) \<noteq> Some (Resolved (Authenticated b))"
  by (auto simp: settled_refresh_def refreshAuthentication_def performRefreshWithBrowserLock_def runRefresh_def run_enter_def
      superseded_def split: option.splits lock_manager.splits)

lemma settles_authenticated:
  assumes "exec e w = Some w'" and "settled_refresh w = None" and "settled_refresh w' = Some (Resolved (Authenticated b))"
  shows "\<exists>a. auth w' = setBundle b a \<and> bundle_ok b"
proof (cases "\<exists>p. e = HttpResponse p")
  case True
  then obtain p rf' where p: "e = HttpResponse p" and rf': "refreshPromise w' = Some rf'" "phase rf' = Settled (Resolved (Authenticated b))"
    using assms(3) by (auto simp: settled_refresh_def split: option.splits refresh_phase.splits)
  obtain rf race allow v where "refreshPromise w = Some rf"
    and "run_resume (page_runtime (epoch rf)) race allow (requestRefresh p) w = (Return (Authenticated b), v)"
    and "auth w' = auth v" by (rule http_settles [OF assms(1) [unfolded p] rf'])
  then show ?thesis using resume_authenticated by fastforce
next
  case False
  have keep: "refreshPromise w' = refreshPromise w \<Longrightarrow> False" using assms(2,3) by (simp add: settled_refresh_def)
  have start: "w' = refreshAuthentication w \<Longrightarrow> False" using start_not_authenticated [OF assms(2)] assms(3) by blast
  have start': "w' = refreshAuthentication (on_auth f w) \<Longrightarrow> False" for f
    using start_not_authenticated [of "on_auth f w" b] assms(2,3) by (simp add: settled_refresh_def)
  show ?thesis
    using assms(1) False keep start start' assms(3)
    by (cases e; cases "refreshPromise w")
       (auto simp: resolveAuthentication_def bootstrapAuthentication_def getFreshAuthHeaders_def Let_def otp_login_page
          clearAuthenticatedClientState_def settled_refresh_def runRefresh_def run_enter_def superseded_def on_sync_event_def
          reload_def initial_page_def elim!: applyAuthRotation_Inr
          split: option.splits if_splits sum.splits refresh_phase.splits)
qed

text \<open>
  C31: headers are handed out with the bearer token of the store and with a token that can be used.
  Without a refresh it lives for at least sixty seconds more.  When a refresh was awaited, and the caller
  goes on as it ends, it is the token the server has just issued if the refresh authenticated, and
  otherwise one that has not expired.  In all other cases the call fails, and then no token is live unless the
  refresh itself was rejected.
\<close>

theorem fresh_headers_carry_live_token:
  assumes "exec e w = Some w'" and "settled_refresh w = None" and "settled_refresh w' = Some res"
  shows "(case fst (getFreshAuthHeaders now w) of
      Done h \<Rightarrow> (\<exists>t x. accessToken (auth w) = Some t \<and> accessExpiresAt (auth w) = Some x \<and>
        num_lt (num_add (now_seconds now) (of_i 60)) x \<and> map_of h (js ''Authorization'') = Some (js ''Bearer '' @ t))
    | AwaitRefresh \<Rightarrow> refreshPromise (snd (getFreshAuthHeaders now w)) \<noteq> None) \<and>
   (case getFreshAuthHeaders_resume res later (auth w') of
      Inr h \<Rightarrow> (\<exists>t x. accessToken (auth w') = Some t \<and> accessExpiresAt (auth w') = Some x \<and>
        map_of h (js ''Authorization'') = Some (js ''Bearer '' @ t) \<and>
        (case res of
           Resolved (Authenticated b) \<Rightarrow> bundle_ok b \<and> t = access_token b \<and> x = access_expires_at b \<and>
             session (auth w') = Some (bundle_session b)
         | _ \<Rightarrow> num_lt (now_seconds later) x))
    | Inl (RefreshRejected err) \<Rightarrow> res = Rejected err
    | Inl _ \<Rightarrow> (\<forall>b. res \<noteq> Resolved (Authenticated b)) \<and> \<not> token_live_until (now_seconds later) (auth w'))"
proof
  show "case fst (getFreshAuthHeaders now w) of
      Done h \<Rightarrow> (\<exists>t x. accessToken (auth w) = Some t \<and> accessExpiresAt (auth w) = Some x \<and>
        num_lt (num_add (now_seconds now) (of_i 60)) x \<and> map_of h (js ''Authorization'') = Some (js ''Bearer '' @ t))
    | AwaitRefresh \<Rightarrow> refreshPromise (snd (getFreshAuthHeaders now w)) \<noteq> None"
    using refresh_started by (auto simp: getFreshAuthHeaders_def token_live_until_def getCommonHeaders_token split: option.splits)
next
  show "case getFreshAuthHeaders_resume res later (auth w') of
      Inr h \<Rightarrow> (\<exists>t x. accessToken (auth w') = Some t \<and> accessExpiresAt (auth w') = Some x \<and>
        map_of h (js ''Authorization'') = Some (js ''Bearer '' @ t) \<and>
        (case res of
           Resolved (Authenticated b) \<Rightarrow> bundle_ok b \<and> t = access_token b \<and> x = access_expires_at b \<and>
             session (auth w') = Some (bundle_session b)
         | _ \<Rightarrow> num_lt (now_seconds later) x))
    | Inl (RefreshRejected err) \<Rightarrow> res = Rejected err
    | Inl _ \<Rightarrow> (\<forall>b. res \<noteq> Resolved (Authenticated b)) \<and> \<not> token_live_until (now_seconds later) (auth w')"
  proof (cases "\<exists>b. res = Resolved (Authenticated b)")
    case True
    then obtain b a where b: "res = Resolved (Authenticated b)" "auth w' = setBundle b a" "bundle_ok b"
      using settles_authenticated assms by blast
    then have "access_token b \<noteq> []" by (cases "access_expires_at b") (simp_all add: bundle_ok_def)
    then show ?thesis using b by (simp add: getCommonHeaders_token) (simp add: setBundle_def)
  next
    case False
    then show ?thesis
      by (cases res) (auto simp: token_live_until_def getCommonHeaders_token
          split: sum.splits refresh_outcome.splits option.splits if_splits)
  qed
qed

theorem fresh_headers_carry_live_token_witness:
  "map_of (projr (getFreshAuthHeaders_resume (the (settled_refresh answered_ok_page)) (of_i 5) (auth answered_ok_page)))
     (js ''Authorization'') = Some (js ''Bearer token'')"
proof -
  have 1: "exec (HttpResponse (sample_ok ''s1'')) waiting_page = Some answered_ok_page"
    unfolding answered_ok_page_def by (rule option.collapse [symmetric]) code_simp
  have 2: "settled_refresh waiting_page = None" "settled_refresh answered_ok_page = Some (the (settled_refresh answered_ok_page))"
    by code_simp+
  have 3: "isl (getFreshAuthHeaders_resume (the (settled_refresh answered_ok_page)) (of_i 5) (auth answered_ok_page)) = False"
    "accessToken (auth answered_ok_page) = Some (js ''token'')" by code_simp+
  show ?thesis using fresh_headers_carry_live_token [OF 1 2, of "of_i 5" "of_i 5"] 3
    by (auto simp: js_def split: sum.splits)
qed

end
