(* ===== verification/HttpClient.thy ===== *)
theory HttpClient
  imports AuthProtocol
begin

text \<open>
  The HTTP client of the page (\<open>src/web/src/lib/http-client.ts\<close>) and the messages for server error
  codes (\<open>src/web/src/lib/server-error-message.ts\<close>): one request at a time per key for GET, the
  interceptors that attach the token, accept a rotated token, report errors and retry once after a
  refresh.  The transport (axios), the translations and the toasts are outside the sources: answers
  are parameters, a translation is represented by its key and a toast by what it shows.
\<close>

section \<open>Messages for server errors\<close>

definition serverErrorMessageKeys :: "(jstr \<times> jstr) list" where
  "serverErrorMessageKeys = [
     (js ''EMAIL_VERIFICATION_REQUIRED'',
      js ''Email verification is required before sign-in.''),
     (js ''AUTH_SESSION_LIMIT'',
      js ''Too many active login sessions. On a device where you are already signed in, open Login sessions and use '' @ [8220] @ js ''Sign out other sessions'' @ [8221] @ js '' to revoke them. If you cannot access a signed-in device, reset your password to sign out all sessions.''),
     (js ''AUTH_SESSION_ISSUANCE_LIMIT'',
      js ''Too many login sessions were created recently. Please wait for the rolling window to pass, then try again.''),
     (js ''TELEGRAM_BIND_DISABLED'',
      js ''Telegram binding is disabled.''),
     (js ''TELEGRAM_BIND_INVALID_REQUEST'',
      js ''The Telegram authorization request is invalid or expired.''),
     (js ''TELEGRAM_BIND_FLOW_INVALID'',
      js ''This Telegram binding request has expired or has already been used.''),
     (js ''TELEGRAM_BIND_SESSION_INVALID'',
      js ''The login session that started this Telegram binding is no longer valid.''),
     (js ''TELEGRAM_BIND_ALREADY_BOUND'',
      js ''This Telegram account is already bound.''),
     (js ''TELEGRAM_BIND_USER_DELETED'',
      js ''This user account no longer exists.''),
     (js ''TELEGRAM_BIND_USER_DISABLED'',
      js ''This user account is disabled.''),
     (js ''TELEGRAM_BIND_INTERNAL_ERROR'',
      js ''Telegram binding failed. Please try again.'')]"

definition serverErrorPayload :: "jsval \<Rightarrow> jsval option" where
  "serverErrorPayload v =
     (if \<not> isRecord v then None
      else let response = js_get v (js ''response'') in
        if isRecord response \<and> isRecord (js_get response (js ''data'')) then Some (js_get response (js ''data''))
        else Some v)"

definition getServerErrorMessageKey :: "jsval \<Rightarrow> jstr option" where
  "getServerErrorMessageKey v = (case serverErrorPayload v of
     None \<Rightarrow> None
   | Some payload \<Rightarrow> (case js_get payload (js ''code'') of
       JStr code \<Rightarrow> map_of serverErrorMessageKeys code
     | _ \<Rightarrow> None))"

section \<open>Requests\<close>

record request_config =
  skipBusinessError :: bool
  skipErrorHandler :: bool
  disableDuplicate :: bool
  skipAuthRefresh :: bool
  authRetry :: bool
  acceptAuthRotation :: bool
  params :: jsval
  req_headers :: "(jstr \<times> jstr) list"

datatype toast = Translated jstr | Shown jsval

record client =
  page :: page
  toasts :: "toast list"
  pathname :: jstr
  inFlightGet :: "(jstr \<times> nat) list"
  issued :: nat

definition toast_error :: "toast \<Rightarrow> client \<Rightarrow> client" where
  "toast_error t c = c\<lparr>toasts := toasts c @ [t]\<rparr>"

definition redirectToSignIn :: "client \<Rightarrow> client" where
  "redirectToSignIn c = (if pathname c \<noteq> js ''/sign-in'' then c\<lparr>pathname := js ''/sign-in''\<rparr> else c)"

text \<open>
  The key under which a GET is shared; \<open>JSON.stringify\<close> of parameters that print as nothing is the text
  of \<open>undefined\<close> in the template.
\<close>

definition get_key :: "jstr option \<Rightarrow> jstr \<Rightarrow> jsval \<Rightarrow> jstr" where
  "get_key session_id url ps =
     (let text = (if js_truthy ps then (case json_stringify ps of Some t \<Rightarrow> t | None \<Rightarrow> js ''undefined'')
                  else js ''{}'');
          sessionSID = (case session_id of Some s \<Rightarrow> if s \<noteq> [] then s else js ''anonymous'' | None \<Rightarrow> js ''anonymous'')
      in sessionSID @ [58] @ url @ [63] @ text)"

text \<open>\<open>api.get\<close>: the number of the request whose promise the caller receives.\<close>

definition api_get :: "jstr \<Rightarrow> request_config \<Rightarrow> client \<Rightarrow> nat \<times> client" where
  "api_get url cfg c =
     (if disableDuplicate cfg then (issued c, c\<lparr>issued := issued c + 1\<rparr>)
      else let key = get_key (session_sid (auth (page c))) url (params cfg) in
        case map_of (inFlightGet c) key of
          Some request \<Rightarrow> (request, c)
        | None \<Rightarrow> (issued c, c\<lparr>issued := issued c + 1,
                      inFlightGet := AList.update key (issued c) (inFlightGet c)\<rparr>))"

definition get_settled :: "jstr \<Rightarrow> client \<Rightarrow> client" where
  "get_settled key c = c\<lparr>inFlightGet := AList.delete key (inFlightGet c)\<rparr>"

section \<open>Interceptors\<close>

definition on_request :: "request_config \<Rightarrow> client \<Rightarrow> request_config" where
  "on_request cfg c = (case accessToken (auth (page c)) of
     Some t \<Rightarrow> (if t \<noteq> [] then
         cfg\<lparr>req_headers := AList.update (js ''Authorization'') (js ''Bearer '' @ t) (req_headers cfg)\<rparr> else cfg)
   | None \<Rightarrow> cfg)"

datatype api_result = Ok jsval | RotationFailed rotation_error | HttpError nat jsval | RefreshThrew jsval

definition business_error :: "request_config \<Rightarrow> jsval \<Rightarrow> client \<Rightarrow> client" where
  "business_error cfg body c =
     (if \<not> skipBusinessError cfg \<and> js_get body (js ''success'') = JBool False then
        toast_error (case getServerErrorMessageKey body of
            Some k \<Rightarrow> Translated k
          | None \<Rightarrow> (if js_truthy (js_get body (js ''message'')) then Shown (js_get body (js ''message''))
                     else Translated (js ''Request failed''))) c
      else c)"

definition on_response :: "request_config \<Rightarrow> jsval \<Rightarrow> client \<Rightarrow> api_result \<times> client" where
  "on_response cfg body c =
     (if acceptAuthRotation cfg \<and> js_get body (js ''success'') = JBool True then
        (case applyAuthRotation (js_get body (js ''data'')) (page c) of
           Inl e \<Rightarrow> (RotationFailed e, c)
         | Inr w \<Rightarrow> (Ok body, business_error cfg body (c\<lparr>page := w\<rparr>)))
      else (Ok body, business_error cfg body c))"

text \<open>The message of a failed request: \<open>body\<close> is the answer's body and \<open>msg\<close> the error's own text.\<close>

definition error_toast :: "jsval \<Rightarrow> jsval \<Rightarrow> toast" where
  "error_toast err msg = (case getServerErrorMessageKey err of
     Some k \<Rightarrow> Translated k
   | None \<Rightarrow>
     (let m = js_get (js_get (js_get err (js ''response'')) (js ''data'')) (js ''message'') in
      if js_truthy m then Shown m else if js_truthy msg then Shown msg
      else Translated (js ''Request failed'')))"

definition session_expired :: "request_config \<Rightarrow> client \<Rightarrow> client" where
  "session_expired cfg c =
     (if skipErrorHandler cfg then c else toast_error (Translated (js ''Session expired!'')) c)"

text \<open>The branches of the error interceptor that do not await a refresh.\<close>

definition on_error_now :: "request_config \<Rightarrow> nat \<Rightarrow> jsval \<Rightarrow> client \<Rightarrow> client" where
  "on_error_now cfg st err c =
     (if st = 401 then
        (if authRetry cfg then
           redirectToSignIn (session_expired cfg (c\<lparr>page := clearAuthentication False Complete (page c)\<rparr>))
         else session_expired cfg c)
      else if skipErrorHandler cfg then c
      else toast_error (error_toast err (js_get err (js ''message''))) c)"

definition needs_refresh :: "request_config \<Rightarrow> nat \<Rightarrow> bool" where
  "needs_refresh cfg st \<longleftrightarrow> st = 401 \<and> \<not> skipAuthRefresh cfg \<and> \<not> authRetry cfg"

text \<open>After the refresh: retry with the new token, or give up.\<close>

definition retry_config :: "request_config \<Rightarrow> client \<Rightarrow> request_config" where
  "retry_config cfg c = on_request (cfg\<lparr>authRetry := True\<rparr>) c"

definition give_up :: "request_config \<Rightarrow> refresh_outcome \<Rightarrow> client \<Rightarrow> client" where
  "give_up cfg out c = (case out of
     Anonymous \<Rightarrow> redirectToSignIn (session_expired cfg c)
   | OutOfSync _ \<Rightarrow> redirectToSignIn (session_expired cfg c)
   | _ \<Rightarrow> c)"

text \<open>
  A whole request.  \<open>answer n c\<close> is what the transport gives for the \<open>n\<close>-th request sent when the page is
  in state \<open>c\<close>: a body, or a failure with its status (\<open>0\<close> when there was no response).  \<open>awaited c\<close> is how
  awaiting the shared refresh from \<open>c\<close> ends, and the state then.  The result carries the configurations
  sent.
\<close>

datatype answer = Answer jsval | Failure nat jsval

function api_request ::
    "(nat \<Rightarrow> client \<Rightarrow> answer) \<Rightarrow> (client \<Rightarrow> refresh_result \<times> client) \<Rightarrow> nat \<Rightarrow> request_config \<Rightarrow> client
      \<Rightarrow> api_result \<times> client \<times> request_config list" where
  "api_request answer awaited n cfg c =
     (let cfg1 = on_request cfg c in
      case answer n c of
        Answer body \<Rightarrow> (let (r, c') = on_response cfg1 body c in (r, c', [cfg1]))
      | Failure st err \<Rightarrow>
        (if \<not> needs_refresh cfg1 st then (HttpError st err, on_error_now cfg1 st err c, [cfg1])
         else case awaited c of
             (Rejected e, c') \<Rightarrow> (RefreshThrew e, c', [cfg1])
           | (Resolved (Authenticated b), c') \<Rightarrow>
               (let (r, c'', sent_cfgs) = api_request answer awaited (n + 1) (retry_config cfg1 c') c'
                in (r, c'', cfg1 # sent_cfgs))
           | (Resolved out, c') \<Rightarrow> (HttpError st err, give_up cfg1 out c', [cfg1])))"
  by pat_completeness auto

lemma on_request_simps [simp]:
  "authRetry (on_request cfg c) = authRetry cfg" "skipAuthRefresh (on_request cfg c) = skipAuthRefresh cfg"
  "skipErrorHandler (on_request cfg c) = skipErrorHandler cfg"
  by (simp_all add: on_request_def split: option.splits)

lemma retry_config_authRetry [simp]: "authRetry (retry_config cfg c)"
  by (simp add: retry_config_def)

termination api_request
  by (relation "measure (\<lambda>(_, _, _, cfg, _). if authRetry cfg then 0 else 1)")
    (auto simp: needs_refresh_def)

declare api_request.simps [simp del]

section \<open>At most one retry\<close>

lemma api_request_retry_single:
  assumes "authRetry cfg"
  shows "snd (snd (api_request answer awaited n cfg c)) = [on_request cfg c]"
  using assms by (simp add: api_request.simps [of answer awaited n cfg c] needs_refresh_def Let_def
      split: answer.split prod.split)

lemma api_request_configs:
  "snd (snd (api_request answer awaited n cfg c)) = [on_request cfg c] \<or>
   (\<exists>b c'. awaited c = (Resolved (Authenticated b), c') \<and>
      snd (snd (api_request answer awaited n cfg c)) =
        [on_request cfg c, on_request (retry_config (on_request cfg c) c') c'])"
  using api_request_retry_single [of "retry_config (on_request cfg c) _" answer awaited "n + 1"]
  by (simp add: api_request.simps [of answer awaited n cfg c] Let_def
      split: answer.split prod.split refresh_result.split refresh_outcome.split) (metis snd_conv)

lemma on_request_header:
  "accessToken (auth (page c)) = Some t \<Longrightarrow> t \<noteq> [] \<Longrightarrow>
   map_of (req_headers (on_request cfg c)) (js ''Authorization'') = Some (js ''Bearer '' @ t)"
  by (simp add: on_request_def update_conv')

text \<open>
  C26: a request is sent at most twice, whatever the server answers: a second time only after a refresh
  that authenticated, marked as a retry and with the token the refreshed page holds.
\<close>

theorem request_sent_at_most_twice:
  assumes "api_request answer awaited n cfg c = (r, c', cfgs)"
  shows "length cfgs \<le> 2 \<and>
    (length cfgs = 2 \<longrightarrow> (\<exists>b c1. awaited c = (Resolved (Authenticated b), c1) \<and> authRetry (cfgs ! 1) \<and>
       (\<forall>t. accessToken (auth (page c1)) = Some t \<and> t \<noteq> [] \<longrightarrow>
          map_of (req_headers (cfgs ! 1)) (js ''Authorization'') = Some (js ''Bearer '' @ t))))"
  using api_request_configs [of answer awaited n cfg c] assms
  by (auto simp: on_request_header)

definition plain_config :: request_config where
  "plain_config = \<lparr>skipBusinessError = False, skipErrorHandler = False, disableDuplicate = False,
     skipAuthRefresh = False, authRetry = False, acceptAuthRotation = False, params = JUndef, req_headers = []\<rparr>"

definition client_of :: "page \<Rightarrow> client" where
  "client_of w = \<lparr>page = w, toasts = [], pathname = js ''/console'', inFlightGet = [], issued = 0\<rparr>"

text \<open>The refresh that the witnesses await: it accepts the bundle of session \<open>s2\<close>.\<close>

definition refreshing :: "client \<Rightarrow> refresh_result \<times> client" where
  "refreshing c = (let b = the (parse_bundle (sample_bundle ''s2'')) in
     (Resolved (Authenticated b), c\<lparr>page := applyAuthBundle b False (page c)\<rparr>))"

definition always_401 :: "nat \<Rightarrow> client \<Rightarrow> answer" where
  "always_401 n c = Failure 401 JNull"

theorem request_sent_at_most_twice_witness:
  "length (snd (snd (api_request always_401 refreshing 0 plain_config (client_of signed_in_page)))) = 2 \<and>
   authRetry (snd (snd (api_request always_401 refreshing 0 plain_config (client_of signed_in_page))) ! 1)"
proof
  let ?R = "api_request always_401 refreshing 0 plain_config (client_of signed_in_page)"
  show len: "length (snd (snd ?R)) = 2" by code_simp
  show "authRetry (snd (snd ?R) ! 1)"
    using request_sent_at_most_twice [of always_401 refreshing 0 plain_config "client_of signed_in_page"
        "fst ?R" "fst (snd ?R)" "snd (snd ?R)"] len by auto
qed

text \<open>
  C27: when the retried request is refused again, the page is signed out and sent to the sign-in page,
  and the caller gets the error; other tabs are not told.
\<close>

theorem second_401_signs_out:
  assumes "answer n c = Failure 401 e1" and "\<not> skipAuthRefresh cfg" and "\<not> authRetry cfg"
    and "awaited c = (Resolved (Authenticated b), c1)" and "answer (n + 1) c1 = Failure 401 e2"
    and "api_request answer awaited n cfg c = (r, c', cfgs)"
  shows "r = HttpError 401 e2 \<and> session (auth (page c')) = None \<and> accessToken (auth (page c')) = None \<and>
    pathname c' = js ''/sign-in'' \<and> published (page c') = published (page c1)"
proof -
  have "api_request answer awaited (n + 1) (retry_config (on_request cfg c) c1) c1 =
      (HttpError 401 e2,
       on_error_now (on_request (retry_config (on_request cfg c) c1) c1) 401 e2 c1,
       [on_request (retry_config (on_request cfg c) c1) c1])"
    using assms(5) by (simp add: api_request.simps [of answer awaited "Suc n"] needs_refresh_def Let_def)
  then have "r = HttpError 401 e2 \<and> c' = on_error_now (on_request (retry_config (on_request cfg c) c1) c1) 401 e2 c1"
    using assms by (simp add: api_request.simps [of answer awaited n] needs_refresh_def Let_def)
  then show ?thesis
    by (auto simp: on_error_now_def redirectToSignIn_def session_expired_def toast_error_def)
qed

theorem second_401_signs_out_witness:
  "session (auth (page (fst (snd (api_request always_401 refreshing 0 plain_config (client_of signed_in_page)))))) = None"
  using second_401_signs_out [of always_401 0 "client_of signed_in_page" JNull plain_config refreshing
      "the (parse_bundle (sample_bundle ''s2''))" "snd (refreshing (client_of signed_in_page))" JNull]
  by (simp add: always_401_def refreshing_def plain_config_def Let_def)
    (metis prod.collapse)

section \<open>Shared GET requests\<close>

lemma get_key_prefix:
  "\<exists>rest. get_key (Some s) url ps = (if s \<noteq> [] then s else js ''anonymous'') @ 58 # rest"
  by (simp add: get_key_def Let_def)

lemma append_sep_eq: "x @ d # u = y @ d # v \<Longrightarrow> d \<notin> set x \<Longrightarrow> d \<notin> set y \<Longrightarrow> x = y"
  by (induction x arbitrary: y; case_tac y) auto

text \<open>Requests in flight are recorded under one key each and were all issued.\<close>

definition client_ok :: "client \<Rightarrow> bool" where
  "client_ok c \<longleftrightarrow> distinct (map fst (inFlightGet c)) \<and> distinct (map snd (inFlightGet c)) \<and>
     list_all (\<lambda>(k, i). i < issued c) (inFlightGet c)"

lemma update_fresh: "map_of ps k = None \<Longrightarrow> AList.update k v ps = ps @ [(k, v)]"
  by (induction ps) (auto split: if_splits)

lemma client_ok_get: "client_ok c \<Longrightarrow> client_ok (snd (api_get url cfg c))"
  by (auto simp: client_ok_def api_get_def Let_def update_fresh map_of_eq_None_iff list_all_iff
      split: option.splits)

lemma client_ok_inj:
  assumes "client_ok c" and "map_of (inFlightGet c) k = Some i" and "map_of (inFlightGet c) k' = Some i"
  shows "k = k'"
proof -
  have "(k, i) \<in> set (inFlightGet c)" "(k', i) \<in> set (inFlightGet c)" using assms(2,3) by (auto dest: map_of_SomeD)
  then show ?thesis using assms(1) unfolding client_ok_def by (metis eq_snd_iff inj_onD distinct_map fst_conv)
qed

lemma api_get_recorded:
  assumes "\<not> disableDuplicate cfg" and "api_get url cfg c = (request, c1)"
  shows "map_of (inFlightGet c1) (get_key (session_sid (auth (page c))) url (params cfg)) = Some request"
  using assms by (auto simp: api_get_def Let_def update_conv' split: option.splits)

lemma api_get_joins:
  assumes "client_ok c" and "fst (api_get url cfg c) < issued c"
  shows "map_of (inFlightGet c) (get_key (session_sid (auth (page c))) url (params cfg)) = Some (fst (api_get url cfg c))"
  using assms by (auto simp: api_get_def Let_def split: if_splits option.splits)

text \<open>
  C28: a GET never joins a request of another session.  When a GET was issued in one session and the
  page has since moved to another one, a GET of the new session is given a different request, even
  for the same address and parameters; identifiers contain no colon.
\<close>

theorem get_not_shared_across_sessions:
  assumes "client_ok c" and "\<not> disableDuplicate cfg'" and "api_get url' cfg' c = (request, c1)"
    and "session_sid (auth (page c)) = Some s'" and "session_sid (auth w) = Some s" and "s \<noteq> s'"
    and "s \<noteq> []" and "s' \<noteq> []" and "58 \<notin> set s" and "58 \<notin> set s'"
  shows "fst (api_get url cfg (c1\<lparr>page := w\<rparr>)) \<noteq> request"
proof
  assume eq: "fst (api_get url cfg (c1\<lparr>page := w\<rparr>)) = request"
  have ok: "client_ok c1" using client_ok_get [OF assms(1), of url' cfg'] assms(3) by simp
  then have ok': "client_ok (c1\<lparr>page := w\<rparr>)" by (simp add: client_ok_def)
  have rec: "map_of (inFlightGet c1) (get_key (Some s') url' (params cfg')) = Some request"
    using api_get_recorded [OF assms(2,3)] assms(4) by simp
  then have "request < issued c1"
    using ok by (auto simp: client_ok_def list_all_iff dest!: map_of_SomeD)
  then have "map_of (inFlightGet c1) (get_key (Some s) url (params cfg)) = Some request"
    using api_get_joins [OF ok', of url cfg] eq assms(5) by simp
  then have "get_key (Some s) url (params cfg) = get_key (Some s') url' (params cfg')"
    using client_ok_inj [OF ok _ rec] by blast
  moreover obtain u v where "get_key (Some s') url' (params cfg') = s' @ 58 # u"
    "get_key (Some s) url (params cfg) = s @ 58 # v"
    using get_key_prefix [of s' url' "params cfg'"] get_key_prefix [of s url "params cfg"] assms(7,8) by auto
  ultimately show False using append_sep_eq [of s 58 v s' u] assms(6,9,10) by auto
qed

theorem get_not_shared_across_sessions_witness:
  "fst (api_get (js ''/api/user'') plain_config ((snd (api_get (js ''/api/user'') plain_config
      (client_of signed_in_page)))\<lparr>page := the (exec (SignIn (sample_bundle ''s2'') True) signed_in_page)\<rparr>))
   \<noteq> fst (api_get (js ''/api/user'') plain_config (client_of signed_in_page))"
  by (rule get_not_shared_across_sessions [where c = "client_of signed_in_page" and cfg' = plain_config
        and url' = "js ''/api/user''" and s = "js ''s2''" and s' = "js ''s1''"])
    (simp_all add: plain_config_def client_of_def client_ok_def, code_simp+)

text \<open>
  while a GET is in flight, the same GET in the same session gets its promise and nothing is sent;
  once it has settled, the next one is sent again.
\<close>

theorem get_shared_until_settled:
  assumes "\<not> disableDuplicate cfg" and "api_get url cfg c = (request, c1)"
  shows "api_get url cfg c1 = (request, c1) \<and>
    fst (api_get url cfg (get_settled (get_key (session_sid (auth (page c))) url (params cfg)) c1)) = issued c1"
proof -
  have "auth (page c1) = auth (page c)" using assms by (auto simp: api_get_def Let_def split: option.splits)
  then show ?thesis using assms
    by (auto simp: api_get_def Let_def get_settled_def update_conv' delete_conv' split: option.splits)
qed

theorem get_shared_until_settled_witness:
  "fst (api_get (js ''/api/status'') plain_config
     (snd (api_get (js ''/api/status'') plain_config (client_of signed_in_page)))) =
   fst (api_get (js ''/api/status'') plain_config (client_of signed_in_page))"
  using get_shared_until_settled [of plain_config "js ''/api/status''" "client_of signed_in_page"
      "fst (api_get (js ''/api/status'') plain_config (client_of signed_in_page))"
      "snd (api_get (js ''/api/status'') plain_config (client_of signed_in_page))"]
  by (simp add: plain_config_def)

end
