(* ===== verification/Messages.thy ===== *)
theory Messages
  imports JsText
begin

text \<open>
  The messages of the playground (\<open>src/web/src/features/playground/types.ts\<close> and
  \<open>lib/message/\<close>): creating and reading messages, separating the reasoning of a model from its
  visible answer (\<open>parseThinkTags\<close>), timing, and the views a message is rendered from.  Random
  identifiers (\<open>nanoid\<close>) and the clock are arguments.  The main results are that \<open>parseThinkTags\<close> cuts
  a text without losing anything and recovers the parts a text was built from.
\<close>

section \<open>Data\<close>

datatype message_role = User | Assistant | SystemRole

datatype message_status = Loading | Streaming | Completed | Errored

record message_version =
  version_id :: jstr
  version_content :: jstr

record reasoning_state =
  r_content :: jstr
  r_duration :: jsnum
  r_startedAt :: "jsnum option"
  r_completedAt :: "jsnum option"
  r_durationMs :: "jsnum option"

text \<open>\<open>errorCode\<close> distinguishes a missing code (\<open>None\<close>) from \<open>null\<close> (\<open>Some None\<close>).\<close>

record message =
  msg_key :: jstr
  msg_from :: message_role
  versions :: "message_version list"
  createdAt :: "jsnum option"
  startedAt :: "jsnum option"
  completedAt :: "jsnum option"
  durationMs :: "jsnum option"
  sources :: "(jstr \<times> jstr) list option"
  reasoning :: "reasoning_state option"
  isReasoningStreaming :: "bool option"
  isReasoningComplete :: "bool option"
  isContentComplete :: "bool option"
  msg_status :: "message_status option"
  errorCode :: "jstr option option"

definition opt_else :: "'a option \<Rightarrow> 'a option \<Rightarrow> 'a option" where
  "opt_else a b = (case a of None \<Rightarrow> b | Some _ \<Rightarrow> a)"

section \<open>Versions and content\<close>

definition createMessageVersion :: "jstr \<Rightarrow> jstr \<Rightarrow> message_version" where
  "createMessageVersion nid content = \<lparr>version_id = nid, version_content = content\<rparr>"

definition getCurrentVersion :: "message \<Rightarrow> message_version" where
  "getCurrentVersion m = (case versions m of
     v # _ \<Rightarrow> v
   | [] \<Rightarrow> \<lparr>version_id = js ''default'', version_content = []\<rparr>)"

definition getMessageContent :: "message \<Rightarrow> jstr" where
  "getMessageContent m = version_content (getCurrentVersion m)"

definition hasMessageContent :: "message \<Rightarrow> bool" where
  "hasMessageContent m \<longleftrightarrow> js_trim (getMessageContent m) \<noteq> []"

definition updateCurrentVersionContent :: "message \<Rightarrow> jstr \<Rightarrow> message" where
  "updateCurrentVersionContent m content =
     m\<lparr>versions := [(getCurrentVersion m)\<lparr>version_content := content\<rparr>]\<rparr>"

definition createUserMessage :: "jstr \<Rightarrow> jstr \<Rightarrow> jstr \<Rightarrow> jsnum \<Rightarrow> message" where
  "createUserMessage k vid content tms = \<lparr>msg_key = k, msg_from = User,
     versions = [createMessageVersion vid content], createdAt = Some tms, startedAt = None,
     completedAt = None, durationMs = None, sources = None, reasoning = None,
     isReasoningStreaming = None, isReasoningComplete = None, isContentComplete = None,
     msg_status = None, errorCode = None\<rparr>"

definition createLoadingAssistantMessage :: "jstr \<Rightarrow> jstr \<Rightarrow> jsnum \<Rightarrow> message" where
  "createLoadingAssistantMessage k vid tms = \<lparr>msg_key = k, msg_from = Assistant,
     versions = [createMessageVersion vid []], createdAt = Some tms, startedAt = Some tms,
     completedAt = None, durationMs = None, sources = None, reasoning = None,
     isReasoningStreaming = Some False, isReasoningComplete = Some False,
     isContentComplete = Some False, msg_status = Some Loading, errorCode = None\<rparr>"

section \<open>Content for the API\<close>

datatype content_part = TextPart jstr | ImagePart jstr

datatype api_content = PlainText jstr | Parts "content_part list"

definition buildMessageContent :: "jstr \<Rightarrow> jstr list \<Rightarrow> api_content" where
  "buildMessageContent t imageUrls =
     (let validImages = filter (\<lambda>url. js_trim url \<noteq> []) imageUrls in
      if validImages = [] then PlainText t
      else Parts (TextPart t # map (\<lambda>url. ImagePart (js_trim url)) validImages))"

fun find_text :: "content_part list \<Rightarrow> jstr" where
  "find_text [] = []"
| "find_text (TextPart t # ps) = t"
| "find_text (ImagePart _ # ps) = find_text ps"

fun getTextContent :: "api_content \<Rightarrow> jstr" where
  "getTextContent (PlainText t) = t"
| "getTextContent (Parts ps) = find_text ps"

record api_message =
  api_role :: message_role
  api_text :: api_content

definition formatMessageForAPI :: "message \<Rightarrow> api_message" where
  "formatMessageForAPI m =
     \<lparr>api_role = msg_from m, api_text = PlainText (version_content (getCurrentVersion m))\<rparr>"

definition isValidMessage :: "message \<Rightarrow> bool" where
  "isValidMessage m \<longleftrightarrow> versions m \<noteq> [] \<and> \<not> (msg_from m = Assistant \<and> \<not> hasMessageContent m)"

section \<open>Think tags\<close>

definition think_open :: jstr where
  "think_open = js ''<think>''"

definition think_close :: jstr where
  "think_close = js ''</think>''"

record parsed_think =
  visibleContent :: jstr
  think_reasoning :: jstr
  hasUnclosedTag :: bool

text \<open>The loop from the current position on, as a function of the text that is left.\<close>

function think_loop :: "jstr \<Rightarrow> jstr list \<times> jstr list \<times> bool" where
  "think_loop s = (case index_of think_open s of
     None \<Rightarrow> (if s = [] then [] else [s], [], False)
   | Some openPos \<Rightarrow>
     (let visible = (if openPos > 0 then [take openPos s] else []);
          rest = drop (openPos + 7) s
      in case index_of think_close rest of
           None \<Rightarrow> (visible, [rest], True)
         | Some closePos \<Rightarrow>
           (let (vs, rs, u) = think_loop (drop (closePos + 8) rest)
            in (visible @ vs, take closePos rest # rs, u))))"
  by pat_completeness auto

lemma think_lengths: "length think_open = 7" "length think_close = 8"
  by (simp_all add: think_open_def think_close_def)

termination think_loop
  by (relation "measure length") (auto dest!: index_of_Some_le simp: think_lengths)

declare think_loop.simps [simp del]

definition parseThinkTags :: "jstr \<Rightarrow> parsed_think" where
  "parseThinkTags content =
     (if \<not> js_includes content think_open
      then \<lparr>visibleContent = content, think_reasoning = [], hasUnclosedTag = False\<rparr>
      else let (vs, rs, u) = think_loop content in
        \<lparr>visibleContent = js_trim (concat vs), think_reasoning = js_trim (join [10, 10] rs),
         hasUnclosedTag = u\<rparr>)"

section \<open>Timing\<close>

definition elapsed :: "jsnum \<Rightarrow> jsnum \<Rightarrow> jsnum" where
  "elapsed to since = num_max (Fin 0) (num_sub to since)"

definition completeAssistantTiming :: "message \<Rightarrow> jsnum \<Rightarrow> message" where
  "completeAssistantTiming m tms =
     (if msg_from m \<noteq> Assistant then m
      else let started = the (opt_else (startedAt m) (opt_else (createdAt m) (Some tms))) in
        m\<lparr>startedAt := Some started, completedAt := Some tms, durationMs := Some (elapsed tms started)\<rparr>)"

definition startReasoningTiming :: "message \<Rightarrow> jsnum \<Rightarrow> reasoning_state" where
  "startReasoningTiming m tms = (case reasoning m of
     None \<Rightarrow> \<lparr>r_content = [], r_duration = Fin 0, r_startedAt = Some tms, r_completedAt = None,
              r_durationMs = None\<rparr>
   | Some r \<Rightarrow> r\<lparr>r_startedAt := opt_else (r_startedAt r) (Some tms)\<rparr>)"

definition completeReasoningTiming :: "message \<Rightarrow> jsnum \<Rightarrow> message" where
  "completeReasoningTiming m tms = (case reasoning m of
     None \<Rightarrow> m
   | Some r \<Rightarrow>
     (if r_durationMs r \<noteq> None then m
      else let started = the (opt_else (r_startedAt r) (opt_else (startedAt m) (Some tms)));
               ms = elapsed tms started
        in m\<lparr>reasoning := Some (r\<lparr>r_startedAt := Some started, r_completedAt := Some tms,
               r_durationMs := Some ms, r_duration := num_ceil (num_div ms (of_i 1000))\<rparr>)\<rparr>))"

section \<open>Views\<close>

definition shouldShowMessageLoader :: "message \<Rightarrow> bool \<Rightarrow> jstr \<Rightarrow> bool" where
  "shouldShowMessageLoader m isAssistant versionContent \<longleftrightarrow>
     isAssistant \<and> isReasoningStreaming m \<noteq> Some True \<and>
     (msg_status m = Some Loading \<or> msg_status m = Some Streaming \<and> versionContent = [])"

definition shouldShowMessageContent :: "message \<Rightarrow> jstr \<Rightarrow> bool" where
  "shouldShowMessageContent m versionContent \<longleftrightarrow>
     (msg_from m = User \<or> isReasoningStreaming m \<noteq> Some True) \<and> 0 < length versionContent"

definition getDisplayContent :: "message \<Rightarrow> jstr \<Rightarrow> jstr" where
  "getDisplayContent m versionContent =
     (if msg_from m \<noteq> Assistant then versionContent
      else if \<not> js_includes versionContent think_open then versionContent
      else visibleContent (parseThinkTags versionContent))"

record content_view =
  displayContent :: jstr
  hasSources :: bool
  isAssistantView :: bool
  showLoader :: bool
  showMessageContent :: bool
  viewSources :: "(jstr \<times> jstr) list"
  reasoningContent :: "jstr option"

definition getMessageContentState :: "message \<Rightarrow> jstr \<Rightarrow> content_view" where
  "getMessageContentState m versionContent =
     (let isAssistant = (msg_from m = Assistant);
          srcs = (case sources m of None \<Rightarrow> [] | Some xs \<Rightarrow> xs)
      in \<lparr>displayContent = getDisplayContent m versionContent, hasSources = (srcs \<noteq> []),
          isAssistantView = isAssistant,
          showLoader = shouldShowMessageLoader m isAssistant versionContent,
          showMessageContent = shouldShowMessageContent m versionContent,
          viewSources = srcs,
          reasoningContent = (case reasoning m of
              Some r \<Rightarrow> (if isAssistant \<and> r_content r \<noteq> [] then Some (r_content r) else None)
            | None \<Rightarrow> None)\<rparr>)"

definition isAdminRole :: "jsnum option \<Rightarrow> bool" where
  "isAdminRole r = (case r of None \<Rightarrow> False | Some x \<Rightarrow> num_le (of_i 10) x)"

definition isErrorMessage :: "message \<Rightarrow> bool" where
  "isErrorMessage m \<longleftrightarrow> msg_status m = Some Errored"

datatype error_kind = Generic | ModelPrice

record error_view =
  errorContent :: jstr
  errorKind :: error_kind
  showSettingsLink :: bool

definition getMessageErrorState :: "message \<Rightarrow> bool \<Rightarrow> error_view option" where
  "getMessageErrorState m isAdmin =
     (if \<not> isErrorMessage m then None
      else let content = (if getMessageContent m \<noteq> [] then getMessageContent m
                          else js ''An unknown error occurred'');
               isModelPriceError = (errorCode m = Some (Some (js ''model_price_error'')))
        in Some \<lparr>errorContent = content, errorKind = (if isModelPriceError then ModelPrice else Generic),
             showSettingsLink = (isModelPriceError \<and> isAdmin)\<rparr>)"

record action_view =
  actionContent :: jstr
  actionHasContent :: bool
  actionIsAssistant :: bool
  actionIsLoading :: bool
  actionIsUser :: bool

definition getMessageActionState :: "message \<Rightarrow> action_view" where
  "getMessageActionState m = \<lparr>actionContent = getMessageContent m, actionHasContent = hasMessageContent m,
     actionIsAssistant = (msg_from m = Assistant),
     actionIsLoading = (msg_status m = Some Loading \<or> msg_status m = Some Streaming),
     actionIsUser = (msg_from m = User)\<rparr>"

record editor_view =
  canSave :: bool
  hasChanged :: bool
  showSaveAndSubmit :: bool

definition getMessageEditorState :: "message \<Rightarrow> jstr \<Rightarrow> jstr \<Rightarrow> editor_view" where
  "getMessageEditorState m editText originalText =
     \<lparr>canSave = (length (js_trim editText) > 0 \<and> editText \<noteq> originalText),
      hasChanged = (editText \<noteq> originalText), showSaveAndSubmit = (msg_from m = User)\<rparr>"

section \<open>Conversations\<close>

text \<open>The identifiers of the new messages are arguments, in the order they are drawn.\<close>

definition appendUserMessagePair :: "message list \<Rightarrow> jstr \<Rightarrow> jstr list \<Rightarrow> jsnum \<Rightarrow> message list" where
  "appendUserMessagePair ms content ids now =
     ms @ [createUserMessage (ids ! 0) (ids ! 1) content now, createLoadingAssistantMessage (ids ! 2) (ids ! 3) now]"

fun find_index :: "('a \<Rightarrow> bool) \<Rightarrow> 'a list \<Rightarrow> nat option" where
  "find_index P [] = None"
| "find_index P (x # xs) = (if P x then Some 0 else map_option Suc (find_index P xs))"

definition createRegeneratedMessages :: "message list \<Rightarrow> jstr \<Rightarrow> jstr list \<Rightarrow> jsnum \<Rightarrow> message list option" where
  "createRegeneratedMessages ms k ids now = (case find_index (\<lambda>m. msg_key m = k) ms of
     None \<Rightarrow> None
   | Some i \<Rightarrow>
     (if msg_from (ms ! i) = User
      then Some (take (i + 1) ms @ [createLoadingAssistantMessage (ids ! 0) (ids ! 1) now])
      else Some (take i ms @ [createLoadingAssistantMessage (ids ! 0) (ids ! 1) now])))"

definition removeMessageByKey :: "message list \<Rightarrow> jstr \<Rightarrow> message list" where
  "removeMessageByKey ms k = filter (\<lambda>m. msg_key m \<noteq> k) ms"

fun getPreviousUserMessage :: "message list \<Rightarrow> nat \<Rightarrow> message option" where
  "getPreviousUserMessage ms 0 = None"
| "getPreviousUserMessage ms (Suc i) =
     (if msg_from (ms ! i) = User then Some (ms ! i) else getPreviousUserMessage ms i)"

definition edit_message :: "jstr \<Rightarrow> jstr \<Rightarrow> bool \<Rightarrow> jsnum \<Rightarrow> message \<Rightarrow> message" where
  "edit_message k content shouldSubmit now m =
     (if msg_key m = k
      then (updateCurrentVersionContent m content)
        \<lparr>createdAt := (if shouldSubmit then Some now else createdAt m)\<rparr>
      else m)"

text \<open>The edited conversation, and whether it is to be sent.\<close>

definition applyMessageEdit ::
    "message list \<Rightarrow> jstr \<Rightarrow> jstr \<Rightarrow> bool \<Rightarrow> jstr list \<Rightarrow> jsnum \<Rightarrow> (message list \<times> bool) option" where
  "applyMessageEdit ms k content shouldSubmit ids now =
     (case find_index (\<lambda>m. msg_key m = k) ms of
        None \<Rightarrow> None
      | Some i \<Rightarrow>
        (let updated = map (edit_message k content shouldSubmit now) ms in
         if \<not> shouldSubmit \<or> msg_from (updated ! i) \<noteq> User then Some (updated, False)
         else Some (take (i + 1) updated @ [createLoadingAssistantMessage (ids ! 0) (ids ! 1) now], True)))"

definition getEditingMessageContent :: "message list \<Rightarrow> jstr option \<Rightarrow> jstr" where
  "getEditingMessageContent ms editingKey = (case editingKey of
     None \<Rightarrow> []
   | Some k \<Rightarrow>
     (if k = [] then []
      else case find (\<lambda>m. msg_key m = k) ms of Some m \<Rightarrow> getMessageContent m | None \<Rightarrow> []))"

record render_view =
  alwaysShowActions :: bool
  renderContent :: jstr
  isEditing :: bool

definition getChatMessageRenderState :: "message list \<Rightarrow> message \<Rightarrow> nat \<Rightarrow> jstr option \<Rightarrow> render_view" where
  "getChatMessageRenderState ms m i editingKey =
     \<lparr>alwaysShowActions = (i + 1 = length ms \<and> msg_from m = Assistant), renderContent = getMessageContent m,
      isEditing = (editingKey = Some (msg_key m))\<rparr>"

section \<open>Think tags separate exactly\<close>

lemma think_no_border: "hd think_open \<notin> set (tl think_open)" "hd think_close \<notin> set (tl think_close)"
    "think_open \<noteq> []" "think_close \<noteq> []"
  by (simp_all add: think_open_def think_close_def js_def)

text \<open>A tag that does not occur in a text is found right after it.\<close>

lemma index_of_after:
  assumes "\<not> js_includes x p" and "hd p \<notin> set (tl p)" and "p \<noteq> []"
  shows "index_of p (x @ p @ y) = Some (length x)"
proof (rule index_of_append)
  fix u v assume x: "x = u @ v" and "v \<noteq> []"
  show "\<not> starts_with p (v @ p @ y)"
  proof
    assume sw: "starts_with p (v @ p @ y)"
    show False
    proof (cases "length p \<le> length v")
      case True
      then have "take (length p) v = p" using sw by (simp add: starts_with_def)
      then have "x = u @ p @ drop (length p) v" using x by (metis append_take_drop_id)
      then show False using assms(1) by (auto simp: js_includes_iff)
    next
      case False
      then have "p ! length v = (v @ p @ y) ! length v"
        using sw unfolding starts_with_def by (metis nth_take not_le)
      then have "p ! length v = hd p" using assms(3) by (simp add: nth_append hd_conv_nth)
      moreover obtain k where k: "length v = Suc k" using \<open>v \<noteq> []\<close> by (cases v) auto
      then have "tl p ! k \<in> set (tl p)" using False by (intro nth_mem) simp
      then have "p ! length v \<in> set (tl p)" using k False by (simp add: nth_tl)
      ultimately show False using assms(2) by simp
    qed
  qed
qed

lemmas open_after = index_of_after [OF _ think_no_border(1,3)]
lemmas close_after = index_of_after [OF _ think_no_border(2,4)]

definition nonempty :: "jstr \<Rightarrow> jstr list" where
  "nonempty v = (if v = [] then [] else [v])"

lemma concat_nonempty [simp]: "concat (nonempty v) = v"
  by (simp add: nonempty_def)

lemma think_loop_plain: "\<not> js_includes v think_open \<Longrightarrow> think_loop v = (nonempty v, [], False)"
  by (simp add: think_loop.simps [of v] js_includes_def nonempty_def)

lemma think_loop_open:
  assumes "\<not> js_includes v think_open" and "\<not> js_includes r think_close"
  shows "think_loop (v @ think_open @ r) = (nonempty v, [r], True)"
  using open_after [OF assms(1), of r] assms(2)
  by (simp add: think_loop.simps [of "v @ think_open @ r"] js_includes_def nonempty_def think_lengths)

lemma think_loop_pair:
  assumes "\<not> js_includes v think_open" and "\<not> js_includes r think_close"
  shows "think_loop (v @ think_open @ r @ think_close @ s) =
    (nonempty v @ fst (think_loop s), r # fst (snd (think_loop s)), snd (snd (think_loop s)))"
  using open_after [OF assms(1), of "r @ think_close @ s"] close_after [OF assms(2), of s]
  by (simp add: think_loop.simps [of "v @ think_open @ r @ think_close @ s"] nonempty_def think_lengths
      split: prod.split)

text \<open>
  A model's answer: visible text and complete thoughts in turn, then either visible text or a thought
  that is not closed yet.
\<close>

datatype ending = Visible jstr | Unclosed jstr jstr

fun render_pairs :: "(jstr \<times> jstr) list \<Rightarrow> jstr" where
  "render_pairs [] = []"
| "render_pairs ((v, r) # ps) = v @ think_open @ r @ think_close @ render_pairs ps"

fun render_ending :: "ending \<Rightarrow> jstr" where
  "render_ending (Visible v) = v"
| "render_ending (Unclosed v r) = v @ think_open @ r"

fun ending_visible :: "ending \<Rightarrow> jstr" where
  "ending_visible (Visible v) = v"
| "ending_visible (Unclosed v r) = v"

fun ending_thoughts :: "ending \<Rightarrow> jstr list" where
  "ending_thoughts (Visible v) = []"
| "ending_thoughts (Unclosed v r) = [r]"

fun tag_free :: "ending \<Rightarrow> bool" where
  "tag_free (Visible v) = (\<not> js_includes v think_open)"
| "tag_free (Unclosed v r) = (\<not> js_includes v think_open \<and> \<not> js_includes r think_close)"

definition pair_free :: "jstr \<times> jstr \<Rightarrow> bool" where
  "pair_free p \<longleftrightarrow> \<not> js_includes (fst p) think_open \<and> \<not> js_includes (snd p) think_close"

lemma think_loop_render:
  assumes "list_all pair_free ps" and "tag_free e"
  shows "concat (fst (think_loop (render_pairs ps @ render_ending e))) = concat (map fst ps) @ ending_visible e"
    and "snd (think_loop (render_pairs ps @ render_ending e)) =
      (map snd ps @ ending_thoughts e, case e of Visible _ \<Rightarrow> False | Unclosed _ _ \<Rightarrow> True)"
  using assms(1)
proof (induction ps)
  case Nil
  { case 1 then show ?case using assms(2) by (cases e) (simp_all add: think_loop_plain think_loop_open) }
  { case 2 then show ?case using assms(2) by (cases e) (simp_all add: think_loop_plain think_loop_open) }
next
  case (Cons p ps)
  obtain v r where p: "p = (v, r)" by (cases p)
  { case 1 then show ?case using Cons.IH(1) by (simp add: p pair_free_def think_loop_pair) }
  { case 2 then show ?case using Cons.IH(2) by (simp add: p pair_free_def think_loop_pair) }
qed

lemma js_includesI: "js_includes (u @ p @ v) p"
  by (auto simp: js_includes_iff)

lemma includes_render:
  "ps \<noteq> [] \<or> (\<exists>v r. e = Unclosed v r) \<Longrightarrow> js_includes (render_pairs ps @ render_ending e) think_open"
  using js_includesI [of "fst (hd ps)" think_open
      "snd (hd ps) @ think_close @ render_pairs (tl ps) @ render_ending e"] js_includesI
  by (cases ps) auto

lemma parseThinkTags_render:
  assumes "list_all pair_free ps" and "tag_free e" and "ps \<noteq> [] \<or> (\<exists>v r. e = Unclosed v r)"
  shows "parseThinkTags (render_pairs ps @ render_ending e) =
    \<lparr>visibleContent = js_trim (concat (map fst ps) @ ending_visible e),
     think_reasoning = js_trim (join [10, 10] (map snd ps @ ending_thoughts e)),
     hasUnclosedTag = (case e of Visible _ \<Rightarrow> False | Unclosed _ _ \<Rightarrow> True)\<rparr>"
  using think_loop_render [OF assms(1,2)] includes_render [OF assms(3)]
  by (cases "think_loop (render_pairs ps @ render_ending e)") (simp add: parseThinkTags_def)

text \<open>
  C30: an answer made of visible pieces and complete thoughts, with a last thought possibly still
  open, is taken apart into exactly these: the visible content is the visible pieces in order, the
  reasoning the thoughts separated by blank lines, and an open tag is reported iff the last thought is
  open.  Texts may contain angle brackets and partial tags.
\<close>

theorem parseThinkTags_separates:
  assumes "list_all pair_free ps" and "tag_free e" and "ps \<noteq> [] \<or> (\<exists>v r. e = Unclosed v r)"
  shows "parseThinkTags (render_pairs ps @ render_ending e) =
    \<lparr>visibleContent = js_trim (concat (map fst ps) @ ending_visible e),
     think_reasoning = js_trim (join [10, 10] (map snd ps @ ending_thoughts e)),
     hasUnclosedTag = (case e of Visible _ \<Rightarrow> False | Unclosed _ _ \<Rightarrow> True)\<rparr>"
  using assms by (rule parseThinkTags_render)

theorem parseThinkTags_separates_witness:
  "visibleContent (parseThinkTags (render_pairs [(js ''a<thi'', js ''plan'')] @ render_ending (Visible (js '' b'')))) =
   js ''a<thi b''"
proof -
  have free: "list_all pair_free [(js ''a<thi'', js ''plan'')]" "tag_free (Visible (js '' b''))" by code_simp+
  have "visibleContent (parseThinkTags (render_pairs [(js ''a<thi'', js ''plan'')] @ render_ending (Visible (js '' b''))))
      = js_trim (js ''a<thi'' @ js '' b'')"
    using parseThinkTags_separates [OF free] by simp
  also have "\<dots> = js ''a<thi b''" by code_simp
  finally show ?thesis .
qed

lemma think_nonempty_take:
  "index_of think_open s = Some i \<Longrightarrow> nonempty (take i s) = (if i > 0 then [take i s] else [])"
  using index_of_Some_le [of think_open s i] by (auto simp: nonempty_def think_lengths)

lemma think_loop_cases:
  "index_of think_open s = None \<Longrightarrow> think_loop s = (nonempty s, [], False)"
  "index_of think_open s = Some i \<Longrightarrow> index_of think_close (drop (i + 7) s) = None \<Longrightarrow>
     think_loop s = (nonempty (take i s), [drop (i + 7) s], True)"
  "index_of think_open s = Some i \<Longrightarrow> index_of think_close (drop (i + 7) s) = Some j \<Longrightarrow>
     think_loop (drop (j + 8) (drop (i + 7) s)) = (vs, rs, u) \<Longrightarrow>
     think_loop s = (nonempty (take i s) @ vs, take j (drop (i + 7) s) # rs, u)"
  by (subst think_loop.simps, simp add: nonempty_def)
    (subst think_loop.simps [of s], simp add: think_nonempty_take)+

text \<open>What a cut text consists of: visible text, thoughts and tags.\<close>

fun cut_size :: "jstr list \<times> jstr list \<times> bool \<Rightarrow> nat" where
  "cut_size (vs, rs, u) = length (concat vs) + length (concat rs) +
     15 * (length rs - (if u then 1 else 0)) + (if u then 7 else 0)"

lemma cut_size_Cons:
  "cut_size (vs, rs, u) = n \<Longrightarrow> u \<longrightarrow> rs \<noteq> [] \<Longrightarrow> length x = i \<Longrightarrow> length y = j \<Longrightarrow>
   cut_size (nonempty x @ vs, y # rs, u) = i + j + 15 + n"
  by (cases u; cases rs) auto

lemma think_loop_size:
  "(snd (snd (think_loop s)) \<longrightarrow> fst (snd (think_loop s)) \<noteq> []) \<and> cut_size (think_loop s) = length s"
proof (induction "length s" arbitrary: s rule: less_induct)
  case less
  show ?case
  proof (cases "index_of think_open s")
    case None
    then show ?thesis by (simp add: think_loop_cases)
  next
    case (Some i)
    let ?rest = "drop (i + 7) s"
    have i: "i + 7 \<le> length s" using index_of_Some_le [OF Some] by (simp add: think_lengths)
    show ?thesis
    proof (cases "index_of think_close ?rest")
      case None
      then show ?thesis using Some i by (simp add: think_loop_cases)
    next
      case j: (Some j)
      have j': "j + 8 \<le> length ?rest" using index_of_Some_le [OF j] by (simp add: think_lengths)
      obtain vs rs u where l: "think_loop (drop (j + 8) ?rest) = (vs, rs, u)"
        by (cases "think_loop (drop (j + 8) ?rest)")
      have "u \<longrightarrow> rs \<noteq> []" "cut_size (vs, rs, u) = length (drop (j + 8) ?rest)"
        using less [of "drop (j + 8) ?rest"] i l by simp_all
      then have "cut_size (think_loop s) = i + j + 15 + length (drop (j + 8) ?rest)"
        unfolding think_loop_cases(3) [OF Some j l] using i j' by (intro cut_size_Cons) simp_all
      then show ?thesis using i j' unfolding think_loop_cases(3) [OF Some j l] by simp
    qed
  qed
qed

text \<open>
  cutting loses nothing: for every text the lengths of the visible pieces, of the thoughts and of
  the tags (fifteen characters for a closed thought, seven for an open one) add up to the length of the
  text.
\<close>

theorem think_loop_lossless:
  "think_loop s = (vs, rs, u) \<Longrightarrow>
   length s = length (concat vs) + length (concat rs) + 15 * (length rs - (if u then 1 else 0)) + (if u then 7 else 0)"
  using think_loop_size [of s] by simp

theorem think_loop_lossless_witness:
  "length (js ''x<think>y</think>z<think>w'') = length (js ''xz'') + length (js ''yw'') + 15 * (2 - 1) + 7"
proof -
  have "think_loop (js ''x<think>y</think>z<think>w'') = ([js ''x'', js ''z''], [js ''y'', js ''w''], True)" by code_simp
  from think_loop_lossless [OF this] show ?thesis by simp
qed

end
