(* ===== verification/Streaming.thy ===== *)
theory Streaming
  imports Messages JsJson
begin

text \<open>
  Streaming a model's answer into a message (\<open>lib/message/message-streaming-utils.ts\<close>,
  \<open>message-update-utils.ts\<close>), the wire format of the stream (\<open>lib/streaming/stream-utils.ts\<close>,
  \<open>request-error-utils.ts\<close>) and the request payload (\<open>payload-builder.ts\<close>), all under
  \<open>src/web/src/features/playground/\<close>.  Fields of server objects that the source declares as strings are
  read as strings; translations (\<open>t\<close>) and the clock are arguments.
\<close>

section \<open>Constants\<close>

definition API_REQUEST_ERROR :: jstr where
  "API_REQUEST_ERROR = js ''Request error occurred''"

definition PARSE_ERROR :: jstr where
  "PARSE_ERROR = js ''Error parsing response data''"

definition STREAM_START_ERROR :: jstr where
  "STREAM_START_ERROR = js ''Error establishing connection''"

definition CONNECTION_CLOSED :: jstr where
  "CONNECTION_CLOSED = js ''Connection closed''"

definition INTERRUPTED :: jstr where
  "INTERRUPTED = js ''Generation was interrupted''"

definition ERROR_MESSAGES :: "jstr list" where
  "ERROR_MESSAGES = [API_REQUEST_ERROR, js ''Network connection failed or server not responding'',
     PARSE_ERROR, STREAM_START_ERROR, CONNECTION_CLOSED, INTERRUPTED]"

section \<open>Applying chunks\<close>

definition processStreamingContent :: "message \<Rightarrow> jstr \<Rightarrow> jsnum \<Rightarrow> message" where
  "processStreamingContent m contentChunk now =
     (let fullContent = getMessageContent m @ contentChunk in
      if reasoning m = None \<and> \<not> js_includes fullContent think_open
      then (updateCurrentVersionContent m fullContent)\<lparr>isReasoningStreaming := Some False\<rparr>
      else let parsed = parseThinkTags fullContent;
               finalReasoning = (if think_reasoning parsed \<noteq> []
                 then Some ((startReasoningTiming m now)\<lparr>r_content := think_reasoning parsed\<rparr>)
                 else reasoning m)
        in (updateCurrentVersionContent m fullContent)
             \<lparr>reasoning := finalReasoning, isReasoningStreaming := Some (hasUnclosedTag parsed)\<rparr>)"

datatype chunk_type = ReasoningChunk | ContentChunk

definition getAppendableChunk :: "jstr \<Rightarrow> jstr \<Rightarrow> jstr" where
  "getAppendableChunk currentContent chunk =
     (if currentContent = [] \<or> \<not> starts_with currentContent chunk then chunk
      else drop (length currentContent) chunk)"

definition applyStreamingChunk :: "message \<Rightarrow> chunk_type \<Rightarrow> jstr \<Rightarrow> jsnum \<Rightarrow> message" where
  "applyStreamingChunk m type chunk now =
     (if msg_status m = Some Errored then m
      else if type = ReasoningChunk then
        (let r = startReasoningTiming m now in
         m\<lparr>reasoning := Some (r\<lparr>r_content := r_content r @ getAppendableChunk (r_content r) chunk\<rparr>),
           isReasoningStreaming := Some True, msg_status := Some Streaming\<rparr>)
      else
        (let cm = processStreamingContent m (getAppendableChunk (getMessageContent m) chunk) now in
         (if isReasoningStreaming cm = Some True then cm else completeReasoningTiming cm now)
           \<lparr>msg_status := Some Streaming\<rparr>))"

section \<open>Finishing a message\<close>

fun first_nonempty :: "jstr list \<Rightarrow> jstr" where
  "first_nonempty [] = []"
| "first_nonempty (x # xs) = (if x \<noteq> [] then x else first_nonempty xs)"

definition finalizeMessage :: "message \<Rightarrow> jstr option \<Rightarrow> jsnum \<Rightarrow> message" where
  "finalizeMessage m apiReasoningContent now =
     (let content = getMessageContent m;
          parsed = (if js_includes content think_open then Some (parseThinkTags content) else None);
          visible = (case parsed of Some p \<Rightarrow> visibleContent p | None \<Rightarrow> content);
          finalReasoning = first_nonempty
            [case apiReasoningContent of Some s \<Rightarrow> s | None \<Rightarrow> [],
             case reasoning m of Some r \<Rightarrow> r_content r | None \<Rightarrow> [],
             case parsed of Some p \<Rightarrow> think_reasoning p | None \<Rightarrow> []];
          finalized = (updateCurrentVersionContent m visible)
            \<lparr>reasoning := (if finalReasoning \<noteq> []
                           then Some ((startReasoningTiming m now)\<lparr>r_content := finalReasoning\<rparr>) else None),
             isReasoningStreaming := Some False\<rparr>
      in completeReasoningTiming finalized now)"

definition completeAssistantMessage :: "message \<Rightarrow> jsnum \<Rightarrow> message" where
  "completeAssistantMessage m now =
     completeAssistantTiming ((finalizeMessage m None now)\<lparr>msg_status := Some Completed\<rparr>) now"

definition isAssistantMessageFinal :: "message \<Rightarrow> bool" where
  "isAssistantMessageFinal m \<longleftrightarrow> msg_status m = Some Completed \<or> msg_status m = Some Errored"

definition isAssistantMessagePending :: "message \<Rightarrow> bool" where
  "isAssistantMessagePending m \<longleftrightarrow> msg_status m = Some Loading \<or> msg_status m = Some Streaming"

definition isPendingAssistantMessage :: "message \<Rightarrow> bool" where
  "isPendingAssistantMessage m \<longleftrightarrow> msg_from m = Assistant \<and> isAssistantMessagePending m"

text \<open>A choice of a non-streaming answer: its content and reasoning.\<close>

record chat_choice =
  choice_content :: jstr
  choice_reasoning :: "jstr option"

definition hasChatCompletionChoice :: "chat_choice list \<Rightarrow> bool" where
  "hasChatCompletionChoice choices \<longleftrightarrow> choices \<noteq> []"

definition applyChatCompletionChoice :: "message \<Rightarrow> chat_choice \<Rightarrow> jsnum \<Rightarrow> message" where
  "applyChatCompletionChoice m c now =
     completeAssistantTiming
       ((finalizeMessage (updateCurrentVersionContent m (choice_content c)) (choice_reasoning c) now)
          \<lparr>msg_status := Some Completed\<rparr>) now"

definition applyChatCompletionResponse :: "message \<Rightarrow> chat_choice list \<Rightarrow> jsnum \<Rightarrow> message option" where
  "applyChatCompletionResponse m choices now = (case choices of
     [] \<Rightarrow> None
   | c # _ \<Rightarrow> Some (applyChatCompletionChoice m c now))"

text \<open>The last index whose message is a pending assistant message.\<close>

fun last_pending :: "message list \<Rightarrow> nat \<Rightarrow> nat option" where
  "last_pending ms 0 = None"
| "last_pending ms (Suc i) = (if isPendingAssistantMessage (ms ! i) then Some i else last_pending ms i)"

definition sanitize_message :: "(jstr \<Rightarrow> jstr) \<Rightarrow> message \<Rightarrow> jsnum \<Rightarrow> message" where
  "sanitize_message t m now =
     (let finalized = finalizeMessage m None now;
          hasReasoning = (case reasoning finalized of Some r \<Rightarrow> js_trim (r_content r) \<noteq> [] | None \<Rightarrow> False)
      in if hasMessageContent finalized \<or> hasReasoning
         then completeAssistantTiming
           (finalized\<lparr>msg_status := Some Completed, isReasoningStreaming := Some False\<rparr>) now
         else completeAssistantTiming
           ((updateCurrentVersionContent finalized (t API_REQUEST_ERROR @ js '': '' @ t INTERRUPTED))
              \<lparr>msg_status := Some Errored, isReasoningStreaming := Some False\<rparr>) now)"

definition sanitizeMessagesOnLoad :: "(jstr \<Rightarrow> jstr) \<Rightarrow> message list \<Rightarrow> jsnum \<Rightarrow> message list" where
  "sanitizeMessagesOnLoad t ms now = (case last_pending ms (length ms) of
     None \<Rightarrow> ms
   | Some i \<Rightarrow> ms[i := sanitize_message t (ms ! i) now])"

section \<open>Updating the conversation\<close>

definition updateLastAssistantMessage :: "message list \<Rightarrow> (message \<Rightarrow> message) \<Rightarrow> message list" where
  "updateLastAssistantMessage ms updater =
     (if ms = [] then ms
      else if msg_from (last ms) \<noteq> Assistant then ms
      else butlast ms @ [updater (last ms)])"

definition updateAssistantMessageWithError ::
    "message list \<Rightarrow> jstr \<Rightarrow> jstr option \<Rightarrow> jstr \<Rightarrow> jsnum \<Rightarrow> message list" where
  "updateAssistantMessageWithError ms errorMessage code title now =
     updateLastAssistantMessage ms (\<lambda>m.
       completeAssistantTiming
         ((updateCurrentVersionContent m (title @ js '': '' @ errorMessage))
            \<lparr>msg_status := Some Errored, isReasoningStreaming := Some False,
             errorCode := Some (case code of Some c \<Rightarrow> (if c \<noteq> [] then Some c else None) | None \<Rightarrow> None)\<rparr>) now)"

section \<open>The wire\<close>

definition str_field :: "jsval \<Rightarrow> jstr \<Rightarrow> jstr option" where
  "str_field v k = (case js_get v k of JStr s \<Rightarrow> (if s \<noteq> [] then Some s else None) | _ \<Rightarrow> None)"

text \<open>The error code, if any, and the error message.\<close>

definition parseStreamErrorDetails :: "jstr option \<Rightarrow> jstr option \<times> jstr" where
  "parseStreamErrorDetails data = (case data of
     None \<Rightarrow> (None, API_REQUEST_ERROR)
   | Some d \<Rightarrow>
     (if d = [] then (None, API_REQUEST_ERROR)
      else case json_parse d of
          None \<Rightarrow> (None, d)
        | Some v \<Rightarrow>
          (if \<not> js_truthy (js_get v (js ''error'')) then (None, d)
           else let e = js_get v (js ''error'') in
             (str_field e (js ''code''), case str_field e (js ''message'') of Some s \<Rightarrow> s | None \<Rightarrow> d))))"

fun js_first :: "jsval \<Rightarrow> jsval" where
  "js_first (JArr (x # _)) = x"
| "js_first (JObj ps) = obj_get ps (js ''0'')"
| "js_first (JStr (c # _)) = JStr [c]"
| "js_first _ = JUndef"

text \<open>
  The updates of a message, \<open>None\<close> when the code throws: on malformed JSON, and on the text \<open>null\<close>, whose
  property is read.
\<close>

definition parseStreamMessageUpdates :: "jstr \<Rightarrow> (chunk_type \<times> jstr) list option" where
  "parseStreamMessageUpdates data = (case json_parse data of
     None \<Rightarrow> None
   | Some chunk \<Rightarrow>
     (if nullish chunk then None
      else let delta = js_get (js_first (js_get chunk (js ''choices''))) (js ''delta'') in
        if \<not> js_truthy delta then Some []
        else Some (
          (case str_field delta (js ''reasoning_content'') of Some s \<Rightarrow> [(ReasoningChunk, s)] | None \<Rightarrow> []) @
          (case str_field delta (js ''content'') of Some s \<Rightarrow> [(ContentChunk, s)] | None \<Rightarrow> []))))"

definition isStreamDoneMessage :: "jstr \<Rightarrow> bool" where
  "isStreamDoneMessage data \<longleftrightarrow> data = js ''[DONE]''"

definition isStreamClosedReadyState :: "nat option \<Rightarrow> bool" where
  "isStreamClosedReadyState readyState \<longleftrightarrow> readyState = Some 2"

definition getStreamReadyStateError :: "nat option \<Rightarrow> nat option \<Rightarrow> jstr option" where
  "getStreamReadyStateError eventReadyState status = (case (eventReadyState, status) of
     (Some r, Some s) \<Rightarrow>
       (if r \<ge> 2 \<and> s \<noteq> 200 then Some (js ''HTTP '' @ show_nat s @ js '': '' @ CONNECTION_CLOSED) else None)
   | _ \<Rightarrow> None)"

definition parseRequestErrorDetails :: "jsval \<Rightarrow> jstr option \<times> jstr" where
  "parseRequestErrorDetails err =
     (let body = js_get (js_get err (js ''response'')) (js ''data'') in
      (str_field (js_get body (js ''error'')) (js ''code''),
       case str_field body (js ''message'') of
         Some s \<Rightarrow> s
       | None \<Rightarrow> (case str_field err (js ''message'') of Some s \<Rightarrow> s | None \<Rightarrow> API_REQUEST_ERROR)))"

section \<open>The request\<close>

record playground_config =
  cfg_model :: jstr
  cfg_group :: jstr
  temperature :: jsnum
  top_p :: jsnum
  max_tokens :: jsnum
  frequency_penalty :: jsnum
  presence_penalty :: jsnum
  seed :: "jsnum option"
  cfg_stream :: bool

record parameter_enabled =
  en_temperature :: bool
  en_top_p :: bool
  en_max_tokens :: bool
  en_frequency_penalty :: bool
  en_presence_penalty :: bool
  en_seed :: bool

record chat_request =
  rq_model :: jstr
  rq_group :: jstr
  rq_messages :: "api_message list"
  rq_stream :: bool
  rq_params :: "(jstr \<times> jsnum) list"

definition buildChatCompletionPayload ::
    "message list \<Rightarrow> playground_config \<Rightarrow> parameter_enabled \<Rightarrow> chat_request" where
  "buildChatCompletionPayload ms config enabled =
     \<lparr>rq_model = cfg_model config, rq_group = cfg_group config,
      rq_messages = map formatMessageForAPI (filter isValidMessage ms),
      rq_stream = cfg_stream config,
      rq_params =
        (if en_temperature enabled then [(js ''temperature'', temperature config)] else []) @
        (if en_top_p enabled then [(js ''top_p'', top_p config)] else []) @
        (if en_max_tokens enabled then [(js ''max_tokens'', max_tokens config)] else []) @
        (if en_frequency_penalty enabled then [(js ''frequency_penalty'', frequency_penalty config)] else []) @
        (if en_presence_penalty enabled then [(js ''presence_penalty'', presence_penalty config)] else []) @
        (case seed config of Some s \<Rightarrow> (if en_seed enabled then [(js ''seed'', s)] else []) | None \<Rightarrow> [])\<rparr>"

section \<open>Content of a message\<close>

lemma content_update [simp]: "getMessageContent (updateCurrentVersionContent m c) = c"
  by (simp add: getMessageContent_def getCurrentVersion_def updateCurrentVersionContent_def)

lemma content_versions: "versions m' = versions m \<Longrightarrow> getMessageContent m' = getMessageContent m"
  by (simp add: getMessageContent_def getCurrentVersion_def)

lemma completeReasoningTiming_simps [simp]:
  "versions (completeReasoningTiming m now) = versions m"
  "msg_status (completeReasoningTiming m now) = msg_status m"
  "msg_from (completeReasoningTiming m now) = msg_from m"
  "msg_key (completeReasoningTiming m now) = msg_key m"
  "isReasoningStreaming (completeReasoningTiming m now) = isReasoningStreaming m"
  by (simp_all add: completeReasoningTiming_def Let_def split: option.splits)

lemma completeAssistantTiming_simps [simp]:
  "versions (completeAssistantTiming m now) = versions m"
  "msg_status (completeAssistantTiming m now) = msg_status m"
  "msg_from (completeAssistantTiming m now) = msg_from m"
  "msg_key (completeAssistantTiming m now) = msg_key m"
  "reasoning (completeAssistantTiming m now) = reasoning m"
  "isReasoningStreaming (completeAssistantTiming m now) = isReasoningStreaming m"
  by (simp_all add: completeAssistantTiming_def Let_def)

lemma update_simps [simp]:
  "msg_status (updateCurrentVersionContent m c) = msg_status m"
  "msg_from (updateCurrentVersionContent m c) = msg_from m"
  "msg_key (updateCurrentVersionContent m c) = msg_key m"
  by (simp_all add: updateCurrentVersionContent_def)

lemma process_content: "getMessageContent (processStreamingContent m c now) = getMessageContent m @ c"
  by (simp add: processStreamingContent_def Let_def)
    (auto simp: getMessageContent_def getCurrentVersion_def updateCurrentVersionContent_def)

lemma process_simps [simp]:
  "msg_from (processStreamingContent m c now) = msg_from m"
  by (simp add: processStreamingContent_def Let_def)

lemma apply_content:
  "msg_status m \<noteq> Some Errored \<Longrightarrow>
   getMessageContent (applyStreamingChunk m ContentChunk c now) =
     getMessageContent m @ getAppendableChunk (getMessageContent m) c"
  using process_content [of m "getAppendableChunk (getMessageContent m) c" now]
  by (auto simp: applyStreamingChunk_def Let_def getMessageContent_def getCurrentVersion_def)

lemma apply_reasoning:
  "getMessageContent (applyStreamingChunk m ReasoningChunk c now) = getMessageContent m"
  by (auto simp: applyStreamingChunk_def Let_def intro: content_versions)

lemma apply_status:
  "msg_status m \<noteq> Some Errored \<Longrightarrow> msg_status (applyStreamingChunk m ty c now) = Some Streaming"
  by (simp add: applyStreamingChunk_def Let_def)

lemma apply_from [simp]: "msg_from (applyStreamingChunk m ty c now) = msg_from m"
  by (simp add: applyStreamingChunk_def Let_def)

lemma finalize_simps [simp]:
  "msg_from (finalizeMessage m r now) = msg_from m" "msg_key (finalizeMessage m r now) = msg_key m"
  "isReasoningStreaming (finalizeMessage m r now) = Some False"
  by (simp_all add: finalizeMessage_def Let_def)

lemma finalize_content:
  "getMessageContent (finalizeMessage m r now) =
     (if js_includes (getMessageContent m) think_open then visibleContent (parseThinkTags (getMessageContent m))
      else getMessageContent m)"
proof -
  have "getMessageContent (completeReasoningTiming v now) = getMessageContent v" for v
    by (rule content_versions) simp
  then show ?thesis
    by (simp add: finalizeMessage_def Let_def)
      (auto simp: getMessageContent_def getCurrentVersion_def updateCurrentVersionContent_def)
qed

section \<open>Chunks add up\<close>

text \<open>
  No run of chunks starts with the text of the run right before it.  Such chunks are taken for a
  repetition of what is already there.
\<close>

definition no_replay :: "jstr list \<Rightarrow> bool" where
  "no_replay cs \<longleftrightarrow>
     (\<forall>pre a b post. cs = pre @ a @ b @ post \<longrightarrow> concat a \<noteq> [] \<longrightarrow> b \<noteq> [] \<longrightarrow>
        \<not> starts_with (concat a) (concat b))"

lemma no_replayD: "no_replay (pre @ a @ b @ post) \<Longrightarrow> b \<noteq> [] \<Longrightarrow> concat a = [] \<or> \<not> starts_with (concat a) (concat b)"
  unfolding no_replay_def by blast

lemma no_replay_prefix: "no_replay (xs @ ys) \<Longrightarrow> no_replay xs"
  unfolding no_replay_def by (metis append_assoc)

lemma getAppendable_plain: "\<not> starts_with cur c \<or> cur = [] \<Longrightarrow> getAppendableChunk cur c = c"
  by (auto simp: getAppendableChunk_def)

text \<open>The chunks of both kinds, applied one by one.\<close>

definition apply_chunks :: "message \<Rightarrow> (chunk_type \<times> jstr) list \<Rightarrow> jsnum \<Rightarrow> message" where
  "apply_chunks m us now = foldl (\<lambda>m (ty, c). applyStreamingChunk m ty c now) m us"

definition content_chunks :: "(chunk_type \<times> jstr) list \<Rightarrow> jstr list" where
  "content_chunks us = map snd (filter (\<lambda>u. fst u = ContentChunk) us)"

lemma apply_chunks_content:
  assumes "msg_status m \<noteq> Some Errored" and "getMessageContent m = []" and "no_replay (content_chunks us)"
  shows "getMessageContent (apply_chunks m us now) = concat (content_chunks us) \<and>
    msg_status (apply_chunks m us now) \<noteq> Some Errored \<and> msg_from (apply_chunks m us now) = msg_from m"
  using assms(3)
proof (induction us rule: rev_induct)
  case Nil
  then show ?case using assms(1,2) by (simp add: apply_chunks_def content_chunks_def)
next
  case (snoc u us)
  let ?m = "apply_chunks m us now"
  have pre: "no_replay (content_chunks us)"
    using snoc.prems no_replay_prefix [of "content_chunks us"] by (simp add: content_chunks_def split: if_splits)
  note ih = snoc.IH [OF pre]
  obtain ty c where u: "u = (ty, c)" by (cases u)
  have step: "apply_chunks m (us @ [u]) now = applyStreamingChunk ?m ty c now"
    by (simp add: apply_chunks_def u)
  have u': "content_chunks (us @ [u]) = content_chunks us @ (if ty = ContentChunk then [c] else [])"
    by (simp add: content_chunks_def u)
  show ?case
  proof (cases ty)
    case ReasoningChunk
    then show ?thesis using ih by (simp add: step u' apply_reasoning apply_status)
  next
    case ContentChunk
    then have "\<not> starts_with (concat (content_chunks us)) c \<or> concat (content_chunks us) = []"
      using snoc.prems no_replayD [of "[]" "content_chunks us" "[c]" "[]"] by (auto simp: u')
    then show ?thesis using ih ContentChunk
      by (simp add: step u' apply_content apply_status getAppendable_plain)
  qed
qed

text \<open>
  the chunks of a stream add up.  Starting from an empty answer, after any mix of reasoning and
  content chunks in which no chunk starts with the whole text received before it, the raw content is
  the content chunks in order, and completing the message leaves exactly the visible part of it and a
  final status.
\<close>

theorem streamed_content_complete:
  assumes "msg_status m \<noteq> Some Errored" and "getMessageContent m = []" and "no_replay (content_chunks us)"
  shows "getMessageContent (apply_chunks m us now) = concat (content_chunks us) \<and>
    getMessageContent (completeAssistantMessage (apply_chunks m us now) later) =
      (if js_includes (concat (content_chunks us)) think_open
       then visibleContent (parseThinkTags (concat (content_chunks us))) else concat (content_chunks us)) \<and>
    isAssistantMessageFinal (completeAssistantMessage (apply_chunks m us now) later)"
proof -
  have "getMessageContent (completeAssistantMessage v later) = getMessageContent (finalizeMessage v None later)" for v
    by (rule content_versions) (simp add: completeAssistantMessage_def)
  then show ?thesis using apply_chunks_content [OF assms, of now]
    by (simp add: finalize_content isAssistantMessageFinal_def completeAssistantMessage_def)
qed

text \<open>Chunks that begin with different characters never repeat each other.\<close>

lemma no_replay_distinct_heads:
  assumes "[] \<notin> set cs" and "distinct (map hd cs)"
  shows "no_replay cs"
  unfolding no_replay_def
proof (intro allI impI notI)
  fix pre a b post assume cs: "cs = pre @ a @ b @ post" and a: "concat a \<noteq> []" and b: "b \<noteq> []"
    and sw: "starts_with (concat a) (concat b)"
  obtain x xs where ax: "a = x # xs" using a by (cases a) auto
  obtain y ys where bs: "b = y # ys" using b by (cases b) auto
  have "x \<noteq> []" "y \<noteq> []" "hd x \<noteq> hd y" using assms cs ax bs by auto
  then have "hd (concat a) \<noteq> hd (concat b)" using ax bs by simp
  moreover have "hd (concat b) = hd (concat a)" using sw a unfolding starts_with_iff by (metis hd_append2)
  ultimately show False by simp
qed

theorem streamed_content_complete_witness:
  "getMessageContent (apply_chunks (createLoadingAssistantMessage (js ''k'') (js ''v'') (of_i 1))
     [(ReasoningChunk, js ''hm''), (ContentChunk, js ''Hel''), (ContentChunk, js ''lo'')] (of_i 2)) = js ''Hello''"
proof -
  have "no_replay [js ''Hel'', js ''lo'']" by (rule no_replay_distinct_heads) (simp_all add: js_def)
  then have "no_replay (content_chunks [(ReasoningChunk, js ''hm''), (ContentChunk, js ''Hel''), (ContentChunk, js ''lo'')])"
    by (simp add: content_chunks_def)
  from streamed_content_complete [OF _ _ this, of "createLoadingAssistantMessage (js ''k'') (js ''v'') (of_i 1)"]
  show ?thesis
    by (simp add: createLoadingAssistantMessage_def getMessageContent_def getCurrentVersion_def createMessageVersion_def
        content_chunks_def js_def)
qed

text \<open>
  C37: a chunk that repeats the answer so far is dropped: when the content received is \<open>x\<close> and the next
  chunk starts with \<open>x\<close>, the common part is not appended, although the stream carries increments.
\<close>

theorem repeated_chunk_dropped:
  assumes "msg_status m \<noteq> Some Errored" and "getMessageContent m = x" and "x \<noteq> []"
  shows "getMessageContent (applyStreamingChunk m ContentChunk (x @ y) now) = x @ y"
  using assms by (simp add: apply_content getAppendableChunk_def)

theorem repeated_chunk_dropped_witness:
  "getMessageContent (apply_chunks (createLoadingAssistantMessage (js ''k'') (js ''v'') (of_i 1))
     [(ContentChunk, js ''ha''), (ContentChunk, js ''ha'')] (of_i 2)) = js ''ha''"
proof -
  let ?m = "applyStreamingChunk (createLoadingAssistantMessage (js ''k'') (js ''v'') (of_i 1)) ContentChunk (js ''ha'') (of_i 2)"
  have "getMessageContent ?m = js ''ha''" "msg_status ?m \<noteq> Some Errored" "js ''ha'' \<noteq> []" by code_simp+
  from repeated_chunk_dropped [OF this(2,1,3), of "[]" "of_i 2"] show ?thesis
    by (simp add: apply_chunks_def)
qed

end
