(* ===== verification/StreamController.thy ===== *)
theory StreamController
  imports Streaming
begin

text \<open>
  The stream request controller of the playground
  (\<open>src/web/src/features/playground/hooks/use-stream-request.ts\<close>): at most one event source is
  active, a newer request or a stop supersedes what came before, and each request reports its end at
  most once.  A request is identified by its generation, which also names its event source; \<open>tag\<close> is
  what the caller passed along with its callbacks.  Each operation returns the callbacks it makes.
\<close>

section \<open>State\<close>

record source_state =
  src_tag :: nat
  src_completed :: bool
  src_closed :: bool

record controller =
  source :: "nat option"
  generation :: nat
  streaming :: bool
  waiting :: "(nat \<times> nat) list"
  event_sources :: "(nat \<times> source_state) list"

datatype callback = OnUpdate chunk_type jstr | OnComplete | OnError jstr "jstr option"

type_synonym reports = "(nat \<times> nat \<times> callback) list"

definition initial_controller :: controller where
  "initial_controller = \<lparr>source = None, generation = 0, streaming = False, waiting = [], event_sources = []\<rparr>"

section \<open>Operations\<close>

definition upd_source :: "nat \<Rightarrow> (source_state \<Rightarrow> source_state) \<Rightarrow> controller \<Rightarrow> controller" where
  "upd_source i f c = c\<lparr>event_sources := map (\<lambda>(j, s). (j, if j = i then f s else s)) (event_sources c)\<rparr>"

definition close_source :: "nat option \<Rightarrow> controller \<Rightarrow> controller" where
  "close_source target c = (case target of
     None \<Rightarrow> c
   | Some i \<Rightarrow> upd_source i (\<lambda>s. s\<lparr>src_closed := True\<rparr>) c)"

definition closeActiveSource :: "nat \<Rightarrow> controller \<Rightarrow> controller" where
  "closeActiveSource i c =
     (let c' = close_source (Some i) c in
      if source c' = Some i then c'\<lparr>source := None, streaming := False\<rparr> else c')"

definition send_request :: "nat \<Rightarrow> controller \<Rightarrow> controller" where
  "send_request tag c =
     (let g = generation c + 1 in
      (close_source (source c) c)\<lparr>generation := g, source := None, streaming := False,
         waiting := waiting c @ [(g, tag)]\<rparr>)"

definition isCurrent :: "nat \<Rightarrow> controller \<Rightarrow> bool" where
  "isCurrent i c \<longleftrightarrow> generation c = i \<and> source c = Some i"

text \<open>The source accepts events: it is current and its request has not ended.\<close>

definition live :: "nat \<Rightarrow> controller \<Rightarrow> source_state option" where
  "live i c = (case map_of (event_sources c) i of
     Some s \<Rightarrow> (if isCurrent i c \<and> \<not> src_completed s then Some s else None)
   | None \<Rightarrow> None)"

definition end_request :: "nat \<Rightarrow> controller \<Rightarrow> controller" where
  "end_request i c = closeActiveSource i (upd_source i (\<lambda>s. s\<lparr>src_completed := True\<rparr>) c)"

definition handleError :: "nat \<Rightarrow> jstr \<Rightarrow> jstr option \<Rightarrow> controller \<Rightarrow> reports \<times> controller" where
  "handleError i errorMessage code c = (case live i c of
     None \<Rightarrow> ([], c)
   | Some s \<Rightarrow> ([(i, src_tag s, OnError errorMessage code)], end_request i c))"

text \<open>The headers of request \<open>g\<close> are there; \<open>starts\<close> says whether \<open>stream()\<close> returns normally.\<close>

definition headers_ready :: "nat \<Rightarrow> bool \<Rightarrow> controller \<Rightarrow> reports \<times> controller" where
  "headers_ready g starts c = (case map_of (waiting c) g of
     None \<Rightarrow> ([], c)
   | Some tag \<Rightarrow>
     (let c' = c\<lparr>waiting := AList.delete g (waiting c)\<rparr> in
      if generation c' \<noteq> g then ([], c')
      else let c'' = c'\<lparr>source := Some g, streaming := True,
                 event_sources := (g, \<lparr>src_tag = tag, src_completed = False, src_closed = False\<rparr>) # event_sources c'\<rparr>
        in if starts then ([], c'') else handleError g STREAM_START_ERROR None c''))"

text \<open>The headers could not be obtained; the message is there when an \<open>Error\<close> was thrown.\<close>

definition headers_failed :: "nat \<Rightarrow> jstr option \<Rightarrow> controller \<Rightarrow> reports \<times> controller" where
  "headers_failed g message c = (case map_of (waiting c) g of
     None \<Rightarrow> ([], c)
   | Some tag \<Rightarrow>
     (let c' = c\<lparr>waiting := AList.delete g (waiting c)\<rparr> in
      if generation c' \<noteq> g then ([], c')
      else ([(g, tag, OnError (case message of Some m \<Rightarrow> m | None \<Rightarrow> STREAM_START_ERROR) None)], c')))"

definition on_message :: "nat \<Rightarrow> jstr option \<Rightarrow> controller \<Rightarrow> reports \<times> controller" where
  "on_message i data c = (case live i c of
     None \<Rightarrow> ([], c)
   | Some s \<Rightarrow>
     (let d = (case data of Some d \<Rightarrow> d | None \<Rightarrow> []) in
      if isStreamDoneMessage d then ([(i, src_tag s, OnComplete)], end_request i c)
      else case parseStreamMessageUpdates d of
          Some updates \<Rightarrow> (map (\<lambda>(ty, chunk). (i, src_tag s, OnUpdate ty chunk)) updates, c)
        | None \<Rightarrow> handleError i PARSE_ERROR None c))"

definition on_error :: "nat \<Rightarrow> nat option \<Rightarrow> jstr option \<Rightarrow> controller \<Rightarrow> reports \<times> controller" where
  "on_error i readyState data c = (case live i c of
     None \<Rightarrow> ([], c)
   | Some s \<Rightarrow>
     (if isStreamClosedReadyState readyState then ([], c)
      else let (code, message) = parseStreamErrorDetails data in handleError i message code c))"

definition on_readystatechange ::
    "nat \<Rightarrow> nat option \<Rightarrow> nat option \<Rightarrow> controller \<Rightarrow> reports \<times> controller" where
  "on_readystatechange i readyState status c = (case live i c of
     None \<Rightarrow> ([], c)
   | Some s \<Rightarrow> (case getStreamReadyStateError readyState status of
       Some message \<Rightarrow> handleError i message None c
     | None \<Rightarrow> ([], c)))"

definition cancel_request :: "bool \<Rightarrow> controller \<Rightarrow> controller" where
  "cancel_request notify c =
     (let c' = (close_source (source c) c)\<lparr>generation := generation c + 1, source := None\<rparr>
      in if notify then c'\<lparr>streaming := False\<rparr> else c')"

section \<open>Histories\<close>

datatype ctl_event =
    Send nat
  | Cancel bool
  | HeadersReady nat bool
  | HeadersFailed nat "jstr option"
  | SseMessage nat "jstr option"
  | SseError nat "nat option" "jstr option"
  | SseReadyState nat "nat option" "nat option"

fun ctl_exec :: "ctl_event \<Rightarrow> controller \<Rightarrow> reports \<times> controller" where
  "ctl_exec (Send tag) c = ([], send_request tag c)"
| "ctl_exec (Cancel notify) c = ([], cancel_request notify c)"
| "ctl_exec (HeadersReady g starts) c = headers_ready g starts c"
| "ctl_exec (HeadersFailed g m) c = headers_failed g m c"
| "ctl_exec (SseMessage i d) c = on_message i d c"
| "ctl_exec (SseError i r d) c = on_error i r d c"
| "ctl_exec (SseReadyState i r st) c = on_readystatechange i r st c"

text \<open>All reports of a history, in order.\<close>

fun ctl_run :: "ctl_event list \<Rightarrow> controller \<Rightarrow> reports \<times> controller" where
  "ctl_run [] c = ([], c)"
| "ctl_run (e # es) c = (let (r, c') = ctl_exec e c; (rs, c'') = ctl_run es c' in (r @ rs, c''))"

lemma ctl_run_snoc:
  "ctl_run (es @ [e]) c = (let (rs, c') = ctl_run es c; (r, c'') = ctl_exec e c' in (rs @ r, c''))"
  by (induction es arbitrary: c) (simp_all add: Let_def split_def)

fun terminal :: "callback \<Rightarrow> bool" where
  "terminal (OnUpdate _ _) = False"
| "terminal _ = True"

section \<open>A request ends once\<close>

text \<open>
  Request \<open>i\<close> is over: it does not wait for headers any more, and its source, if it ever got one, has
  ended.  Only issued requests can be over.
\<close>

definition over :: "nat \<Rightarrow> controller \<Rightarrow> bool" where
  "over i c \<longleftrightarrow> i \<le> generation c \<and> map_of (waiting c) i = None \<and>
     (case map_of (event_sources c) i of Some s \<Rightarrow> src_completed s | None \<Rightarrow> True)"

lemma map_of_map_second:
  "map_of (map (\<lambda>(j, s). (j, if j = i then f s else s)) xs) k =
     map_option (\<lambda>s. if k = i then f s else s) (map_of xs k)"
  by (induction xs) auto

lemma sources_upd: "map_of (event_sources (upd_source i f c)) k = map_option (\<lambda>s. if k = i then f s else s) (map_of (event_sources c) k)"
  by (simp add: upd_source_def map_of_map_second)

lemma upd_source_simps [simp]:
  "generation (upd_source i f c) = generation c" "waiting (upd_source i f c) = waiting c"
  "source (upd_source i f c) = source c" "streaming (upd_source i f c) = streaming c"
  by (simp_all add: upd_source_def)

lemma close_source_simps [simp]:
  "generation (close_source t c) = generation c" "waiting (close_source t c) = waiting c"
  "source (close_source t c) = source c"
  by (simp_all add: close_source_def split: option.splits)

text \<open>Waiting requests and open sources are issued requests, and no request is both.\<close>

definition ctl_ok :: "controller \<Rightarrow> bool" where
  "ctl_ok c \<longleftrightarrow>
     (\<forall>i tag. map_of (waiting c) i = Some tag \<longrightarrow> i \<le> generation c \<and> map_of (event_sources c) i = None) \<and>
     (\<forall>i s. map_of (event_sources c) i = Some s \<longrightarrow> i \<le> generation c)"

text \<open>A step that only closes and completes sources keeps both.\<close>

definition same_requests :: "controller \<Rightarrow> controller \<Rightarrow> bool" where
  "same_requests c c' \<longleftrightarrow> generation c \<le> generation c' \<and> waiting c' = waiting c \<and>
     (\<forall>k. case map_of (event_sources c) k of
        None \<Rightarrow> map_of (event_sources c') k = None
      | Some s \<Rightarrow> (\<exists>s'. map_of (event_sources c') k = Some s' \<and> (src_completed s \<longrightarrow> src_completed s')))"

lemma same_requestsD:
  assumes "same_requests c c'"
  shows "over k c \<Longrightarrow> over k c'" and "ctl_ok c \<Longrightarrow> ctl_ok c'"
proof -
  have gen: "generation c \<le> generation c'" and wt: "waiting c' = waiting c"
    using assms by (simp_all add: same_requests_def)
  have none: "map_of (event_sources c') k = None \<longleftrightarrow> map_of (event_sources c) k = None"
    and fin: "map_of (event_sources c') k = Some s' \<Longrightarrow> map_of (event_sources c) k = Some s \<Longrightarrow>
      src_completed s \<Longrightarrow> src_completed s'" for k s s'
    using assms unfolding same_requests_def by (fastforce split: option.splits)+
  show "over k c'" if "over k c"
    using that gen wt none [of k] fin [of k] unfolding over_def by (auto split: option.splits)
  show "ctl_ok c'" if "ctl_ok c"
    using that gen wt none unfolding ctl_ok_def by (metis le_trans not_None_eq)
qed

lemma same_requests_cong:
  "same_requests c c' \<Longrightarrow> generation c' \<le> generation c'' \<Longrightarrow> waiting c'' = waiting c' \<Longrightarrow>
   event_sources c'' = event_sources c' \<Longrightarrow> same_requests c c''"
  by (simp add: same_requests_def cong: option.case_cong)

lemma same_requests_upd:
  "(\<And>s. src_completed s \<Longrightarrow> src_completed (f s)) \<Longrightarrow> same_requests c (upd_source i f c)"
  by (auto simp: same_requests_def sources_upd split: option.splits)

lemma same_requests_trans: "same_requests a b \<Longrightarrow> same_requests b c \<Longrightarrow> same_requests a c"
  unfolding same_requests_def
  by (auto split: option.splits) (metis (no_types, lifting) option.distinct(1) option.inject)+

lemma same_requests_close: "same_requests c (close_source t c)"
  by (cases t) (auto simp: close_source_def same_requests_upd, simp add: same_requests_def split: option.split)

lemma same_requests_end: "same_requests c (end_request i c)"
proof -
  let ?c = "upd_source i (\<lambda>s. s\<lparr>src_completed := True\<rparr>) c"
  have "same_requests c (close_source (Some i) ?c)"
    by (rule same_requests_trans [OF same_requests_upd same_requests_close]) simp
  then show ?thesis
    by (auto simp: end_request_def closeActiveSource_def Let_def intro: same_requests_cong)
qed

lemma same_requests_refl [simp]: "same_requests c c"
  by (simp add: same_requests_def split: option.split)

lemma same_requests_handleError: "same_requests c (snd (handleError i m code c))"
  by (simp add: handleError_def same_requests_end split: option.split)

lemma same_requests_cancel: "same_requests c (cancel_request n c)"
  by (rule same_requests_cong [OF same_requests_close [of c "source c"]]) (simp_all add: cancel_request_def Let_def)

lemma same_requests_events:
  "same_requests c (snd (on_message i d c))" "same_requests c (snd (on_error i r d c))"
  "same_requests c (snd (on_readystatechange i r st c))"
  by (simp_all add: on_message_def on_error_def on_readystatechange_def Let_def split_def
      same_requests_end same_requests_handleError split: option.splits)

lemma send_request_ok:
  "over k c \<Longrightarrow> over k (send_request tag c)" "ctl_ok c \<Longrightarrow> ctl_ok (send_request tag c)"
proof -
  let ?c = "close_source (source c) c"
  note close = same_requestsD [OF same_requests_close [of c "source c"]]
  show "over k (send_request tag c)" if "over k c"
    using close(1) [OF that] by (auto simp: send_request_def Let_def over_def map_add_def split: option.splits)
  show "ctl_ok (send_request tag c)" if ok: "ctl_ok c"
  proof -
    have "map_of (event_sources ?c) (Suc (generation c)) = None"
      using close(2) [OF ok] unfolding ctl_ok_def
      by (metis Suc_n_not_le_n close_source_simps(1) not_None_eq)
    then show ?thesis using close(2) [OF ok]
      by (auto simp: send_request_def Let_def ctl_ok_def map_add_def split: option.splits if_splits)
  qed
qed

text \<open>Opening the source of a request that was waiting.\<close>

definition open_source :: "nat \<Rightarrow> nat \<Rightarrow> controller \<Rightarrow> controller" where
  "open_source g tag c = c\<lparr>waiting := AList.delete g (waiting c), source := Some g, streaming := True,
     event_sources := (g, \<lparr>src_tag = tag, src_completed = False, src_closed = False\<rparr>) # event_sources c\<rparr>"

lemma headers_ready_cases:
  "headers_ready g starts c = (case map_of (waiting c) g of
     None \<Rightarrow> ([], c)
   | Some tag \<Rightarrow>
     (if generation c \<noteq> g then ([], c\<lparr>waiting := AList.delete g (waiting c)\<rparr>)
      else if starts then ([], open_source g tag c)
      else handleError g STREAM_START_ERROR None (open_source g tag c)))"
  by (simp add: headers_ready_def Let_def open_source_def split: option.split)

lemma waiting_taken:
  assumes "map_of (waiting c) g = Some tag"
  shows "over k c \<Longrightarrow> over k (open_source g tag c)" "ctl_ok c \<Longrightarrow> ctl_ok (open_source g tag c)"
    "over k c \<Longrightarrow> over k (c\<lparr>waiting := AList.delete g (waiting c)\<rparr>)"
    "ctl_ok c \<Longrightarrow> ctl_ok (c\<lparr>waiting := AList.delete g (waiting c)\<rparr>)"
  using assms by (auto simp: over_def ctl_ok_def open_source_def delete_conv' split: option.splits if_splits)

lemma exec_keeps:
  shows "over k c \<Longrightarrow> over k (snd (ctl_exec e c))" and "ctl_ok c \<Longrightarrow> ctl_ok (snd (ctl_exec e c))"
  by (cases e; auto simp: send_request_ok headers_ready_cases headers_failed_def Let_def waiting_taken
      intro: same_requestsD(1) [OF same_requests_cancel] same_requestsD(1) [OF same_requests_events(1)]
        same_requestsD(1) [OF same_requests_events(2)] same_requestsD(1) [OF same_requests_events(3)]
        same_requestsD(1) [OF same_requests_handleError] same_requestsD(2) [OF same_requests_cancel]
        same_requestsD(2) [OF same_requests_events(1)] same_requestsD(2) [OF same_requests_events(2)]
        same_requestsD(2) [OF same_requests_events(3)] same_requestsD(2) [OF same_requests_handleError]
      split: option.split)+

text \<open>Only a live request reports, and an end is reported alone.\<close>

lemma live_not_over: "live i c = Some s \<Longrightarrow> \<not> over i c"
  by (auto simp: live_def over_def split: option.splits if_splits)

lemma end_over:
  assumes "ctl_ok c" and "live i c = Some s"
  shows "over i (end_request i c)"
proof -
  have src: "map_of (event_sources c) i = Some s" using assms(2) by (auto simp: live_def split: option.splits if_splits)
  then have "i \<le> generation c" "map_of (waiting c) i = None" using assms(1) by (auto simp: ctl_ok_def)
  moreover have "map_of (event_sources (end_request i c)) i = Some (s\<lparr>src_completed := True, src_closed := True\<rparr>)"
    using src by (simp add: end_request_def closeActiveSource_def close_source_def Let_def sources_upd)
  moreover have "generation (end_request i c) = generation c" "waiting (end_request i c) = waiting c"
    by (simp_all add: end_request_def closeActiveSource_def Let_def)
  ultimately show ?thesis by (simp add: over_def)
qed

lemma handleError_reports:
  assumes "ctl_ok c" and "(i, tag, cb) \<in> set (fst (handleError j m code c))"
  shows "i = generation c \<and> \<not> over i c \<and> over i (snd (handleError j m code c)) \<and>
    fst (handleError j m code c) = [(i, tag, cb)]"
  using assms live_not_over [of j c] end_over [OF assms(1), of j]
  by (auto simp: handleError_def live_def isCurrent_def split: option.splits if_splits)

lemma open_source_over: "map_of (waiting c) g = Some tag \<Longrightarrow> \<not> over g c"
  by (simp add: over_def)

lemma exec_reports:
  assumes "ctl_ok c" and "(i, tag, cb) \<in> set (fst (ctl_exec e c))"
  shows "i = generation c" and "\<not> over i c"
    and "terminal cb \<Longrightarrow> over i (snd (ctl_exec e c)) \<and> fst (ctl_exec e c) = [(i, tag, cb)]"
proof -
  have live_gen: "live j c = Some s \<Longrightarrow> j = generation c" for j s
    by (auto simp: live_def isCurrent_def split: option.splits if_splits)
  have "i = generation c \<and> \<not> over i c \<and>
    (terminal cb \<longrightarrow> over i (snd (ctl_exec e c)) \<and> fst (ctl_exec e c) = [(i, tag, cb)])"
  proof (cases e)
    case (HeadersReady g starts)
    then obtain t where t: "map_of (waiting c) g = Some t" "generation c = g" "\<not> starts"
      using assms(2) by (auto simp: headers_ready_cases split: option.splits if_splits)
    then have ex: "ctl_exec e c = handleError g STREAM_START_ERROR None (open_source g t c)"
      using HeadersReady by (simp add: headers_ready_cases)
    note rep = handleError_reports [OF waiting_taken(2) [OF t(1) assms(1)] assms(2) [unfolded ex]]
    then have "i = g" using t(2) by (simp add: open_source_def)
    then show ?thesis using rep t(2) open_source_over [OF t(1)] unfolding ex by auto
  next
    case (HeadersFailed g m)
    then show ?thesis using assms
      by (auto simp: headers_failed_def Let_def over_def ctl_ok_def delete_conv' split: option.splits if_splits)
  next
    case (SseMessage j d)
    then show ?thesis
      using assms handleError_reports [OF assms(1), of i tag cb j] live_not_over [of j c] end_over [OF assms(1), of j] live_gen
      by (auto simp: on_message_def Let_def split: option.splits if_splits)
  next
    case (SseError j r d)
    then show ?thesis using assms handleError_reports [OF assms(1), of i tag cb j]
      by (auto simp: on_error_def Let_def split_def split: option.splits if_splits)
  next
    case (SseReadyState j r st)
    then show ?thesis using assms handleError_reports [OF assms(1), of i tag cb j]
      by (auto simp: on_readystatechange_def split: option.splits if_splits)
  qed (use assms(2) in simp_all)
  then show "i = generation c" and "\<not> over i c"
    and "terminal cb \<Longrightarrow> over i (snd (ctl_exec e c)) \<and> fst (ctl_exec e c) = [(i, tag, cb)]" by blast+
qed

fun ends_once :: "reports \<Rightarrow> bool" where
  "ends_once [] = True"
| "ends_once ((i, tag, cb) # rs) = ((terminal cb \<longrightarrow> i \<notin> fst ` set rs) \<and> ends_once rs)"

lemma ends_once_append:
  "ends_once (rs @ qs) \<longleftrightarrow> ends_once rs \<and> ends_once qs \<and>
     (\<forall>(i, tag, cb) \<in> set rs. terminal cb \<longrightarrow> i \<notin> fst ` set qs)"
  by (induction rs rule: ends_once.induct) auto

lemma ends_once_quiet: "(\<forall>(i, tag, cb) \<in> set rs. \<not> terminal cb) \<Longrightarrow> ends_once rs"
  by (induction rs rule: ends_once.induct) auto

lemma ctl_ok_initial [simp]: "ctl_ok initial_controller"
  by (simp add: ctl_ok_def initial_controller_def)

lemma exec_ends_once: "ctl_ok c \<Longrightarrow> ends_once (fst (ctl_exec e c))"
proof -
  assume ok: "ctl_ok c"
  show ?thesis
  proof (cases "\<exists>(i, tag, cb) \<in> set (fst (ctl_exec e c)). terminal cb")
    case True
    then obtain i tag cb where "(i, tag, cb) \<in> set (fst (ctl_exec e c))" "terminal cb" by auto
    then have "fst (ctl_exec e c) = [(i, tag, cb)]" using exec_reports(3) [OF ok] by blast
    then show ?thesis by simp
  next
    case False
    then show ?thesis by (intro ends_once_quiet) auto
  qed
qed

lemma run_reports:
  assumes "ctl_ok c" and "ctl_run es c = (rs, c')"
  shows "ctl_ok c' \<and> ends_once rs \<and> generation c \<le> generation c' \<and>
    (\<forall>(i, tag, cb) \<in> set rs. generation c \<le> i \<and> (terminal cb \<longrightarrow> over i c'))"
  using assms(2)
proof (induction es arbitrary: rs c' rule: rev_induct)
  case Nil
  then show ?case using assms(1) by simp
next
  case (snoc e es)
  obtain qs d where d: "ctl_run es c = (qs, d)" by (cases "ctl_run es c")
  have rs: "rs = qs @ fst (ctl_exec e d)" and c': "c' = snd (ctl_exec e d)"
    using snoc.prems d by (simp_all add: ctl_run_snoc split_def Let_def)
  note ih = snoc.IH [OF d]
  have ok: "ctl_ok d" using ih by simp
  have "generation d \<le> generation c'"
  proof -
    have "same_requests d c' \<Longrightarrow> generation d \<le> generation c'" by (simp add: same_requests_def)
    moreover have "generation (snd (handleError i m code v)) = generation v" for i m code v
      by (simp add: handleError_def end_request_def closeActiveSource_def Let_def split: option.split)
    ultimately show ?thesis unfolding c'
      by (cases e) (auto simp: same_requests_cancel same_requests_events send_request_def Let_def
          headers_ready_cases headers_failed_def open_source_def intro: same_requestsD split: option.splits)
  qed
  moreover have "i \<notin> fst ` set (fst (ctl_exec e d))" if "(i, tag, cb) \<in> set qs" "terminal cb" for i tag cb
  proof
    assume "i \<in> fst ` set (fst (ctl_exec e d))"
    then obtain tag' cb' where "(i, tag', cb') \<in> set (fst (ctl_exec e d))" by auto
    then have "\<not> over i d" using exec_reports(2) [OF ok] by blast
    then show False using ih that by fastforce
  qed
  then have "ends_once rs" using ih exec_ends_once [OF ok, of e] unfolding rs ends_once_append by blast
  moreover have "generation c \<le> i \<and> (terminal cb \<longrightarrow> over i c')" if "(i, tag, cb) \<in> set rs" for i tag cb
  proof (cases "(i, tag, cb) \<in> set qs")
    case True
    then have "generation c \<le> i" "terminal cb \<longrightarrow> over i d" using ih by fastforce+
    then show ?thesis using exec_keeps(1) [of i d e] unfolding c' by blast
  next
    case False
    then have new: "(i, tag, cb) \<in> set (fst (ctl_exec e d))" using that rs by simp
    show ?thesis using exec_reports(1,3) [OF ok new] ih unfolding c' by simp
  qed
  ultimately show ?case using ih exec_keeps(2) [OF ok, of e] unfolding c' by fastforce
qed

text \<open>
  C4: whatever the network does, a stream request reports its end at most once, by completion or by
  an error, and reports nothing after that; this holds over any history of requests, stops, header
  failures, messages and connection events, delivered in any order and to any source.
\<close>

theorem stream_ends_once:
  "ends_once (fst (ctl_run es initial_controller))"
  using run_reports [OF ctl_ok_initial, of es] by (cases "ctl_run es initial_controller") simp

text \<open>
  C29: once a newer request is sent, or the stream is stopped, earlier requests are silent: every
  later report belongs to a request sent afterwards.
\<close>

theorem superseded_request_silent:
  assumes "ctl_run es initial_controller = (qs, c)" and "e = Send tag \<or> e = Cancel n"
    and "ctl_run fs (snd (ctl_exec e c)) = (rs, c')" and "(i, t, cb) \<in> set rs"
  shows "generation c < i"
proof -
  have "ctl_ok c" using run_reports [OF ctl_ok_initial assms(1)] by simp
  then have "ctl_ok (snd (ctl_exec e c))" by (rule exec_keeps(2))
  then have "generation (snd (ctl_exec e c)) \<le> i" using run_reports [OF _ assms(3)] assms(4) by fastforce
  moreover have "generation (snd (ctl_exec e c)) = generation c + 1"
    using assms(2) by (auto simp: send_request_def cancel_request_def Let_def)
  ultimately show ?thesis by simp
qed

theorem superseded_request_silent_witness:
  "generation (snd (ctl_run [Send 1, HeadersReady 1 True] initial_controller)) < 2"
proof (rule superseded_request_silent)
  show "ctl_run [Send 1, HeadersReady 1 True] initial_controller =
      (fst (ctl_run [Send 1, HeadersReady 1 True] initial_controller),
       snd (ctl_run [Send 1, HeadersReady 1 True] initial_controller))" by simp
  let ?c = "snd (ctl_exec (Send 2) (snd (ctl_run [Send 1, HeadersReady 1 True] initial_controller)))"
  let ?fs = "[HeadersReady 2 True, SseMessage 1 (Some (js ''[DONE]'')), SseMessage 2 (Some (js ''[DONE]''))]"
  show "ctl_run ?fs ?c = (fst (ctl_run ?fs ?c), snd (ctl_run ?fs ?c))" by simp
  have "fst (ctl_run ?fs ?c) = [(2, 2, OnComplete)]" by code_simp
  then show "(2, 2, OnComplete) \<in> set (fst (ctl_run ?fs ?c))" by simp
qed simp

end
