(* ===== verification/ChatHandler.thy ===== *)
theory ChatHandler
  imports StreamController
begin

text \<open>
  The chat handler of the playground
  (\<open>src/web/src/features/playground/hooks/use-chat-handler.ts\<close>, with the actions of
  \<open>use-playground-conversation.ts\<close>): it sends requests, buffers stream chunks for fifty milliseconds
  before they reach the conversation, and drops whatever belongs to an earlier generation.  State
  updates handed to React are queued and run later, in order (\<open>run_update\<close>), so the generation is
  checked again when an update runs.  Translations (\<open>t\<close>) and the clock are arguments.
\<close>

section \<open>State\<close>

record pending_chunks =
  pend_generation :: nat
  pend_content :: jstr
  pend_reasoning :: jstr

datatype update =
    FlushChunks nat pending_chunks
  | CompleteLast nat
  | FailLast nat jstr "jstr option" jstr
  | RespondLast nat "chat_choice list"
  | StopLast nat
  | SetMessages "message list"
  | RemoveMessage jstr

record handler =
  conversation :: "message list"
  requestGeneration :: nat
  pendingStreamChunks :: pending_chunks
  streamFlushTimer :: "nat option"
  isRequesting :: bool
  editingMessageKey :: "jstr option"
  abortController :: "nat option"
  aborted :: "nat list"
  stream :: controller
  updates :: "update list"
  toastErrors :: "jstr list"
  payloads :: "chat_request list"

definition initial_handler :: "message list \<Rightarrow> handler" where
  "initial_handler ms = \<lparr>conversation = ms, requestGeneration = 0,
     pendingStreamChunks = \<lparr>pend_generation = 0, pend_content = [], pend_reasoning = []\<rparr>,
     streamFlushTimer = None, isRequesting = False, editingMessageKey = None, abortController = None, aborted = [],
     stream = initial_controller, updates = [], toastErrors = [], payloads = []\<rparr>"

definition DEFAULT_CONFIG :: playground_config where
  "DEFAULT_CONFIG = \<lparr>cfg_model = js ''gpt-4o'', cfg_group = js ''default'', temperature = rnd (7 / 10),
     top_p = of_i 1, max_tokens = of_i 4096, frequency_penalty = of_i 0, presence_penalty = of_i 0,
     seed = None, cfg_stream = True\<rparr>"

definition DEFAULT_PARAMETER_ENABLED :: parameter_enabled where
  "DEFAULT_PARAMETER_ENABLED = \<lparr>en_temperature = True, en_top_p = True, en_max_tokens = False,
     en_frequency_penalty = True, en_presence_penalty = True, en_seed = False\<rparr>"

section \<open>Buffering\<close>

definition mergePendingStreamChunk :: "jstr \<Rightarrow> jstr \<Rightarrow> jstr" where
  "mergePendingStreamChunk currentChunk nextChunk =
     (if currentChunk = [] \<or> \<not> starts_with currentChunk nextChunk then currentChunk @ nextChunk
      else nextChunk)"

definition no_chunks :: "nat \<Rightarrow> pending_chunks" where
  "no_chunks g = \<lparr>pend_generation = g, pend_content = [], pend_reasoning = []\<rparr>"

definition discardPendingStreamUpdates :: "nat \<Rightarrow> handler \<Rightarrow> handler" where
  "discardPendingStreamUpdates g h = h\<lparr>streamFlushTimer := None, pendingStreamChunks := no_chunks g\<rparr>"

definition enqueue :: "update \<Rightarrow> handler \<Rightarrow> handler" where
  "enqueue u h = h\<lparr>updates := updates h @ [u]\<rparr>"

definition flushStreamUpdates :: "nat \<Rightarrow> handler \<Rightarrow> handler" where
  "flushStreamUpdates g h =
     (if g \<noteq> requestGeneration h then h
      else let h' = h\<lparr>streamFlushTimer := None\<rparr>; p = pendingStreamChunks h in
        if pend_generation p \<noteq> g then h'
        else if pend_reasoning p = [] \<and> pend_content p = [] then h'
        else enqueue (FlushChunks g p) (h'\<lparr>pendingStreamChunks := no_chunks g\<rparr>))"

definition scheduleStreamFlush :: "nat \<Rightarrow> handler \<Rightarrow> handler" where
  "scheduleStreamFlush g h =
     (if g \<noteq> requestGeneration h then h
      else if streamFlushTimer h \<noteq> None then h
      else h\<lparr>streamFlushTimer := Some g\<rparr>)"

definition merge_chunk :: "chunk_type \<Rightarrow> jstr \<Rightarrow> pending_chunks \<Rightarrow> pending_chunks" where
  "merge_chunk ty chunk p = (case ty of
     ContentChunk \<Rightarrow> p\<lparr>pend_content := mergePendingStreamChunk (pend_content p) chunk\<rparr>
   | ReasoningChunk \<Rightarrow> p\<lparr>pend_reasoning := mergePendingStreamChunk (pend_reasoning p) chunk\<rparr>)"

definition handleStreamUpdate :: "nat \<Rightarrow> chunk_type \<Rightarrow> jstr \<Rightarrow> handler \<Rightarrow> handler" where
  "handleStreamUpdate g ty chunk h =
     (if g \<noteq> requestGeneration h then h
      else if pend_generation (pendingStreamChunks h) \<noteq> g then h
      else scheduleStreamFlush g
        (h\<lparr>pendingStreamChunks := merge_chunk ty chunk (pendingStreamChunks h)\<rparr>))"

section \<open>Ends of a request\<close>

definition connection_suffix :: jstr where
  "connection_suffix = js '': '' @ CONNECTION_CLOSED"

definition ends_with :: "jstr \<Rightarrow> jstr \<Rightarrow> bool" where
  "ends_with s suf \<longleftrightarrow> length suf \<le> length s \<and> drop (length s - length suf) s = suf"

definition getDisplayError :: "(jstr \<Rightarrow> jstr) \<Rightarrow> jstr \<Rightarrow> jstr" where
  "getDisplayError t err =
     (if err \<in> set ERROR_MESSAGES then t err
      else if ends_with err connection_suffix
        then take (length err - length CONNECTION_CLOSED) err @ t CONNECTION_CLOSED
      else err)"

definition handleStreamComplete :: "nat \<Rightarrow> handler \<Rightarrow> handler" where
  "handleStreamComplete g h =
     (if g \<noteq> requestGeneration h then h
      else enqueue (CompleteLast g) ((flushStreamUpdates g h)\<lparr>isRequesting := False\<rparr>))"

definition handleStreamError :: "(jstr \<Rightarrow> jstr) \<Rightarrow> nat \<Rightarrow> jstr \<Rightarrow> jstr option \<Rightarrow> handler \<Rightarrow> handler" where
  "handleStreamError t g err code h =
     (if g \<noteq> requestGeneration h then h
      else let h' = (flushStreamUpdates g h)\<lparr>isRequesting := False\<rparr>;
               displayError = getDisplayError t err
        in enqueue (FailLast g displayError code (t API_REQUEST_ERROR))
             (h'\<lparr>toastErrors := toastErrors h' @ [displayError]\<rparr>))"

fun handle_callback :: "(jstr \<Rightarrow> jstr) \<Rightarrow> nat \<Rightarrow> callback \<Rightarrow> handler \<Rightarrow> handler" where
  "handle_callback t g (OnUpdate ty chunk) h = handleStreamUpdate g ty chunk h"
| "handle_callback t g OnComplete h = handleStreamComplete g h"
| "handle_callback t g (OnError err code) h = handleStreamError t g err code h"

section \<open>Sending and stopping\<close>

definition abort_current :: "handler \<Rightarrow> handler" where
  "abort_current h = h\<lparr>aborted := (case abortController h of Some a \<Rightarrow> a # aborted h | None \<Rightarrow> aborted h),
     abortController := None\<rparr>"

definition sendStreamingChat ::
    "playground_config \<Rightarrow> parameter_enabled \<Rightarrow> message list \<Rightarrow> handler \<Rightarrow> handler" where
  "sendStreamingChat config enabled ms h =
     (let g = requestGeneration h + 1;
          h1 = discardPendingStreamUpdates g (abort_current (h\<lparr>requestGeneration := g\<rparr>))
      in h1\<lparr>isRequesting := True, payloads := payloads h1 @ [buildChatCompletionPayload ms config enabled],
            stream := send_request g (stream h1)\<rparr>)"

definition sendNonStreamingChat ::
    "playground_config \<Rightarrow> parameter_enabled \<Rightarrow> message list \<Rightarrow> handler \<Rightarrow> handler" where
  "sendNonStreamingChat config enabled ms h =
     (let g = requestGeneration h + 1;
          h1 = h\<lparr>requestGeneration := g, stream := cancel_request True (stream h)\<rparr>;
          h2 = abort_current (discardPendingStreamUpdates g h1)
      in h2\<lparr>abortController := Some g, isRequesting := True,
            payloads := payloads h2 @ [buildChatCompletionPayload ms config enabled]\<rparr>)"

definition sendChat :: "playground_config \<Rightarrow> parameter_enabled \<Rightarrow> message list \<Rightarrow> handler \<Rightarrow> handler" where
  "sendChat config enabled ms h =
     (if cfg_stream config then sendStreamingChat config enabled ms h
      else sendNonStreamingChat config enabled ms h)"

text \<open>The \<open>finally\<close> clause of a non-streaming request.\<close>

definition request_settled :: "nat \<Rightarrow> handler \<Rightarrow> handler" where
  "request_settled g h =
     (if requestGeneration h = g then h\<lparr>abortController := None, isRequesting := False\<rparr> else h)"

definition response_arrived :: "(jstr \<Rightarrow> jstr) \<Rightarrow> nat \<Rightarrow> chat_choice list \<Rightarrow> handler \<Rightarrow> handler" where
  "response_arrived t g choices h =
     request_settled g
       (if g \<in> set (aborted h) \<or> requestGeneration h \<noteq> g then h
        else if \<not> hasChatCompletionChoice choices then handleStreamError t g API_REQUEST_ERROR None h
        else enqueue (RespondLast g choices) h)"

definition response_failed :: "(jstr \<Rightarrow> jstr) \<Rightarrow> nat \<Rightarrow> jsval \<Rightarrow> handler \<Rightarrow> handler" where
  "response_failed t g err h =
     request_settled g
       (if g \<in> set (aborted h) \<or> requestGeneration h \<noteq> g then h
        else let (code, message) = parseRequestErrorDetails err in handleStreamError t g message code h)"

definition stopGeneration :: "handler \<Rightarrow> handler" where
  "stopGeneration h =
     (let stoppedGeneration = requestGeneration h;
          h1 = flushStreamUpdates stoppedGeneration h;
          idleGeneration = stoppedGeneration + 1;
          h2 = discardPendingStreamUpdates idleGeneration (h1\<lparr>requestGeneration := idleGeneration\<rparr>);
          h3 = abort_current (h2\<lparr>stream := cancel_request True (stream h2)\<rparr>)
      in enqueue (StopLast idleGeneration) (h3\<lparr>isRequesting := False\<rparr>))"

text \<open>
  Unmounting, with the effect of the stream hook.  The cleared timer stays in its reference; were it to
  fire it would find its generation gone.
\<close>

definition unmount :: "handler \<Rightarrow> handler" where
  "unmount h = abort_current (h\<lparr>requestGeneration := requestGeneration h + 1,
     stream := cancel_request False (stream h)\<rparr>)"

section \<open>Updates of the conversation\<close>

definition apply_pending :: "pending_chunks \<Rightarrow> jsnum \<Rightarrow> message \<Rightarrow> message" where
  "apply_pending p now m =
     (let m1 = (if pend_reasoning p \<noteq> [] then applyStreamingChunk m ReasoningChunk (pend_reasoning p) now else m)
      in if pend_content p \<noteq> [] then applyStreamingChunk m1 ContentChunk (pend_content p) now else m1)"

fun apply_update :: "update \<Rightarrow> nat \<Rightarrow> jsnum \<Rightarrow> message list \<Rightarrow> message list" where
  "apply_update (FlushChunks g p) cur now prev =
     (if g \<noteq> cur then prev else updateLastAssistantMessage prev (apply_pending p now))"
| "apply_update (CompleteLast g) cur now prev =
     (if g \<noteq> cur then prev
      else updateLastAssistantMessage prev
        (\<lambda>m. if isAssistantMessageFinal m then m else completeAssistantMessage m now))"
| "apply_update (FailLast g err code title) cur now prev =
     (if g \<noteq> cur then prev else updateAssistantMessageWithError prev err code title now)"
| "apply_update (RespondLast g choices) cur now prev =
     (if g \<noteq> cur then prev
      else updateLastAssistantMessage prev
        (\<lambda>m. case applyChatCompletionResponse m choices now of Some m' \<Rightarrow> m' | None \<Rightarrow> m))"
| "apply_update (StopLast g) cur now prev =
     (if g \<noteq> cur then prev
      else updateLastAssistantMessage prev
        (\<lambda>m. if isAssistantMessagePending m then completeAssistantMessage m now else m))"
| "apply_update (SetMessages ms) cur now prev = ms"
| "apply_update (RemoveMessage k) cur now prev = removeMessageByKey prev k"

text \<open>React runs the next queued update.\<close>

definition run_update :: "jsnum \<Rightarrow> handler \<Rightarrow> handler" where
  "run_update now h = (case updates h of
     [] \<Rightarrow> h
   | u # us \<Rightarrow> h\<lparr>updates := us, conversation := apply_update u (requestGeneration h) now (conversation h)\<rparr>)"

section \<open>Actions of the user\<close>

text \<open>\<open>messages\<close> is the conversation of the last render.\<close>

definition handleSendMessage ::
    "playground_config \<Rightarrow> parameter_enabled \<Rightarrow> message list \<Rightarrow> jstr \<Rightarrow> jstr list \<Rightarrow> jsnum \<Rightarrow> handler \<Rightarrow> handler" where
  "handleSendMessage config enabled messages content ids now h =
     (let next = appendUserMessagePair messages content ids now
      in sendChat config enabled next (enqueue (SetMessages next) h))"

definition handleRegenerateMessage ::
    "playground_config \<Rightarrow> parameter_enabled \<Rightarrow> message list \<Rightarrow> jstr \<Rightarrow> jstr list \<Rightarrow> jsnum \<Rightarrow> handler \<Rightarrow> handler" where
  "handleRegenerateMessage config enabled messages k ids now h =
     (case createRegeneratedMessages messages k ids now of
        None \<Rightarrow> h
      | Some next \<Rightarrow> sendChat config enabled next (enqueue (SetMessages next) h))"

definition handleEditMessage :: "jstr \<Rightarrow> handler \<Rightarrow> handler" where
  "handleEditMessage k h = h\<lparr>editingMessageKey := Some k\<rparr>"

definition handleEditOpenChange :: "bool \<Rightarrow> handler \<Rightarrow> handler" where
  "handleEditOpenChange isOpen h = (if isOpen then h else h\<lparr>editingMessageKey := None\<rparr>)"

definition applyEdit ::
    "playground_config \<Rightarrow> parameter_enabled \<Rightarrow> message list \<Rightarrow> jstr \<Rightarrow> bool \<Rightarrow> jstr list \<Rightarrow> jsnum
      \<Rightarrow> handler \<Rightarrow> handler" where
  "applyEdit config enabled messages newContent shouldSubmit ids now h = (case editingMessageKey h of
     None \<Rightarrow> h
   | Some k \<Rightarrow>
     (if k = [] then h
      else case applyMessageEdit messages k newContent shouldSubmit ids now of
          None \<Rightarrow> h
        | Some (ms, shouldSend) \<Rightarrow>
          (let h' = enqueue (SetMessages ms) (h\<lparr>editingMessageKey := None\<rparr>)
           in if shouldSend then sendChat config enabled ms h' else h')))"

definition handleDeleteMessage :: "jstr \<Rightarrow> handler \<Rightarrow> handler" where
  "handleDeleteMessage k h = enqueue (RemoveMessage k) h"

section \<open>Histories\<close>

text \<open>The callbacks of the controller run in order, against the new state of the controller.\<close>

fun callbacks :: "(jstr \<Rightarrow> jstr) \<Rightarrow> reports \<Rightarrow> handler \<Rightarrow> handler" where
  "callbacks t [] h = h"
| "callbacks t ((i, tag, cb) # rs) h = callbacks t rs (handle_callback t tag cb h)"

definition deliver_reports :: "(jstr \<Rightarrow> jstr) \<Rightarrow> reports \<times> controller \<Rightarrow> handler \<Rightarrow> handler" where
  "deliver_reports t rc h = callbacks t (fst rc) (h\<lparr>stream := snd rc\<rparr>)"

definition timer_fires :: "handler \<Rightarrow> handler" where
  "timer_fires h = (case streamFlushTimer h of None \<Rightarrow> h | Some g \<Rightarrow> flushStreamUpdates g h)"

datatype h_event =
    UserSend playground_config parameter_enabled "message list" jstr "jstr list" jsnum
  | UserRegenerate playground_config parameter_enabled "message list" jstr "jstr list" jsnum
  | UserOpensEdit jstr
  | UserClosesEdit
  | UserEdit playground_config parameter_enabled "message list" jstr bool "jstr list" jsnum
  | UserDelete jstr
  | UserStop
  | Unmount
  | Net ctl_event
  | ResponseArrives nat "chat_choice list"
  | ResponseFails nat jsval
  | TimerFires
  | RunUpdate jsnum

text \<open>Requests are sent and cancelled by the handler only; the network brings everything else.\<close>

fun from_network :: "ctl_event \<Rightarrow> bool" where
  "from_network (Send _) = False"
| "from_network (Cancel _) = False"
| "from_network _ = True"

fun h_exec :: "(jstr \<Rightarrow> jstr) \<Rightarrow> h_event \<Rightarrow> handler \<Rightarrow> handler" where
  "h_exec t (UserSend config enabled ms content ids now) h = handleSendMessage config enabled ms content ids now h"
| "h_exec t (UserRegenerate config enabled ms k ids now) h = handleRegenerateMessage config enabled ms k ids now h"
| "h_exec t (UserOpensEdit k) h = handleEditMessage k h"
| "h_exec t UserClosesEdit h = handleEditOpenChange False h"
| "h_exec t (UserEdit config enabled ms content sub ids now) h = applyEdit config enabled ms content sub ids now h"
| "h_exec t (UserDelete k) h = handleDeleteMessage k h"
| "h_exec t UserStop h = stopGeneration h"
| "h_exec t Unmount h = unmount h"
| "h_exec t (Net e) h = (if from_network e then deliver_reports t (ctl_exec e (stream h)) h else h)"
| "h_exec t (ResponseArrives g choices) h = response_arrived t g choices h"
| "h_exec t (ResponseFails g err) h = response_failed t g err h"
| "h_exec t TimerFires h = timer_fires h"
| "h_exec t (RunUpdate now) h = run_update now h"

definition h_run :: "(jstr \<Rightarrow> jstr) \<Rightarrow> h_event list \<Rightarrow> handler \<Rightarrow> handler" where
  "h_run t es h = foldl (\<lambda>h e. h_exec t e h) h es"

lemma h_run_simps [simp]:
  "h_run t [] h = h" "h_run t (e # es) h = h_run t es (h_exec t e h)"
  "h_run t (es @ fs) h = h_run t fs (h_run t es h)"
  by (simp_all add: h_run_def)

section \<open>Every tag is a generation of the handler\<close>

text \<open>The tags of requests waiting for headers and of event sources.\<close>

definition tags :: "controller \<Rightarrow> nat set" where
  "tags c = snd ` set (waiting c) \<union> src_tag ` snd ` set (event_sources c)"

lemma tags_upd: "(\<And>s. src_tag (f s) = src_tag s) \<Longrightarrow> tags (upd_source i f c) = tags c"
proof -
  assume keep: "\<And>s. src_tag (f s) = src_tag s"
  have "map (\<lambda>p. src_tag (snd p)) (event_sources (upd_source i f c)) = map (\<lambda>p. src_tag (snd p)) (event_sources c)"
    by (simp add: upd_source_def split_def keep)
  from arg_cong [OF this, of set] show ?thesis by (simp add: tags_def image_image)
qed

lemma tags_cong: "waiting c' = waiting c \<Longrightarrow> event_sources c' = event_sources c \<Longrightarrow> tags c' = tags c"
  by (simp add: tags_def)

lemma tags_close [simp]: "tags (close_source x c) = tags c"
  by (simp add: close_source_def tags_upd split: option.split)

lemma tags_end [simp]: "tags (end_request i c) = tags c"
proof -
  have "tags (close_source (Some i) (upd_source i (\<lambda>s. s\<lparr>src_completed := True\<rparr>) c)) = tags c"
    by (simp add: tags_upd)
  then show ?thesis by (simp add: end_request_def closeActiveSource_def Let_def tags_def)
qed

lemma tags_send: "tags (send_request tag c) = insert tag (tags c)"
proof -
  have "tags (close_source (source c) c) = tags c" by simp
  then show ?thesis unfolding tags_def by (auto simp: send_request_def Let_def)
qed

lemma tags_cancel [simp]: "tags (cancel_request n c) = tags c"
proof -
  have "tags (close_source (source c) c) = tags c" by simp
  then show ?thesis unfolding tags_def by (simp add: cancel_request_def Let_def)
qed

lemma live_tag: "live i c = Some s \<Longrightarrow> src_tag s \<in> tags c"
  by (auto simp: live_def tags_def split: option.splits if_splits dest!: map_of_SomeD) force


lemma tags_handleError: "tags (snd (handleError i m code c)) = tags c"
  and handleError_tags: "(j, g, cb) \<in> set (fst (handleError i m code c)) \<Longrightarrow> g \<in> tags c"
  by (auto simp: handleError_def live_tag split: option.splits)

lemma tags_open: "map_of (waiting c) g = Some tag \<Longrightarrow> tags (open_source g tag c) \<subseteq> tags c"
  by (auto simp: tags_def open_source_def AList.delete_eq dest!: map_of_SomeD) force

lemma tags_drop: "tags (c\<lparr>waiting := AList.delete g (waiting c)\<rparr>) \<subseteq> tags c"
  by (auto simp: tags_def AList.delete_eq)

lemma waiting_tag: "map_of (waiting c) g = Some tag \<Longrightarrow> tag \<in> tags c"
  by (auto simp: tags_def dest!: map_of_SomeD) force

lemma network_tags:
  assumes "from_network e"
  shows "tags (snd (ctl_exec e c)) \<subseteq> tags c" "(j, g, cb) \<in> set (fst (ctl_exec e c)) \<Longrightarrow> g \<in> tags c"
  using assms tags_open tags_drop
  by (cases e; fastforce simp: headers_ready_cases headers_failed_def on_message_def on_error_def
      on_readystatechange_def Let_def split_def tags_handleError live_tag waiting_tag
      dest: handleError_tags split: option.splits if_splits)+

definition handler_ok :: "handler \<Rightarrow> bool" where
  "handler_ok h \<longleftrightarrow> ctl_ok (stream h) \<and> (\<forall>g \<in> tags (stream h). g \<le> requestGeneration h)"

lemma ctl_ok_ops: "ctl_ok c \<Longrightarrow> ctl_ok (send_request tag c)" "ctl_ok c \<Longrightarrow> ctl_ok (cancel_request n c)"
  using exec_keeps(2) [of c "Send tag"] exec_keeps(2) [of c "Cancel n"] by simp_all

text \<open>The parts of the state that callbacks and updates leave alone.\<close>

lemma enqueue_keeps [simp]: "stream (enqueue u h) = stream h" "requestGeneration (enqueue u h) = requestGeneration h"
  "streamFlushTimer (enqueue u h) = streamFlushTimer h" "pendingStreamChunks (enqueue u h) = pendingStreamChunks h"
  "conversation (enqueue u h) = conversation h" "updates (enqueue u h) = updates h @ [u]"
  "isRequesting (enqueue u h) = isRequesting h"
  by (simp_all add: enqueue_def)

lemma flush_keeps [simp]: "stream (flushStreamUpdates g h) = stream h"
  "requestGeneration (flushStreamUpdates g h) = requestGeneration h"
  "conversation (flushStreamUpdates g h) = conversation h"
  by (simp_all add: flushStreamUpdates_def Let_def)

lemma discard_keeps [simp]: "stream (discardPendingStreamUpdates g h) = stream h"
  "requestGeneration (discardPendingStreamUpdates g h) = requestGeneration h"
  by (simp_all add: discardPendingStreamUpdates_def)

lemma abort_keeps [simp]: "stream (abort_current h) = stream h" "requestGeneration (abort_current h) = requestGeneration h"
  "streamFlushTimer (abort_current h) = streamFlushTimer h" "updates (abort_current h) = updates h"
  "conversation (abort_current h) = conversation h"
  by (simp_all add: abort_current_def)

lemma error_keeps [simp]: "stream (handleStreamError t g err code h) = stream h"
  "requestGeneration (handleStreamError t g err code h) = requestGeneration h"
  by (simp_all add: handleStreamError_def Let_def)

lemma callback_keeps [simp]: "stream (handle_callback t g cb h) = stream h"
  "requestGeneration (handle_callback t g cb h) = requestGeneration h"
  by (cases cb; simp add: handleStreamUpdate_def handleStreamComplete_def scheduleStreamFlush_def Let_def)+

lemma callbacks_keep [simp]: "stream (callbacks t rs h) = stream h"
  "requestGeneration (callbacks t rs h) = requestGeneration h"
  by (induction t rs h rule: callbacks.induct) simp_all

lemma deliver_reports_keeps [simp]: "stream (deliver_reports t rc h) = snd rc" "requestGeneration (deliver_reports t rc h) = requestGeneration h"
  by (simp_all add: deliver_reports_def)

lemma sendChat_ok: "handler_ok h \<Longrightarrow> handler_ok (sendChat config enabled ms h)"
  by (auto simp: sendChat_def sendStreamingChat_def sendNonStreamingChat_def handler_ok_def Let_def tags_send ctl_ok_ops)

lemma handler_ok_cong: "stream h' = stream h \<Longrightarrow> requestGeneration h' = requestGeneration h \<Longrightarrow> handler_ok h \<Longrightarrow> handler_ok h'"
  by (simp add: handler_ok_def)

lemma settled_keeps [simp]: "stream (request_settled g h) = stream h" "requestGeneration (request_settled g h) = requestGeneration h"
  by (simp_all add: request_settled_def)

lemma exec_ok: "handler_ok h \<Longrightarrow> handler_ok (h_exec t e h)"
proof (induction e)
  case (Net e)
  have "handler_ok (deliver_reports t (ctl_exec e (stream h)) h)" if "from_network e"
    using network_tags(1) [OF that, of "stream h"] Net by (auto simp: handler_ok_def exec_keeps(2))
  then show ?case using Net by simp
next
  case UserStop
  then show ?case by (auto simp: handler_ok_def stopGeneration_def Let_def ctl_ok_ops)
next
  case Unmount
  then show ?case by (auto simp: handler_ok_def unmount_def ctl_ok_ops)
qed (auto simp: handleSendMessage_def handleRegenerateMessage_def applyEdit_def handleDeleteMessage_def Let_def
    handleEditMessage_def handleEditOpenChange_def response_arrived_def response_failed_def split_def
    timer_fires_def run_update_def
    intro!: sendChat_ok elim!: handler_ok_cong [rotated 2] split: option.split list.split)

lemma initial_ok: "handler_ok (initial_handler ms)"
  by (simp add: handler_ok_def initial_handler_def ctl_ok_initial) (simp add: initial_controller_def tags_def)

lemma run_ok: "handler_ok h \<Longrightarrow> handler_ok (h_run t es h)"
  by (induction es arbitrary: h) (auto simp: exec_ok)

section \<open>Nothing of an earlier generation gets through\<close>

lemma callback_stale: "g \<noteq> requestGeneration h \<Longrightarrow> handle_callback t g cb h = h"
  by (cases cb) (simp_all add: handleStreamUpdate_def handleStreamComplete_def handleStreamError_def)

lemma callbacks_stale: "(\<And>j g cb. (j, g, cb) \<in> set rs \<Longrightarrow> g \<noteq> requestGeneration h) \<Longrightarrow> callbacks t rs h = h"
proof (induction t rs h rule: callbacks.induct)
  case (2 t i tag cb rs h)
  have "handle_callback t tag cb h = h" using 2(2) [of i tag cb] by (simp add: callback_stale)
  then show ?case using 2 by (metis callbacks.simps(2) list.set_intros(2))
qed simp

lemma deliver_reports_stale:
  "(\<And>j g cb. (j, g, cb) \<in> set (fst rc) \<Longrightarrow> g \<noteq> requestGeneration h) \<Longrightarrow> deliver_reports t rc h = h\<lparr>stream := snd rc\<rparr>"
  unfolding deliver_reports_def by (rule callbacks_stale) simp

text \<open>Every request the handler made is of an earlier generation than the current one, which is \<open>n\<close> or later.\<close>

definition idle_since :: "nat \<Rightarrow> handler \<Rightarrow> bool" where
  "idle_since n h \<longleftrightarrow> n < requestGeneration h \<and> (\<forall>g \<in> tags (stream h). g < requestGeneration h) \<and>
     streamFlushTimer h = None"

text \<open>What may still arrive for requests up to generation \<open>n\<close>, and React running updates.\<close>

fun late_event :: "nat \<Rightarrow> h_event \<Rightarrow> bool" where
  "late_event n (Net e) = True"
| "late_event n (ResponseArrives g choices) = (g \<le> n)"
| "late_event n (ResponseFails g err) = (g \<le> n)"
| "late_event n TimerFires = True"
| "late_event n (RunUpdate now) = True"
| "late_event n _ = False"

fun is_run :: "h_event \<Rightarrow> bool" where
  "is_run (RunUpdate now) = True"
| "is_run _ = False"

lemma late_step:
  assumes "idle_since n h" and "late_event n e" and "\<not> is_run e"
  shows "\<exists>c. h_exec t e h = h\<lparr>stream := c\<rparr> \<and> idle_since n (h\<lparr>stream := c\<rparr>)"
proof (cases "\<exists>ev. e = Net ev \<and> from_network ev")
  case True
  then obtain ev where ev: "e = Net ev" "from_network ev" by blast
  let ?r = "ctl_exec ev (stream h)"
  have old: "g < requestGeneration h" if "g \<in> tags (stream h)" for g using assms(1) that by (simp add: idle_since_def)
  have "deliver_reports t ?r h = h\<lparr>stream := snd ?r\<rparr>"
    by (rule deliver_reports_stale) (use network_tags(2) [OF ev(2), of _ _ _ "stream h"] old in force)
  moreover have "idle_since n (h\<lparr>stream := snd ?r\<rparr>)"
    using network_tags(1) [OF ev(2), of "stream h"] assms(1) by (auto simp: idle_since_def)
  ultimately show ?thesis using ev by auto
next
  case False
  have "h_exec t e h = h"
    using assms False by (cases e) (auto simp: idle_since_def response_arrived_def response_failed_def
        request_settled_def timer_fires_def)
  then show ?thesis using assms(1) by (metis handler.surjective handler.update_convs(9))
qed

lemma run_update_stream: "run_update now (h\<lparr>stream := c\<rparr>) = (run_update now h)\<lparr>stream := c\<rparr>"
  by (simp add: run_update_def split: list.split)

lemma runs_stream:
  "(\<And>e. e \<in> set es \<Longrightarrow> is_run e) \<Longrightarrow> h_run t es (h\<lparr>stream := c\<rparr>) = (h_run t es h)\<lparr>stream := c\<rparr>"
proof (induction es arbitrary: h)
  case (Cons e es)
  then have "is_run e" by simp
  then obtain now where "e = RunUpdate now" by (cases e) auto
  then show ?case using Cons by (simp add: run_update_stream)
qed simp

lemma late_run:
  assumes "idle_since n h" and "\<And>e. e \<in> set es \<Longrightarrow> late_event n e"
  shows "\<exists>c. h_run t es h = (h_run t (filter is_run es) h)\<lparr>stream := c\<rparr>"
  using assms
proof (induction es arbitrary: h)
  case Nil
  then show ?case by (auto intro!: exI [where x = "stream h"])
next
  case (Cons e es)
  show ?case
  proof (cases "is_run e")
    case True
    then obtain now where "e = RunUpdate now" by (cases e) auto
    moreover have "idle_since n (run_update now h)" 
      using Cons.prems(1) by (simp add: idle_since_def run_update_def split: list.split)
    ultimately show ?thesis using Cons by simp
  next
    case False
    then obtain c where c: "h_exec t e h = h\<lparr>stream := c\<rparr>" "idle_since n (h\<lparr>stream := c\<rparr>)"
      using late_step [of n h e t] Cons.prems by auto
    then obtain c' where "h_run t es (h\<lparr>stream := c\<rparr>) = (h_run t (filter is_run es) (h\<lparr>stream := c\<rparr>))\<lparr>stream := c'\<rparr>"
      using Cons.IH Cons.prems(2) by fastforce
    moreover have "h_run t (filter is_run es) (h\<lparr>stream := c\<rparr>) = (h_run t (filter is_run es) h)\<lparr>stream := c\<rparr>"
      by (rule runs_stream) simp
    ultimately show ?thesis using c False by auto
  qed
qed

lemma stop_idle: "handler_ok h \<Longrightarrow> idle_since (requestGeneration h) (stopGeneration h)"
  by (auto simp: idle_since_def handler_ok_def stopGeneration_def discardPendingStreamUpdates_def Let_def)

lemma run_keeps_requesting:
  "(\<And>e. e \<in> set es \<Longrightarrow> is_run e) \<Longrightarrow> isRequesting (h_run t es h) = isRequesting h \<and> toastErrors (h_run t es h) = toastErrors h"
proof (induction es arbitrary: h)
  case (Cons e es)
  then have "is_run e" by simp
  then obtain now where "e = RunUpdate now" by (cases e) auto
  then show ?case using Cons by (simp add: run_update_def split: list.split)
qed simp

text \<open>
  C6: After the user stops generation, nothing that still arrives for the stopped or an earlier request
  changes what the playground shows: whatever history led there, the network, the flush timer and the
  answers of non-streaming requests may come in any order, and the conversation and the queue of
  updates are those that running the already queued updates alone produces; no error is shown and the
  request indicator stays off.
\<close>

theorem stopped_stays_stopped:
  fixes t :: "jstr \<Rightarrow> jstr" and before :: "h_event list" and ms :: "message list"
  defines "h \<equiv> h_run t before (initial_handler ms)"
  assumes "\<And>e. e \<in> set late \<Longrightarrow> late_event (requestGeneration h) e"
  shows "conversation (h_run t late (stopGeneration h)) = conversation (h_run t (filter is_run late) (stopGeneration h)) \<and>
    updates (h_run t late (stopGeneration h)) = updates (h_run t (filter is_run late) (stopGeneration h)) \<and>
    toastErrors (h_run t late (stopGeneration h)) = toastErrors h \<and>
    \<not> isRequesting (h_run t late (stopGeneration h))"
proof -
  have "handler_ok h" by (simp add: h_def run_ok initial_ok)
  from late_run [OF stop_idle [OF this] assms(2), of late t]
  obtain c where c: "h_run t late (stopGeneration h) = (h_run t (filter is_run late) (stopGeneration h))\<lparr>stream := c\<rparr>"
    by blast
  have "\<not> isRequesting (stopGeneration h)" "toastErrors (stopGeneration h) = toastErrors h"
    by (simp_all add: stopGeneration_def Let_def enqueue_def abort_current_def discardPendingStreamUpdates_def flushStreamUpdates_def)
  then show ?thesis using run_keeps_requesting [of "filter is_run late" t "stopGeneration h"] by (simp add: c)
qed

theorem stopped_stays_stopped_witness:
  "conversation (h_run (\<lambda>s. s) [Net (HeadersReady 1 True), Net (SseMessage 1 (Some (js ''[DONE]''))), TimerFires]
     (stopGeneration (h_run (\<lambda>s. s)
        [UserSend DEFAULT_CONFIG DEFAULT_PARAMETER_ENABLED [] (js ''hi'') [js ''a'', js ''b'', js ''c'', js ''d''] (of_i 1)]
        (initial_handler [])))) = []"
proof -
  let ?before = "[UserSend DEFAULT_CONFIG DEFAULT_PARAMETER_ENABLED [] (js ''hi'') [js ''a'', js ''b'', js ''c'', js ''d''] (of_i 1)]"
  let ?late = "[Net (HeadersReady 1 True), Net (SseMessage 1 (Some (js ''[DONE]''))), TimerFires]"
  have late: "late_event (requestGeneration (h_run (\<lambda>s. s) ?before (initial_handler []))) e" if "e \<in> set ?late" for e
    using that by auto
  have "conversation (stopGeneration (h_run (\<lambda>s. s) ?before (initial_handler []))) = []" by code_simp
  then show ?thesis using stopped_stays_stopped [of ?late "\<lambda>s. s" ?before "[]", OF late] by simp
qed

text \<open>
  C38: Stopping drops the text still in the buffer.  With content buffered and nothing queued,
  \<open>stopGeneration\<close> queues the buffered chunks for the generation that it then leaves; when React runs
  the queue, that update finds another generation and does nothing, so the conversation is the same as
  if the chunks had never arrived.
\<close>

theorem stop_drops_buffer:
  assumes "updates h = []" and "pend_generation (pendingStreamChunks h) = requestGeneration h"
    and "pend_content (pendingStreamChunks h) \<noteq> []"
  shows "conversation (h_run t [RunUpdate now, RunUpdate now] (stopGeneration h)) =
      updateLastAssistantMessage (conversation h)
        (\<lambda>m. if isAssistantMessagePending m then completeAssistantMessage m now else m) \<and>
    updates (h_run t [RunUpdate now, RunUpdate now] (stopGeneration h)) = []"
  using assms by (simp add: stopGeneration_def Let_def flushStreamUpdates_def enqueue_def abort_current_def
      discardPendingStreamUpdates_def run_update_def)

definition buffering_handler :: handler where
  "buffering_handler = handleStreamUpdate 1 ContentChunk (js ''Hello'')
     ((initial_handler [createLoadingAssistantMessage (js ''k'') (js ''v'') (of_i 1)])
        \<lparr>requestGeneration := 1, pendingStreamChunks := no_chunks 1\<rparr>)"

theorem stop_drops_buffer_witness:
  "map getMessageContent (conversation (h_run (\<lambda>s. s) [RunUpdate (of_i 2), RunUpdate (of_i 2)] (stopGeneration buffering_handler))) = [[]]"
proof -
  have "updates buffering_handler = []" "pend_generation (pendingStreamChunks buffering_handler) = requestGeneration buffering_handler"
    "pend_content (pendingStreamChunks buffering_handler) \<noteq> []" by code_simp+
  from stop_drops_buffer [OF this, of "\<lambda>s. s" "of_i 2"]
  have "map getMessageContent (conversation (h_run (\<lambda>s. s) [RunUpdate (of_i 2), RunUpdate (of_i 2)] (stopGeneration buffering_handler))) =
    map getMessageContent (updateLastAssistantMessage (conversation buffering_handler)
        (\<lambda>m. if isAssistantMessagePending m then completeAssistantMessage m (of_i 2) else m))" by simp
  also have "\<dots> = [[]]" by code_simp
  finally show ?thesis .
qed

section \<open>Buffering does not change the answer\<close>

text \<open>
  Request \<open>g\<close> is being answered and the content chunks \<open>cs\<close> have arrived: those of \<open>done_chunks\<close> are in
  the last message, those of \<open>queued\<close> in updates React has yet to run, the rest in the buffer.
\<close>

definition queued_update :: "nat \<Rightarrow> jstr list \<times> jstr \<Rightarrow> update" where
  "queued_update g q = FlushChunks g \<lparr>pend_generation = g, pend_content = concat (fst q), pend_reasoning = snd q\<rparr>"

definition answering :: "nat \<Rightarrow> message list \<Rightarrow> jstr list \<Rightarrow> handler \<Rightarrow> bool" where
  "answering g ms cs h \<longleftrightarrow> requestGeneration h = g \<and> pend_generation (pendingStreamChunks h) = g \<and>
     (\<exists>done_chunks queued rest m. cs = done_chunks @ concat (map fst queued) @ rest \<and>
        updates h = map (queued_update g) queued \<and> pend_content (pendingStreamChunks h) = concat rest \<and>
        conversation h = ms @ [m] \<and> getMessageContent m = concat done_chunks \<and> msg_from m = Assistant \<and>
        isAssistantMessagePending m)"

lemma answeringE:
  assumes "answering g ms cs h"
  obtains done_chunks queued rest m where "requestGeneration h = g" "pend_generation (pendingStreamChunks h) = g"
    "cs = done_chunks @ concat (map fst queued) @ rest" "updates h = map (queued_update g) queued"
    "pend_content (pendingStreamChunks h) = concat rest" "conversation h = ms @ [m]"
    "getMessageContent m = concat done_chunks" "msg_from m = Assistant" "isAssistantMessagePending m"
  using assms unfolding answering_def by blast

lemma answeringI:
  assumes "requestGeneration h = g" "pend_generation (pendingStreamChunks h) = g"
    "cs = done_chunks @ concat (map fst queued) @ rest" "updates h = map (queued_update g) queued"
    "pend_content (pendingStreamChunks h) = concat rest" "conversation h = ms @ [m]"
    "getMessageContent m = concat done_chunks" "msg_from m = Assistant" "isAssistantMessagePending m"
  shows "answering g ms cs h"
  using assms unfolding answering_def by blast

lemma merge_plain:
  assumes "no_replay (pre @ rest @ [c])"
  shows "mergePendingStreamChunk (concat rest) c = concat (rest @ [c])"
  using no_replayD [of pre rest "[c]" "[]"] assms by (auto simp: mergePendingStreamChunk_def)

lemma answering_update:
  assumes "answering g ms cs h" and "no_replay (cs @ content_chunks [(ty, c)])"
  shows "answering g ms (cs @ content_chunks [(ty, c)]) (handleStreamUpdate g ty c h)"
  using assms(1)
proof (rule answeringE)
  fix done_chunks queued rest m
  assume inv: "requestGeneration h = g" "pend_generation (pendingStreamChunks h) = g"
    "cs = done_chunks @ concat (map fst queued) @ rest" "updates h = map (queued_update g) queued"
    "pend_content (pendingStreamChunks h) = concat rest" "conversation h = ms @ [m]"
    "getMessageContent m = concat done_chunks" "msg_from m = Assistant" "isAssistantMessagePending m"
  let ?h = "handleStreamUpdate g ty c h"
  have same: "requestGeneration ?h = g" "updates ?h = updates h" "conversation ?h = conversation h"
    "pendingStreamChunks ?h = merge_chunk ty c (pendingStreamChunks h)"
    using inv by (simp_all add: handleStreamUpdate_def scheduleStreamFlush_def)
  show ?thesis
  proof (cases ty)
    case ReasoningChunk
    then show ?thesis using inv same
      by (intro answeringI [where rest = rest]) (simp_all add: merge_chunk_def content_chunks_def)
  next
    case ContentChunk
    then have "mergePendingStreamChunk (concat rest) c = concat (rest @ [c])"
      using merge_plain [of "done_chunks @ concat (map fst queued)" rest c] assms(2) inv(3)
      by (simp add: content_chunks_def)
    then show ?thesis using inv same ContentChunk
      by (intro answeringI [where rest = "rest @ [c]"]) (simp_all add: merge_chunk_def content_chunks_def)
  qed
qed

lemma answering_flush:
  assumes "answering g ms cs h"
  shows "answering g ms cs (flushStreamUpdates g h)" "pend_content (pendingStreamChunks (flushStreamUpdates g h)) = []"
proof -
  from assms obtain done_chunks queued rest m
    where inv: "requestGeneration h = g" "pend_generation (pendingStreamChunks h) = g"
      "cs = done_chunks @ concat (map fst queued) @ rest" "updates h = map (queued_update g) queued"
      "pend_content (pendingStreamChunks h) = concat rest" "conversation h = ms @ [m]"
      "getMessageContent m = concat done_chunks" "msg_from m = Assistant" "isAssistantMessagePending m"
    by (rule answeringE)
  have p: "pendingStreamChunks h = \<lparr>pend_generation = g, pend_content = concat rest, pend_reasoning = pend_reasoning (pendingStreamChunks h)\<rparr>"
    using inv(2,5) by (metis (full_types) old.unit.exhaust pending_chunks.surjective)
  show "answering g ms cs (flushStreamUpdates g h)"
  proof (cases "pend_reasoning (pendingStreamChunks h) = [] \<and> concat rest = []")
    case True
    then show ?thesis using inv
      by (intro answeringI [where rest = rest]) (simp_all add: flushStreamUpdates_def Let_def)
  next
    case False
    then show ?thesis using inv p
      by (intro answeringI [where rest = "[]" and queued = "queued @ [(rest, pend_reasoning (pendingStreamChunks h))]"])
        (auto simp: flushStreamUpdates_def Let_def enqueue_def queued_update_def no_chunks_def)
  qed
  show "pend_content (pendingStreamChunks (flushStreamUpdates g h)) = []"
    using inv by (simp add: flushStreamUpdates_def Let_def no_chunks_def)
qed

lemma pending_not_errored: "isAssistantMessagePending m \<Longrightarrow> msg_status m \<noteq> Some Errored"
  by (auto simp: isAssistantMessagePending_def)

lemma apply_pending_content:
  assumes "isAssistantMessagePending m" and "getMessageContent m = concat a"
    and "pend_content p = concat b" and "no_replay (a @ b @ post)"
  shows "getMessageContent (apply_pending p now m) = concat (a @ b)" "isAssistantMessagePending (apply_pending p now m)"
    "msg_from (apply_pending p now m) = msg_from m"
proof -
  let ?m = "if pend_reasoning p \<noteq> [] then applyStreamingChunk m ReasoningChunk (pend_reasoning p) now else m"
  have m: "getMessageContent ?m = concat a" "msg_status ?m \<noteq> Some Errored" "isAssistantMessagePending ?m"
    using assms(1,2) pending_not_errored [OF assms(1)]
    by (auto simp: apply_reasoning apply_status isAssistantMessagePending_def)
  have "getAppendableChunk (concat a) (concat b) = concat b" if "concat b \<noteq> []"
    using that no_replayD [of "[]" a b post] assms(4) by (cases b) (auto intro!: getAppendable_plain)
  then show "getMessageContent (apply_pending p now m) = concat (a @ b)"
    using m assms(3) by (auto simp: apply_pending_def Let_def apply_content)
  show "isAssistantMessagePending (apply_pending p now m)"
    using m by (auto simp: apply_pending_def Let_def apply_status isAssistantMessagePending_def)
  show "msg_from (apply_pending p now m) = msg_from m" by (simp add: apply_pending_def Let_def)
qed

lemma answering_run:
  assumes "answering g ms cs h" and "no_replay cs"
  shows "answering g ms cs (run_update now h)"
proof -
  from assms(1) obtain done_chunks queued rest m
    where inv: "requestGeneration h = g" "pend_generation (pendingStreamChunks h) = g"
      "cs = done_chunks @ concat (map fst queued) @ rest" "updates h = map (queued_update g) queued"
      "pend_content (pendingStreamChunks h) = concat rest" "conversation h = ms @ [m]"
      "getMessageContent m = concat done_chunks" "msg_from m = Assistant" "isAssistantMessagePending m"
    by (rule answeringE)
  show ?thesis
  proof (cases queued)
    case Nil
    then show ?thesis using assms(1) inv(4) by (simp add: run_update_def)
  next
    case (Cons q qs)
    let ?p = "\<lparr>pend_generation = g, pend_content = concat (fst q), pend_reasoning = snd q\<rparr>"
    have "no_replay (done_chunks @ fst q @ concat (map fst qs) @ rest)" using assms(2) inv(3) Cons by simp
    from apply_pending_content [OF inv(9,7) _ this, of ?p now] show ?thesis using inv Cons
      by (intro answeringI [where done_chunks = "done_chunks @ fst q" and queued = qs and rest = rest
            and m = "apply_pending ?p now m"])
        (simp_all add: run_update_def queued_update_def updateLastAssistantMessage_def)
  qed
qed

text \<open>A message of the stream that carries chunks.\<close>

fun chunk_event :: "nat \<Rightarrow> h_event \<Rightarrow> bool" where
  "chunk_event i (Net (SseMessage j (Some d))) = (j = i \<and> \<not> isStreamDoneMessage d \<and> parseStreamMessageUpdates d \<noteq> None)"
| "chunk_event i TimerFires = True"
| "chunk_event i (RunUpdate now) = True"
| "chunk_event i _ = False"

fun event_chunks :: "h_event \<Rightarrow> (chunk_type \<times> jstr) list" where
  "event_chunks (Net (SseMessage j (Some d))) = the (parseStreamMessageUpdates d)"
| "event_chunks _ = []"

definition answers :: "h_event list \<Rightarrow> jstr list" where
  "answers es = content_chunks (concat (map event_chunks es))"

lemma content_chunks_append: "content_chunks (us @ vs) = content_chunks us @ content_chunks vs"
  by (simp add: content_chunks_def)

lemma answering_callbacks:
  assumes "answering g ms cs h" and "no_replay (cs @ content_chunks us)"
  shows "answering g ms (cs @ content_chunks us) (callbacks t (map (\<lambda>(ty, c). (i, g, OnUpdate ty c)) us) h)"
  using assms
proof (induction us arbitrary: cs h)
  case Nil
  then show ?case by (simp add: content_chunks_def)
next
  case (Cons u us)
  obtain ty c where u: "u = (ty, c)" by (cases u)
  have split: "content_chunks (u # us) = content_chunks [(ty, c)] @ content_chunks us"
    using content_chunks_append [of "[u]" us] u by simp
  then have "no_replay (cs @ content_chunks [(ty, c)])"
    using Cons.prems(2) no_replay_prefix [of "cs @ content_chunks [(ty, c)]"] by simp
  from answering_update [OF Cons.prems(1) this]
  show ?case using Cons.IH [of "cs @ content_chunks [(ty, c)]"] Cons.prems(2) split u by simp
qed

lemma answering_stream: "answering g ms cs (h\<lparr>stream := c\<rparr>) = answering g ms cs h"
  by (simp add: answering_def)

lemma timer_answering: "answering g ms cs h \<Longrightarrow> answering g ms cs (timer_fires h)"
proof -
  assume inv: "answering g ms cs h"
  have "timer_fires h = h \<or> timer_fires h = flushStreamUpdates (requestGeneration h) h"
    by (auto simp: timer_fires_def flushStreamUpdates_def split: option.split)
  moreover have "requestGeneration h = g" using inv by (rule answeringE)
  ultimately show ?thesis using inv answering_flush(1) by fastforce
qed

text \<open>The event source of the request stays the live one.\<close>

definition source_of :: "nat \<Rightarrow> nat \<Rightarrow> handler \<Rightarrow> bool" where
  "source_of i g h \<longleftrightarrow> (\<exists>s. live i (stream h) = Some s \<and> src_tag s = g)"

lemma answering_step:
  assumes "answering g ms cs h" and "source_of i g h" and "chunk_event i e" and "no_replay (cs @ answers [e])"
  shows "answering g ms (cs @ answers [e]) (h_exec t e h) \<and> source_of i g (h_exec t e h)"
proof (cases "\<exists>d. e = Net (SseMessage i (Some d))")
  case True
  then obtain d us where e: "e = Net (SseMessage i (Some d))" "\<not> isStreamDoneMessage d" "parseStreamMessageUpdates d = Some us"
    using assms(3) by auto
  obtain s where s: "live i (stream h) = Some s" "src_tag s = g" using assms(2) by (auto simp: source_of_def)
  have "h_exec t e h = callbacks t (map (\<lambda>(ty, c). (i, g, OnUpdate ty c)) us) h"
    using e s by (simp add: deliver_reports_def on_message_def)
  then show ?thesis
    using answering_callbacks [OF assms(1), of us t i] assms(2,4) e(1,3) by (simp add: answers_def source_of_def)
next
  case False
  have "answers [e] = [] \<and> (e = TimerFires \<or> (\<exists>now. e = RunUpdate now))"
    using assms(3) False by (cases "(i, e)" rule: chunk_event.cases) (auto simp: answers_def content_chunks_def)
  moreover have "stream (timer_fires h) = stream h" "stream (run_update now h) = stream h" for now
    by (simp_all add: timer_fires_def run_update_def split: option.split list.split)
  ultimately show ?thesis
    using assms answering_run [OF assms(1)] timer_answering [OF assms(1)] by (auto simp: source_of_def)
qed

lemma answers_append: "answers (es @ fs) = answers es @ answers fs"
  by (simp add: answers_def content_chunks_append)

lemma answering_steps:
  assumes "answering g ms cs h" and "source_of i g h" and "\<And>e. e \<in> set es \<Longrightarrow> chunk_event i e"
    and "no_replay (cs @ answers es)"
  shows "answering g ms (cs @ answers es) (h_run t es h) \<and> source_of i g (h_run t es h)"
  using assms
proof (induction es arbitrary: cs h)
  case Nil
  then show ?case by (simp add: answers_def content_chunks_def)
next
  case (Cons e es)
  have split: "answers (e # es) = answers [e] @ answers es" using answers_append [of "[e]" es] by simp
  then have "no_replay (cs @ answers [e])"
    using Cons.prems(4) no_replay_prefix [of "cs @ answers [e]"] by simp
  from answering_step [OF Cons.prems(1,2) _ this] Cons.IH [of "cs @ answers [e]"]
  show ?case using Cons.prems(3,4) split by simp
qed

text \<open>Completion: the rest of the buffer is queued, then the end; running the queue finishes the message.\<close>

definition drain :: "(jstr \<Rightarrow> jstr) \<Rightarrow> jsnum \<Rightarrow> handler \<Rightarrow> handler" where
  "drain t now h = h_run t (replicate (length (updates h)) (RunUpdate now)) h"

lemma completed_content:
  "getMessageContent (completeAssistantMessage v now) =
     (if js_includes (getMessageContent v) think_open then visibleContent (parseThinkTags (getMessageContent v))
      else getMessageContent v)"
proof -
  have "getMessageContent (completeAssistantMessage v now) = getMessageContent (finalizeMessage v None now)"
    by (rule content_versions) (simp add: completeAssistantMessage_def)
  then show ?thesis by (simp add: finalize_content)
qed

lemma drain_complete:
  assumes "requestGeneration h = g" "updates h = map (queued_update g) queued @ [CompleteLast g]"
    "conversation h = ms @ [m]" "getMessageContent m = concat a" "msg_from m = Assistant"
    "isAssistantMessagePending m" "no_replay (a @ concat (map fst queued))"
  shows "\<exists>v. conversation (drain t now h) = ms @ [completeAssistantMessage v now] \<and> updates (drain t now h) = [] \<and>
    getMessageContent v = concat (a @ concat (map fst queued))"
  using assms
proof (induction queued arbitrary: h m a)
  case Nil
  have "\<not> isAssistantMessageFinal m" using Nil(6) by (auto simp: isAssistantMessagePending_def isAssistantMessageFinal_def)
  then show ?case using Nil
    by (auto simp: drain_def run_update_def updateLastAssistantMessage_def intro!: exI [of _ m])
next
  case (Cons q qs)
  let ?p = "\<lparr>pend_generation = g, pend_content = concat (fst q), pend_reasoning = snd q\<rparr>"
  let ?h = "run_update now h" and ?m = "apply_pending ?p now m"
  have "no_replay (a @ fst q @ concat (map fst qs))" using Cons.prems(7) by simp
  note m = apply_pending_content [OF Cons.prems(6,4) _ this, of ?p now]
  have h: "updates ?h = map (queued_update g) qs @ [CompleteLast g]" "conversation ?h = ms @ [?m]" "requestGeneration ?h = g"
    using Cons.prems by (simp_all add: run_update_def queued_update_def updateLastAssistantMessage_def)
  have "drain t now h = drain t now ?h" using Cons.prems(2) h(1) by (simp add: drain_def)
  then show ?case using Cons.IH [OF h(3,1,2) m(1) _ m(2)] m(3) Cons.prems(5,7) by simp
qed

text \<open>Sending a message, letting React catch up, and the headers of its request becoming available.\<close>

definition asked :: "(jstr \<Rightarrow> jstr) \<Rightarrow> playground_config \<Rightarrow> parameter_enabled \<Rightarrow> message list \<Rightarrow> jstr \<Rightarrow> jstr list
    \<Rightarrow> jsnum \<Rightarrow> handler \<Rightarrow> handler" where
  "asked t config enabled ms content ids now h =
     h_exec t (Net (HeadersReady (generation (stream h) + 1) True))
       (drain t now (h_exec t (UserSend config enabled ms content ids now) h))"

lemma drain_sets:
  assumes "updates h = us @ [SetMessages ms]"
  shows "drain t now h = h\<lparr>updates := [], conversation := ms\<rparr>"
  using assms
proof (induction us arbitrary: h)
  case Nil
  then show ?case by (simp add: drain_def run_update_def)
next
  case (Cons u us)
  have "updates (run_update now h) = us @ [SetMessages ms]" using Cons.prems by (simp add: run_update_def)
  from Cons.IH [OF this] show ?case using Cons.prems by (simp add: drain_def run_update_def)
qed

lemma live_opened:
  assumes "ctl_ok c"
  shows "\<exists>s. live (generation c + 1) (snd (headers_ready (generation c + 1) True (send_request tag c))) = Some s \<and> src_tag s = tag"
proof -
  let ?c = "send_request tag c"
  have gen: "generation ?c = generation c + 1" by (simp add: send_request_def Let_def)
  have "map_of (waiting c) (generation c + 1) = None"
    using assms unfolding ctl_ok_def by (metis not_None_eq Suc_eq_plus1 Suc_n_not_le_n)
  then have "map_of (waiting ?c) (generation c + 1) = Some tag"
    by (simp add: send_request_def Let_def map_add_def)
  then show ?thesis using gen by (simp add: headers_ready_cases live_def open_source_def isCurrent_def)
qed

lemma asked_answering:
  fixes t :: "jstr \<Rightarrow> jstr" and ms :: "message list" and content :: jstr and ids :: "jstr list" and now :: jsnum
    and config :: playground_config and enabled :: parameter_enabled and h :: handler
  assumes "handler_ok h" and "cfg_stream config"
  defines "h' \<equiv> asked t config enabled ms content ids now h"
  shows "answering (requestGeneration h + 1) (ms @ [createUserMessage (ids ! 0) (ids ! 1) content now]) [] h'"
    and "source_of (generation (stream h) + 1) (requestGeneration h + 1) h'"
proof -
  let ?next = "appendUserMessagePair ms content ids now" and ?g = "requestGeneration h + 1" and ?i = "generation (stream h) + 1"
  let ?sent = "sendStreamingChat config enabled ?next (enqueue (SetMessages ?next) h)"
  let ?r = "headers_ready ?i True (send_request ?g (stream h))"
  have sent: "requestGeneration ?sent = ?g" "stream ?sent = send_request ?g (stream h)"
    "pendingStreamChunks ?sent = no_chunks ?g" "updates ?sent = updates h @ [SetMessages ?next]"
    by (simp_all add: sendStreamingChat_def Let_def discardPendingStreamUpdates_def abort_current_def)
  have quiet: "fst ?r = []" by (simp add: headers_ready_cases split: option.split)
  have h': "h' = ?sent\<lparr>updates := [], conversation := ?next, stream := snd ?r\<rparr>"
    using drain_sets [OF sent(4), of t now] assms(2) quiet sent(2)
    by (simp add: h'_def asked_def handleSendMessage_def sendChat_def deliver_reports_def Let_def)
  show "answering ?g (ms @ [createUserMessage (ids ! 0) (ids ! 1) content now]) [] h'"
    using sent unfolding h' by (intro answeringI [where done_chunks = "[]" and queued = "[]" and rest = "[]"
          and m = "createLoadingAssistantMessage (ids ! 2) (ids ! 3) now"])
      (simp_all add: no_chunks_def appendUserMessagePair_def createLoadingAssistantMessage_def getMessageContent_def
        getCurrentVersion_def createMessageVersion_def isAssistantMessagePending_def)
  show "source_of ?i ?g h'"
    using live_opened [of "stream h" ?g] assms(1) unfolding h' source_of_def handler_ok_def by simp
qed

lemma drain_requesting: "isRequesting (drain t now h) = isRequesting h"
  unfolding drain_def using run_keeps_requesting [of "replicate (length (updates h)) (RunUpdate now)" t h] by simp

lemma answering_completes:
  fixes t :: "jstr \<Rightarrow> jstr" and now :: jsnum and h :: handler and i :: nat
  assumes "answering g ms cs h" and "source_of i g h" and "no_replay cs"
  defines "h' \<equiv> drain t now (h_exec t (Net (SseMessage i (Some (js ''[DONE]'')))) h)"
  shows "\<exists>v. conversation h' = ms @ [completeAssistantMessage v now] \<and> getMessageContent v = concat cs \<and> \<not> isRequesting h'"
proof -
  obtain s where s: "live i (stream h) = Some s" "src_tag s = g" using assms(2) by (auto simp: source_of_def)
  let ?closed = "h\<lparr>stream := end_request i (stream h)\<rparr>"
  let ?h = "flushStreamUpdates g ?closed"
  have inv: "answering g ms cs ?h" and empty: "pend_content (pendingStreamChunks ?h) = []"
    using answering_flush [of g ms cs ?closed] assms(1) by (simp_all add: answering_stream)
  have "requestGeneration h = g" using assms(1) by (rule answeringE)
  then have step: "h_exec t (Net (SseMessage i (Some (js ''[DONE]'')))) h = enqueue (CompleteLast g) (?h\<lparr>isRequesting := False\<rparr>)"
    using s by (simp add: deliver_reports_def on_message_def isStreamDoneMessage_def handleStreamComplete_def)
  from inv obtain done_chunks queued rest m
    where o: "requestGeneration ?h = g" "pend_generation (pendingStreamChunks ?h) = g"
      "cs = done_chunks @ concat (map fst queued) @ rest" "updates ?h = map (queued_update g) queued"
      "pend_content (pendingStreamChunks ?h) = concat rest" "conversation ?h = ms @ [m]"
      "getMessageContent m = concat done_chunks" "msg_from m = Assistant" "isAssistantMessagePending m"
    by (rule answeringE)
  have pre: "no_replay (done_chunks @ concat (map fst queued))"
    using assms(3) o(3) no_replay_prefix [of "done_chunks @ concat (map fst queued)" rest] by simp
  have "concat cs = concat (done_chunks @ concat (map fst queued))" using o(3,5) empty by simp
  then show ?thesis
    using drain_complete [of "enqueue (CompleteLast g) (?h\<lparr>isRequesting := False\<rparr>)" g queued ms m done_chunks t now]
      o(1,4,6-9) pre unfolding h'_def step by (auto simp: drain_requesting)
qed

text \<open>
  C5: The streamed answer is what the user sees in the end, however its delivery is interleaved.  After
  any history, the user sends a message with streaming on and the request starts; then messages with
  chunks, firings of the flush timer and runs of queued updates follow in any order, and the stream
  ends.  Provided no run of chunks repeats the run before it, the conversation is then the one sent
  plus one completed answer, whose text is the visible part of all content chunks in order, and the
  request indicator is off.
\<close>

theorem streamed_answer_shown:
  fixes t :: "jstr \<Rightarrow> jstr" and before es :: "h_event list" and ms0 ms :: "message list" and content :: jstr
    and ids :: "jstr list" and now later :: jsnum and config :: playground_config and enabled :: parameter_enabled
  defines "h \<equiv> h_run t before (initial_handler ms0)"
  defines "i \<equiv> generation (stream h) + 1"
  assumes "cfg_stream config" and "\<And>e. e \<in> set es \<Longrightarrow> chunk_event i e" and "no_replay (answers es)"
  defines "h' \<equiv> drain t later (h_run t (es @ [Net (SseMessage i (Some (js ''[DONE]'')))])
      (asked t config enabled ms content ids now h))"
  shows "\<exists>m. conversation h' = ms @ [createUserMessage (ids ! 0) (ids ! 1) content now, m] \<and>
    getMessageContent m = (if js_includes (concat (answers es)) think_open
      then visibleContent (parseThinkTags (concat (answers es))) else concat (answers es)) \<and>
    msg_status m = Some Completed \<and> \<not> isRequesting h'"
proof -
  have ok: "handler_ok h" by (simp add: h_def run_ok initial_ok)
  note start = asked_answering [OF ok assms(3), where t = t and enabled = enabled and ms = ms and content = content and ids = ids and now = now, folded i_def]
  from answering_steps [OF start, where es = es and t = t] assms(4,5)
  have "answering (requestGeneration h + 1) (ms @ [createUserMessage (ids ! 0) (ids ! 1) content now]) (answers es)
      (h_run t es (asked t config enabled ms content ids now h))"
    and "source_of i (requestGeneration h + 1) (h_run t es (asked t config enabled ms content ids now h))" by simp_all
  from answering_completes [OF this assms(5), where t = t and now = later]
  obtain v where "conversation h' = ms @ [createUserMessage (ids ! 0) (ids ! 1) content now, completeAssistantMessage v later]"
    and "getMessageContent v = concat (answers es)" and "\<not> isRequesting h'" by (auto simp: h'_def)
  then show ?thesis by (auto simp: completed_content) (simp_all add: completeAssistantMessage_def)
qed

definition sample_answer :: "jstr \<Rightarrow> h_event" where
  "sample_answer x = Net (SseMessage 1 (Some (js ''{\"choices\":[{\"delta\":{\"content\":\"'' @ x @ js ''\"}}]}'')))"

theorem streamed_answer_shown_witness:
  "\<exists>m. conversation (drain (\<lambda>s. s) (of_i 9) (h_run (\<lambda>s. s)
       ([sample_answer (js ''Hel''), TimerFires, sample_answer (js ''lo''), RunUpdate (of_i 2)] @
        [Net (SseMessage 1 (Some (js ''[DONE]'')))])
       (asked (\<lambda>s. s) DEFAULT_CONFIG DEFAULT_PARAMETER_ENABLED [] (js ''hi'') [js ''a'', js ''b'', js ''c'', js ''d'']
          (of_i 1) (h_run (\<lambda>s. s) [] (initial_handler []))))) =
     [createUserMessage (js ''a'') (js ''b'') (js ''hi'') (of_i 1), m] \<and> getMessageContent m = js ''Hello''"
proof -
  let ?es = "[sample_answer (js ''Hel''), TimerFires, sample_answer (js ''lo''), RunUpdate (of_i 2)]"
  let ?h = "h_run (\<lambda>s. s) [] (initial_handler [])"
  have gen: "generation (stream ?h) = 0" by code_simp
  have "list_all (chunk_event 1) ?es" by code_simp
  then have ev: "chunk_event (generation (stream ?h) + 1) e" if "e \<in> set ?es" for e
    using that gen by (auto simp: list_all_iff)
  have said: "answers ?es = [js ''Hel'', js ''lo'']" by code_simp
  have plain: "no_replay (answers ?es)" unfolding said by (rule no_replay_distinct_heads) (simp_all add: js_def)
  have str: "cfg_stream DEFAULT_CONFIG" and vis: "\<not> js_includes (concat (answers ?es)) think_open"
    and cat: "concat (answers ?es) = js ''Hello''" by code_simp+
  from streamed_answer_shown [OF str ev plain, of "of_i 9" DEFAULT_PARAMETER_ENABLED "[]" "js ''hi''"
      "[js ''a'', js ''b'', js ''c'', js ''d'']" "of_i 1"] vis cat
  show ?thesis using gen by auto
qed

end
