(* ===== verification/PlaygroundStorage.thy ===== *)
theory PlaygroundStorage
  imports ChatHandler
begin

text \<open>
  Persistence of the playground: \<open>lib/storage/storage.ts\<close>, \<open>lib/storage/storage-schema.ts\<close>,
  \<open>lib/state/playground-state-utils.ts\<close> and \<open>hooks/use-playground-state.ts\<close> under
  \<open>src/web/src/features/playground\<close>.  Schema validation is zod's: \<open>parse\<close> is a parameter, and what the
  code relies on is the contract \<open>schema_parser\<close> over the schemas the source declares.  Local storage is
  an association list; \<open>fits\<close> says which contents the browser accepts, a refused \<open>setItem\<close> throws.
\<close>

section \<open>Schemas\<close>

datatype schema =
    ZString
  | ZNumber
  | ZBoolean
  | ZEnum "jstr list"
  | ZNullable schema
  | ZArray nat schema
  | ZObject "(jstr \<times> bool \<times> schema) list"

type_synonym parser = "schema \<Rightarrow> jsval \<Rightarrow> jsval option"

definition playgroundConfigSchema :: schema where
  "playgroundConfigSchema = ZObject
     [(js ''model'', True, ZString), (js ''group'', True, ZString), (js ''temperature'', True, ZNumber),
      (js ''top_p'', True, ZNumber), (js ''max_tokens'', True, ZNumber), (js ''frequency_penalty'', True, ZNumber),
      (js ''presence_penalty'', True, ZNumber), (js ''seed'', True, ZNullable ZNumber), (js ''stream'', True, ZBoolean)]"

definition parameterEnabledSchema :: schema where
  "parameterEnabledSchema = ZObject
     [(js ''temperature'', True, ZBoolean), (js ''top_p'', True, ZBoolean), (js ''max_tokens'', True, ZBoolean),
      (js ''frequency_penalty'', True, ZBoolean), (js ''presence_penalty'', True, ZBoolean), (js ''seed'', True, ZBoolean)]"

definition messageRoleSchema :: schema where
  "messageRoleSchema = ZEnum [js ''user'', js ''assistant'', js ''system'']"

definition messageStatusSchema :: schema where
  "messageStatusSchema = ZEnum [js ''loading'', js ''streaming'', js ''complete'', js ''error'']"

definition messageVersionSchema :: schema where
  "messageVersionSchema = ZObject [(js ''id'', False, ZString), (js ''content'', False, ZString)]"

definition sourceSchema :: schema where
  "sourceSchema = ZObject [(js ''href'', False, ZString), (js ''title'', False, ZString)]"

definition reasoningSchema :: schema where
  "reasoningSchema = ZObject
     [(js ''content'', False, ZString), (js ''duration'', False, ZNumber), (js ''startedAt'', True, ZNumber),
      (js ''completedAt'', True, ZNumber), (js ''durationMs'', True, ZNumber)]"

definition messageSchema :: schema where
  "messageSchema = ZObject
     [(js ''key'', False, ZString), (js ''from'', False, messageRoleSchema),
      (js ''versions'', False, ZArray 1 messageVersionSchema), (js ''createdAt'', True, ZNumber),
      (js ''startedAt'', True, ZNumber), (js ''completedAt'', True, ZNumber), (js ''durationMs'', True, ZNumber),
      (js ''sources'', True, ZArray 0 sourceSchema), (js ''reasoning'', True, reasoningSchema),
      (js ''isReasoningStreaming'', True, ZBoolean), (js ''isReasoningComplete'', True, ZBoolean),
      (js ''isContentComplete'', True, ZBoolean), (js ''status'', True, messageStatusSchema),
      (js ''errorCode'', True, ZNullable ZString)]"

definition messagesSchema :: schema where
  "messagesSchema = ZArray 0 messageSchema"

text \<open>
  Values that are exactly of a schema: the declared keys in the declared order, optional ones possibly
  absent, nothing else.
\<close>

fun conforms :: "schema \<Rightarrow> jsval \<Rightarrow> bool"
  and fields_conform :: "(jstr \<times> bool \<times> schema) list \<Rightarrow> jsobj \<Rightarrow> bool" where
  "conforms ZString v = is_string v"
| "conforms ZNumber v = (is_number v \<and> isFinite (num_of v))"
| "conforms ZBoolean v = is_boolean v"
| "conforms (ZEnum xs) v = (is_string v \<and> str_of v \<in> set xs)"
| "conforms (ZNullable s) v = (v = JNull \<or> conforms s v)"
| "conforms (ZArray n s) v = (case v of JArr xs \<Rightarrow> n \<le> length xs \<and> (\<forall>x \<in> set xs. conforms s x) | _ \<Rightarrow> False)"
| "conforms (ZObject fs) v = (case v of JObj ps \<Rightarrow> fields_conform fs ps | _ \<Rightarrow> False)"
| "fields_conform [] ps = (ps = [])"
| "fields_conform ((k, optional, s) # fs) ps = (case ps of
     (k', v) # rest \<Rightarrow> (if k' = k then conforms s v \<and> fields_conform fs rest else optional \<and> fields_conform fs ps)
   | [] \<Rightarrow> optional \<and> fields_conform fs [])"

text \<open>No object schema declares a key twice.\<close>

fun well_keyed :: "schema \<Rightarrow> bool" where
  "well_keyed (ZNullable s) = well_keyed s"
| "well_keyed (ZArray n s) = well_keyed s"
| "well_keyed (ZObject fs) = (distinct (map fst fs) \<and> (\<forall>(k, optional, s) \<in> set fs. well_keyed s))"
| "well_keyed _ = True"

text \<open>
  The contract of \<open>parse\<close>: a value that is exactly of the schema is returned as it is, and what is
  returned is exactly of the schema.
\<close>

locale schema_parser =
  fixes parse :: parser
  assumes parse_exact: "well_keyed s \<Longrightarrow> conforms s v \<Longrightarrow> parse s v = Some v"
    and parse_result: "well_keyed s \<Longrightarrow> parse s v = Some w \<Longrightarrow> conforms s w"

text \<open>A parser that keeps the contract: optional keys may be absent or undefined, unknown keys are stripped.\<close>

definition traverse :: "('a \<Rightarrow> 'b option) \<Rightarrow> 'a list \<Rightarrow> 'b list option" where
  "traverse f xs = (let ys = map f xs in if None \<in> set ys then None else Some (map the ys))"

lemma traverse_cong [fundef_cong]:
  "xs = ys \<Longrightarrow> (\<And>x. x \<in> set ys \<Longrightarrow> f x = g x) \<Longrightarrow> traverse f xs = traverse g ys"
  by (simp add: traverse_def cong: map_cong)

fun zod_parse :: parser
  and zod_fields :: "(jstr \<times> bool \<times> schema) list \<Rightarrow> jsobj \<Rightarrow> jsobj option" where
  "zod_parse ZString v = (if is_string v then Some v else None)"
| "zod_parse ZNumber v = (if is_number v \<and> isFinite (num_of v) then Some v else None)"
| "zod_parse ZBoolean v = (if is_boolean v then Some v else None)"
| "zod_parse (ZEnum xs) v = (if is_string v \<and> str_of v \<in> set xs then Some v else None)"
| "zod_parse (ZNullable s) v = (if v = JNull then Some v else zod_parse s v)"
| "zod_parse (ZArray n s) v = (case v of
     JArr xs \<Rightarrow> (if n \<le> length xs then map_option JArr (traverse (zod_parse s) xs) else None)
   | _ \<Rightarrow> None)"
| "zod_parse (ZObject fs) v = (case v of JObj ps \<Rightarrow> map_option JObj (zod_fields fs ps) | _ \<Rightarrow> None)"
| "zod_fields [] ps = Some []"
| "zod_fields ((k, optional, s) # fs) ps = (case zod_fields fs ps of
     None \<Rightarrow> None
   | Some rest \<Rightarrow>
     (if obj_get ps k = JUndef then (if optional then Some rest else None)
      else case zod_parse s (obj_get ps k) of None \<Rightarrow> None | Some v \<Rightarrow> Some ((k, v) # rest)))"

lemma traverse_id: "(\<And>x. x \<in> set xs \<Longrightarrow> f x = Some x) \<Longrightarrow> traverse f xs = Some xs"
  by (auto simp: traverse_def Let_def comp_def map_idI)

lemma conforms_defined: "conforms s JUndef = False"
  by (induction s) simp_all

lemma fields_conform_keys: "fields_conform fs ps \<Longrightarrow> fst ` set ps \<subseteq> fst ` set fs"
proof (induction fs arbitrary: ps)
  case (Cons f fs)
  obtain k opt s where f: "f = (k, opt, s)" by (cases f) auto
  show ?case
  proof (cases ps)
    case ps: (Cons p rest)
    obtain k' v where p: "p = (k', v)" by (cases p)
    show ?thesis
    proof (cases "k' = k")
      case True
      then have "fst ` set rest \<subseteq> fst ` set fs" using Cons.IH [of rest] Cons.prems f ps p by simp
      then show ?thesis using True f ps p by auto
    next
      case False
      then have "fst ` set ps \<subseteq> fst ` set fs" using Cons.IH [of ps] Cons.prems f ps p by simp
      then show ?thesis by auto
    qed
  qed simp
qed simp

lemma zod_fields_exact:
  assumes "distinct (map fst fs)" and "fields_conform fs rest" and "fst ` set pre \<inter> fst ` set fs = {}"
    and "\<And>k optional s v. (k, optional, s) \<in> set fs \<Longrightarrow> conforms s v \<Longrightarrow> zod_parse s v = Some v"
  shows "zod_fields fs (pre @ rest) = Some rest"
  using assms
proof (induction fs arbitrary: pre rest)
  case (Cons f fs)
  obtain k opt s where f: "f = (k, opt, s)" by (cases f) auto
  have tail: "zod_parse s v = Some v" if "(k, optional, s) \<in> set fs" "conforms s v" for k optional s v
    using Cons.prems(4) that by (meson list.set_intros(2))
  show ?case
  proof (cases "\<exists>v ps. rest = (k, v) # ps")
    case True
    then obtain v ps where ps: "rest = (k, v) # ps" by blast
    have cf: "conforms s v" "fields_conform fs ps" using Cons.prems(2) f ps by auto
    have "zod_fields fs ((pre @ [(k, v)]) @ ps) = Some ps"
      using Cons.IH [of ps "pre @ [(k, v)]", OF _ cf(2) _ tail] Cons.prems(1,3) f by auto
    moreover have "map_of pre k = None" using Cons.prems(3) f by (auto simp: map_of_eq_None_iff)
    then have "map_of (pre @ rest) k = Some v" using ps by (simp add: map_add_def)
    moreover have "v \<noteq> JUndef" "zod_parse s v = Some v"
      using cf(1) Cons.prems(4) [of k opt s v] f conforms_defined [of s] by auto
    ultimately show ?thesis using ps f by (simp add: obj_get_def)
  next
    case False
    then have opt: "opt" "fields_conform fs rest" using Cons.prems(2) f by (auto split: list.splits if_splits)
    have "zod_fields fs (pre @ rest) = Some rest"
      using Cons.IH [of rest pre, OF _ opt(2) _ tail] Cons.prems(1,3) f by auto
    moreover have "k \<notin> fst ` set rest" "k \<notin> fst ` set pre"
      using fields_conform_keys [OF opt(2)] Cons.prems(1,3) f by auto
    then have "map_of pre k = None" "map_of rest k = None" by (simp_all add: map_of_eq_None_iff)
    then have "obj_get (pre @ rest) k = JUndef" by (simp add: obj_get_def map_add_def)
    ultimately show ?thesis using opt f by simp
  qed
qed simp

lemma zod_fields_result:
  assumes "zod_fields fs ps = Some qs" and "distinct (map fst fs)"
    and "\<And>k optional s v w. (k, optional, s) \<in> set fs \<Longrightarrow> zod_parse s v = Some w \<Longrightarrow> conforms s w"
  shows "fields_conform fs qs"
  using assms
proof (induction fs arbitrary: qs)
  case (Cons f fs)
  obtain k opt s where f: "f = (k, opt, s)" by (cases f) auto
  obtain rest where rest: "zod_fields fs ps = Some rest" using Cons.prems(1) f by (auto split: option.splits)
  have ok: "fields_conform fs rest" by (rule Cons.IH [OF rest]) (use Cons.prems(2) in simp, rule Cons.prems(3), auto)
  show ?case
  proof (cases "obj_get ps k = JUndef")
    case True
    then have "opt" "qs = rest" using Cons.prems(1) f rest by (auto split: if_splits)
    moreover have "k \<notin> fst ` set rest" using fields_conform_keys [OF ok] Cons.prems(2) f by auto
    ultimately show ?thesis using ok f by (auto split: list.split)
  next
    case False
    then obtain v where "zod_parse s (obj_get ps k) = Some v" "qs = (k, v) # rest"
      using Cons.prems(1) f rest by (auto split: option.splits)
    then show ?thesis using ok f Cons.prems(3) [of k opt s "obj_get ps k" v] by simp
  qed
qed simp

lemma traverse_Some: "traverse f xs = Some ys \<Longrightarrow> length ys = length xs \<and> (\<forall>y \<in> set ys. \<exists>x. f x = Some y)"
  by (auto simp: traverse_def Let_def split: if_splits) (metis imageI option.collapse)

lemma zod_exact: "well_keyed s \<Longrightarrow> conforms s v \<Longrightarrow> zod_parse s v = Some v"
proof (induction s arbitrary: v)
  case (ZArray n s)
  then show ?case by (cases v) (auto intro: traverse_id)
next
  case (ZObject fs)
  then obtain ps where ps: "v = JObj ps" "fields_conform fs ps" by (cases v) auto
  have "zod_fields fs ([] @ ps) = Some ps"
    by (rule zod_fields_exact) (use ZObject ps in auto)
  then show ?case using ps by simp
qed auto

lemma zod_result: "well_keyed s \<Longrightarrow> zod_parse s v = Some w \<Longrightarrow> conforms s w"
proof (induction s arbitrary: v w)
  case (ZArray n s)
  then obtain xs ys where "v = JArr xs" "n \<le> length xs" "traverse (zod_parse s) xs = Some ys" "w = JArr ys"
    by (cases v) (auto split: if_splits)
  then show ?case using traverse_Some [of "zod_parse s" xs ys] ZArray by auto
next
  case (ZObject fs)
  then obtain ps qs where ps: "v = JObj ps" "w = JObj qs" "zod_fields fs ps = Some qs" by (cases v) auto
  have "fields_conform fs qs"
    by (rule zod_fields_result [OF ps(3)]) (use ZObject in auto)
  then show ?case using ps by simp
qed (auto split: if_splits)

interpretation zod: schema_parser zod_parse
  by unfold_locales (auto intro: zod_exact zod_result)

section \<open>Messages as values\<close>

fun role_text :: "message_role \<Rightarrow> jstr" where
  "role_text User = js ''user''"
| "role_text Assistant = js ''assistant''"
| "role_text SystemRole = js ''system''"

fun status_text :: "message_status \<Rightarrow> jstr" where
  "status_text Loading = js ''loading''"
| "status_text Streaming = js ''streaming''"
| "status_text Completed = js ''complete''"
| "status_text Errored = js ''error''"

definition field :: "string \<Rightarrow> ('a \<Rightarrow> jsval) \<Rightarrow> 'a option \<Rightarrow> jsobj" where
  "field k f x = (case x of None \<Rightarrow> [] | Some a \<Rightarrow> [(js k, f a)])"

definition version_value :: "message_version \<Rightarrow> jsval" where
  "version_value v = JObj [(js ''id'', JStr (version_id v)), (js ''content'', JStr (version_content v))]"

definition source_value :: "jstr \<times> jstr \<Rightarrow> jsval" where
  "source_value s = JObj [(js ''href'', JStr (fst s)), (js ''title'', JStr (snd s))]"

definition reasoning_value :: "reasoning_state \<Rightarrow> jsval" where
  "reasoning_value r = JObj ([(js ''content'', JStr (r_content r)), (js ''duration'', JNum (r_duration r))] @
     field ''startedAt'' JNum (r_startedAt r) @ field ''completedAt'' JNum (r_completedAt r) @
     field ''durationMs'' JNum (r_durationMs r))"

fun nullable_text :: "jstr option \<Rightarrow> jsval" where
  "nullable_text None = JNull"
| "nullable_text (Some s) = JStr s"

definition message_value :: "message \<Rightarrow> jsval" where
  "message_value m = JObj ([(js ''key'', JStr (msg_key m)), (js ''from'', JStr (role_text (msg_from m))),
      (js ''versions'', JArr (map version_value (versions m)))] @
     field ''createdAt'' JNum (createdAt m) @ field ''startedAt'' JNum (startedAt m) @
     field ''completedAt'' JNum (completedAt m) @ field ''durationMs'' JNum (durationMs m) @
     field ''sources'' (\<lambda>ss. JArr (map source_value ss)) (sources m) @ field ''reasoning'' reasoning_value (reasoning m) @
     field ''isReasoningStreaming'' JBool (isReasoningStreaming m) @
     field ''isReasoningComplete'' JBool (isReasoningComplete m) @ field ''isContentComplete'' JBool (isContentComplete m) @
     field ''status'' (\<lambda>x. JStr (status_text x)) (msg_status m) @ field ''errorCode'' nullable_text (errorCode m))"

definition messages_value :: "message list \<Rightarrow> jsval" where
  "messages_value ms = JArr (map message_value ms)"

text \<open>The cast of a validated value to \<open>Message[]\<close>.\<close>

definition given :: "(jsval \<Rightarrow> 'a) \<Rightarrow> jsval \<Rightarrow> 'a option" where
  "given f v = (if v = JUndef then None else Some (f v))"

definition role_of :: "jstr \<Rightarrow> message_role" where
  "role_of s = (if s = js ''user'' then User else if s = js ''assistant'' then Assistant else SystemRole)"

definition status_of :: "jstr \<Rightarrow> message_status" where
  "status_of s = (if s = js ''loading'' then Loading else if s = js ''streaming'' then Streaming
     else if s = js ''complete'' then Completed else Errored)"

fun items_of :: "jsval \<Rightarrow> jsval list" where
  "items_of (JArr xs) = xs"
| "items_of _ = []"

definition to_version :: "jsval \<Rightarrow> message_version" where
  "to_version v = \<lparr>version_id = str_of (js_get v (js ''id'')), version_content = str_of (js_get v (js ''content''))\<rparr>"

definition to_source :: "jsval \<Rightarrow> jstr \<times> jstr" where
  "to_source v = (str_of (js_get v (js ''href'')), str_of (js_get v (js ''title'')))"

definition to_reasoning :: "jsval \<Rightarrow> reasoning_state" where
  "to_reasoning v = \<lparr>r_content = str_of (js_get v (js ''content'')), r_duration = num_of (js_get v (js ''duration'')),
     r_startedAt = given num_of (js_get v (js ''startedAt'')), r_completedAt = given num_of (js_get v (js ''completedAt'')),
     r_durationMs = given num_of (js_get v (js ''durationMs''))\<rparr>"

definition to_nullable :: "jsval \<Rightarrow> jstr option" where
  "to_nullable v = (if v = JNull then None else Some (str_of v))"

definition to_message :: "jsval \<Rightarrow> message" where
  "to_message v = \<lparr>msg_key = str_of (js_get v (js ''key'')), msg_from = role_of (str_of (js_get v (js ''from''))),
     versions = map to_version (items_of (js_get v (js ''versions''))),
     createdAt = given num_of (js_get v (js ''createdAt'')), startedAt = given num_of (js_get v (js ''startedAt'')),
     completedAt = given num_of (js_get v (js ''completedAt'')), durationMs = given num_of (js_get v (js ''durationMs'')),
     sources = given (\<lambda>x. map to_source (items_of x)) (js_get v (js ''sources'')),
     reasoning = given to_reasoning (js_get v (js ''reasoning'')),
     isReasoningStreaming = given bool_of (js_get v (js ''isReasoningStreaming'')),
     isReasoningComplete = given bool_of (js_get v (js ''isReasoningComplete'')),
     isContentComplete = given bool_of (js_get v (js ''isContentComplete'')),
     msg_status = given (\<lambda>x. status_of (str_of x)) (js_get v (js ''status'')),
     errorCode = given to_nullable (js_get v (js ''errorCode''))\<rparr>"

definition to_messages :: "jsval \<Rightarrow> message list" where
  "to_messages v = map to_message (items_of v)"

section \<open>Local storage\<close>

type_synonym local_storage = "(jstr \<times> jstr) list"

definition CONFIG_KEY :: jstr where "CONFIG_KEY = js ''playground_config''"
definition MESSAGES_KEY :: jstr where "MESSAGES_KEY = js ''playground_messages''"
definition PARAMETER_ENABLED_KEY :: jstr where "PARAMETER_ENABLED_KEY = js ''playground_parameter_enabled''"

definition STORAGE_VERSION :: int where "STORAGE_VERSION = 1"
definition MAX_STORED_MESSAGES :: nat where "MAX_STORED_MESSAGES = 100"
definition MAX_STORED_MESSAGES_BYTES :: nat where "MAX_STORED_MESSAGES_BYTES = 1024 * 1024"
definition MAX_LOADED_MESSAGES_CHARS :: nat where "MAX_LOADED_MESSAGES_CHARS = 120000"
definition MAX_LOADED_MESSAGE_CHARS :: nat where "MAX_LOADED_MESSAGE_CHARS = 40000"

text \<open>The value stored under a key, \<open>JNull\<close> when there is none, \<open>None\<close> when the text is not JSON.\<close>

definition readStoredValue :: "jstr \<Rightarrow> local_storage \<Rightarrow> jsval option" where
  "readStoredValue key st = (case map_of st key of
     None \<Rightarrow> Some JNull
   | Some saved \<Rightarrow> (if saved = [] then Some JNull else json_parse saved))"

definition readStoredMessagesValue :: "local_storage \<Rightarrow> jsval option \<times> local_storage" where
  "readStoredMessagesValue st = (case map_of st MESSAGES_KEY of
     None \<Rightarrow> (Some JNull, st)
   | Some saved \<Rightarrow>
     (if saved = [] then (Some JNull, st)
      else if length saved > MAX_STORED_MESSAGES_BYTES then (Some JNull, AList.delete MESSAGES_KEY st)
      else (json_parse saved, st)))"

definition unwrapStoredValue :: "jsval \<Rightarrow> jsval" where
  "unwrapStoredValue v = (case v of
     JObj ps \<Rightarrow> (if js ''version'' \<in> fst ` set ps \<and> js ''data'' \<in> fst ` set ps then obj_get ps (js ''data'') else v)
   | _ \<Rightarrow> v)"

definition envelope :: "jsval \<Rightarrow> jsval" where
  "envelope v = JObj [(js ''version'', JNum (of_i STORAGE_VERSION)), (js ''data'', v)]"

definition writeStoredValue :: "(local_storage \<Rightarrow> bool) \<Rightarrow> jstr \<Rightarrow> jsval \<Rightarrow> local_storage \<Rightarrow> local_storage option" where
  "writeStoredValue fits key v st =
     (let st' = AList.update key (json_text (envelope v)) st in if fits st' then Some st' else None)"

text \<open>A write whose exceptions are logged and dropped.\<close>

definition try_write :: "(local_storage \<Rightarrow> bool) \<Rightarrow> jstr \<Rightarrow> jsval option \<Rightarrow> local_storage \<Rightarrow> local_storage" where
  "try_write fits key v st = (case v of
     None \<Rightarrow> st
   | Some w \<Rightarrow> (case writeStoredValue fits key w st of None \<Rightarrow> st | Some st' \<Rightarrow> st'))"

section \<open>Limits\<close>

definition trimMessages :: "message list \<Rightarrow> message list" where
  "trimMessages ms = (if length ms \<le> MAX_STORED_MESSAGES then ms else drop (length ms - MAX_STORED_MESSAGES) ms)"

definition getMessageSize :: "message \<Rightarrow> nat" where
  "getMessageSize m = sum_list (map (\<lambda>v. length (version_content v)) (versions m)) +
     (case reasoning m of None \<Rightarrow> 0 | Some r \<Rightarrow> length (r_content r))"

definition TRUNCATED_CONTENT_SUFFIX :: jstr where
  "TRUNCATED_CONTENT_SUFFIX = [10, 10] @ js ''[...]''"

definition truncateText :: "jstr \<Rightarrow> nat \<Rightarrow> jstr" where
  "truncateText s maxLength =
     (if length s \<le> maxLength then s
      else if maxLength \<le> length TRUNCATED_CONTENT_SUFFIX then take maxLength s
      else take (maxLength - length TRUNCATED_CONTENT_SUFFIX) s @ TRUNCATED_CONTENT_SUFFIX)"

text \<open>The loop of \<open>trimMessagesByContentSize\<close>, from the last message backwards.\<close>

fun size_loop :: "nat \<Rightarrow> message list \<Rightarrow> message list \<Rightarrow> message list" where
  "size_loop totalSize result [] = result"
| "size_loop totalSize result (m # ms) =
     (if result \<noteq> [] \<and> totalSize + getMessageSize m > MAX_LOADED_MESSAGES_CHARS then result
      else size_loop (totalSize + getMessageSize m) (m # result) ms)"

definition trimMessagesByContentSize :: "message list \<Rightarrow> message list" where
  "trimMessagesByContentSize ms = size_loop 0 [] (rev ms)"

section \<open>Repeated sections\<close>

definition is_line_end :: "jchar \<Rightarrow> bool" where
  "is_line_end c \<longleftrightarrow> c = 10 \<or> c = 13 \<or> c = 8232 \<or> c = 8233"

text \<open>
  The rest of \<open>/^#{2,6}\s+\d+\.\s+.+$/\<close> after the dot: the length of a match of \<open>\s+.+$\<close>.  White space is
  taken greedily; only when it reaches the end of the text is some given back, to the last place from
  which a character that does not end the line is left.
\<close>

definition match_title :: "jstr \<Rightarrow> nat option" where
  "match_title s =
     (let n = length (takeWhile is_ws s);
          js = filter (\<lambda>j. j < length s \<and> \<not> is_line_end (s ! j)) [1..<n + 1]
      in if n = 0 \<or> js = [] then None
         else Some (last js + length (takeWhile (\<lambda>c. \<not> is_line_end c) (drop (last js) s))))"

definition match_heading :: "jstr \<Rightarrow> nat option" where
  "match_heading s =
     (let hashes = length (takeWhile (\<lambda>c. c = 35) s); s1 = drop hashes s;
          gap = length (takeWhile is_ws s1); s2 = drop gap s1;
          digits = length (takeWhile is_digit s2); s3 = drop digits s2
      in if 2 \<le> hashes \<and> hashes \<le> 6 \<and> 0 < gap \<and> 0 < digits \<and> s3 \<noteq> [] \<and> hd s3 = 46
         then map_option (\<lambda>n. hashes + gap + digits + 1 + n) (match_title (tl s3)) else None)"

record occurrence =
  heading :: jstr
  occ_index :: nat

text \<open>\<open>matchAll\<close> from position \<open>i\<close>; \<open>start\<close> says that a line starts there.\<close>

function section_matches :: "bool \<Rightarrow> nat \<Rightarrow> jstr \<Rightarrow> occurrence list" where
  "section_matches start i [] = []"
| "section_matches start i (c # s) =
     (case (if start then match_heading (c # s) else None) of
        Some n \<Rightarrow> \<lparr>heading = take n (c # s), occ_index = i\<rparr> # section_matches False (i + n) (drop (n - 1) s)
      | None \<Rightarrow> section_matches (is_line_end c) (i + 1) s)"
  by pat_completeness auto
termination by (relation "measure (\<lambda>(start, i, s). length s)") auto

definition getSectionOccurrences :: "jstr \<Rightarrow> occurrence list" where
  "getSectionOccurrences s = section_matches True 0 s"

definition getHeadingCounts :: "occurrence list \<Rightarrow> (jstr \<times> nat) list" where
  "getHeadingCounts os = foldl (\<lambda>counts occ.
     AList.update (heading occ) ((case map_of counts (heading occ) of None \<Rightarrow> 0 | Some n \<Rightarrow> n) + 1) counts) [] os"

fun last_repeated :: "(jstr \<times> nat) list \<Rightarrow> jstr list \<Rightarrow> occurrence list \<Rightarrow> nat list" where
  "last_repeated counts seen [] = []"
| "last_repeated counts seen (occ # os) =
     (if (case map_of counts (heading occ) of None \<Rightarrow> 0 | Some n \<Rightarrow> n) < 3 \<or> heading occ \<in> set seen
      then last_repeated counts seen os
      else occ_index occ # last_repeated counts (heading occ # seen) os)"

definition findLastRepeatedSectionRunStart :: "jstr \<Rightarrow> nat option" where
  "findLastRepeatedSectionRunStart s =
     (let os = getSectionOccurrences s; is = last_repeated (getHeadingCounts os) [] (rev os)
      in if is = [] then None else Some (Min (set is)))"

definition collapseRepeatedSectionSnapshots :: "jstr \<Rightarrow> jstr" where
  "collapseRepeatedSectionSnapshots s =
     (if length s < 2000 then s
      else case findLastRepeatedSectionRunStart s of None \<Rightarrow> s | Some i \<Rightarrow> drop i s)"

section \<open>Loading and saving\<close>

definition load_version :: "message_version \<Rightarrow> message_version" where
  "load_version v = v\<lparr>version_content :=
     truncateText (collapseRepeatedSectionSnapshots (version_content v)) MAX_LOADED_MESSAGE_CHARS\<rparr>"

definition load_reasoning :: "reasoning_state \<Rightarrow> reasoning_state" where
  "load_reasoning r = r\<lparr>r_content := truncateText (r_content r) MAX_LOADED_MESSAGE_CHARS\<rparr>"

definition normalizeStoredMessageForLoad :: "jsnum \<Rightarrow> message \<Rightarrow> message" where
  "normalizeStoredMessageForLoad now m =
     (let normalized = m\<lparr>versions := map load_version (versions m), reasoning := map_option load_reasoning (reasoning m)\<rparr>;
          hasContent = hasMessageContent normalized;
          hasReasoning = (case reasoning normalized of None \<Rightarrow> False | Some r \<Rightarrow> js_trim (r_content r) \<noteq> [])
      in if \<not> isAssistantMessagePending normalized then normalized
         else if \<not> hasContent \<and> \<not> hasReasoning then normalized
         else completeAssistantTiming
           ((finalizeMessage normalized None now)\<lparr>msg_status := Some Completed, isReasoningStreaming := Some False\<rparr>)
           (case opt_else (completedAt normalized) (opt_else (Option.bind (reasoning normalized) r_completedAt)
              (opt_else (startedAt normalized) (createdAt normalized))) of None \<Rightarrow> now | Some c \<Rightarrow> c))"

definition saveMessages :: "parser \<Rightarrow> (local_storage \<Rightarrow> bool) \<Rightarrow> message list \<Rightarrow> local_storage \<Rightarrow> local_storage" where
  "saveMessages parse fits ms st =
     try_write fits MESSAGES_KEY (parse messagesSchema (messages_value (trimMessages ms))) st"

text \<open>
  What was loaded is always written back: the code compares arrays by identity, and
  \<open>trimMessagesByContentSize\<close> returns a new one.
\<close>

definition loadMessages ::
    "parser \<Rightarrow> (local_storage \<Rightarrow> bool) \<Rightarrow> (jstr \<Rightarrow> jstr) \<Rightarrow> jsnum \<Rightarrow> local_storage \<Rightarrow> message list option \<times> local_storage" where
  "loadMessages parse fits t now st =
     (let (saved, st') = readStoredMessagesValue st in
      case saved of
        None \<Rightarrow> (None, st')
      | Some v \<Rightarrow>
        (if \<not> js_truthy v then (None, st')
         else case parse messagesSchema (unwrapStoredValue v) of
             None \<Rightarrow> (None, st')
           | Some w \<Rightarrow>
             (let normalized = map (normalizeStoredMessageForLoad now) (to_messages w);
                  sanitized = sanitizeMessagesOnLoad t (trimMessagesByContentSize (trimMessages normalized)) now
              in (Some sanitized, saveMessages parse fits sanitized st'))))"

definition loadConfig :: "parser \<Rightarrow> local_storage \<Rightarrow> jsobj" where
  "loadConfig parse st = (case readStoredValue CONFIG_KEY st of
     None \<Rightarrow> []
   | Some saved \<Rightarrow>
     (if \<not> js_truthy saved then []
      else case parse playgroundConfigSchema (unwrapStoredValue saved) of None \<Rightarrow> [] | Some v \<Rightarrow> props_of v))"

definition saveConfig :: "parser \<Rightarrow> (local_storage \<Rightarrow> bool) \<Rightarrow> jsobj \<Rightarrow> local_storage \<Rightarrow> local_storage" where
  "saveConfig parse fits config st = try_write fits CONFIG_KEY (parse playgroundConfigSchema (JObj config)) st"

definition loadParameterEnabled :: "parser \<Rightarrow> local_storage \<Rightarrow> jsobj" where
  "loadParameterEnabled parse st = (case readStoredValue PARAMETER_ENABLED_KEY st of
     None \<Rightarrow> []
   | Some saved \<Rightarrow>
     (if \<not> js_truthy saved then []
      else case parse parameterEnabledSchema (unwrapStoredValue saved) of None \<Rightarrow> [] | Some v \<Rightarrow> props_of v))"

definition saveParameterEnabled :: "parser \<Rightarrow> (local_storage \<Rightarrow> bool) \<Rightarrow> jsobj \<Rightarrow> local_storage \<Rightarrow> local_storage" where
  "saveParameterEnabled parse fits enabled st =
     try_write fits PARAMETER_ENABLED_KEY (parse parameterEnabledSchema (JObj enabled)) st"

definition clearPlaygroundData :: "local_storage \<Rightarrow> local_storage" where
  "clearPlaygroundData st = AList.delete MESSAGES_KEY (AList.delete PARAMETER_ENABLED_KEY (AList.delete CONFIG_KEY st))"

section \<open>What is stored is read back\<close>

declare js_inject [simp]

lemma obj_get_field:
  "obj_get (field k f x @ rest) j = (if js k = j then (case x of None \<Rightarrow> obj_get rest j | Some a \<Rightarrow> f a) else obj_get rest j)"
  by (simp add: field_def obj_get_def split: option.split)

lemma obj_get_last_field: "obj_get (field k f x) j = (if js k = j then (case x of None \<Rightarrow> JUndef | Some a \<Rightarrow> f a) else JUndef)"
  using obj_get_field [of k f x "[]" j] by (simp add: obj_get_def cong: if_cong option.case_cong)

lemma given_case: "(\<And>a. F a \<noteq> JUndef) \<Longrightarrow> given f (case x of None \<Rightarrow> JUndef | Some a \<Rightarrow> F a) = map_option (\<lambda>a. f (F a)) x"
  by (simp add: given_def split: option.split)

lemma texts_inverse [simp]: "role_of (role_text r) = r" "status_of (status_text st) = st"
  by (cases r; simp add: role_of_def) (cases st; simp add: status_of_def)

lemma nullable_inverse [simp]: "to_nullable (nullable_text c) = c" "nullable_text c \<noteq> JUndef"
  by (cases c; simp add: to_nullable_def)+

lemma to_version_value [simp]: "to_version (version_value v) = v"
  by (simp add: to_version_def version_value_def obj_get_def)

lemma to_source_value [simp]: "to_source (source_value v) = v"
  by (simp add: to_source_def source_value_def obj_get_def)

lemma to_reasoning_value [simp]: "to_reasoning (reasoning_value r) = r"
  by (simp add: to_reasoning_def reasoning_value_def obj_get_Cons obj_get_field obj_get_last_field given_case
      option.map_ident cong: option.case_cong)

lemma reasoning_value_def' [simp]: "reasoning_value r \<noteq> JUndef"
  by (simp add: reasoning_value_def)

lemma to_message_value [simp]: "to_message (message_value m) = m"
  by (simp add: to_message_def message_value_def obj_get_Cons obj_get_field obj_get_last_field given_case
      option.map_ident comp_def cong: option.case_cong)

lemma to_messages_value [simp]: "to_messages (messages_value ms) = ms"
  by (simp add: to_messages_def messages_value_def comp_def)

lemma pred_option_code [code]: "pred_option P None = True" "pred_option P (Some x) = P x"
  by simp_all

definition safe_number :: "jsnum \<Rightarrow> bool" where
  "safe_number x \<longleftrightarrow> json_ok (JNum x)"

text \<open>A message that JSON can carry: it has a version, texts are code units and numbers integers up to \<open>2 ^ 53\<close>.\<close>

definition storable :: "message \<Rightarrow> bool" where
  "storable m \<longleftrightarrow> versions m \<noteq> [] \<and> code_units (msg_key m) \<and>
     list_all (\<lambda>v. code_units (version_id v) \<and> code_units (version_content v)) (versions m) \<and>
     pred_option safe_number (createdAt m) \<and> pred_option safe_number (startedAt m) \<and>
     pred_option safe_number (completedAt m) \<and> pred_option safe_number (durationMs m) \<and>
     pred_option (list_all (\<lambda>(h, t). code_units h \<and> code_units t)) (sources m) \<and>
     pred_option (\<lambda>r. code_units (r_content r) \<and> safe_number (r_duration r) \<and>
       pred_option safe_number (r_startedAt r) \<and> pred_option safe_number (r_completedAt r) \<and>
       pred_option safe_number (r_durationMs r)) (reasoning m) \<and>
     pred_option (pred_option code_units) (errorCode m)"

lemma fields_fieldI:
  assumes "fields_conform fs rest" and "js k \<notin> fst ` set fs" and "pred_option (\<lambda>a. conforms s (f a)) x"
  shows "fields_conform ((js k, True, s) # fs) (field k f x @ rest)"
proof (cases x)
  case None
  have "js k \<notin> fst ` set rest" using fields_conform_keys [OF assms(1)] assms(2) by auto
  then show ?thesis using assms(1) None by (auto simp: field_def split: list.split)
qed (use assms in \<open>simp add: field_def\<close>)

lemma fields_last_fieldI:
  "pred_option (\<lambda>a. conforms s (f a)) x \<Longrightarrow> fields_conform [(js k, True, s)] (field k f x)"
  by (cases x) (simp_all add: field_def)

lemma fields_requiredI:
  "conforms s v \<Longrightarrow> fields_conform fs rest \<Longrightarrow> fields_conform ((k, b, s) # fs) ((k, v) # rest)"
  by simp

lemma number_finite: "safe_number x \<Longrightarrow> isFinite x"
  by (cases x) (auto simp: safe_number_def)

lemma texts_in [simp]: "role_text r \<in> set [js ''user'', js ''assistant'', js ''system'']"
  "status_text st \<in> set [js ''loading'', js ''streaming'', js ''complete'', js ''error'']"
  by (cases r; simp) (cases st; simp)

lemma conforms_leaves:
  "conforms messageVersionSchema (version_value v)" "conforms sourceSchema (source_value h)"
  "conforms messageStatusSchema (JStr (status_text st))" "conforms messageRoleSchema (JStr (role_text r))"
  "conforms (ZNullable ZString) (nullable_text c)" "conforms ZString (JStr x)" "conforms ZBoolean (JBool y)"
  "safe_number n \<Longrightarrow> conforms ZNumber (JNum n)"
  by (simp_all add: messageVersionSchema_def sourceSchema_def version_value_def source_value_def
      messageStatusSchema_def messageRoleSchema_def number_finite del: insert_iff list.set)
    (cases c; simp)

lemmas fields_intros = fields_requiredI fields_fieldI fields_last_fieldI conforms_leaves

lemma conforms_object: "fields_conform fs ps \<Longrightarrow> conforms (ZObject fs) (JObj ps)"
  by simp

lemma conforms_list: "n \<le> length xs \<Longrightarrow> (\<And>x. conforms s (f x)) \<Longrightarrow> conforms (ZArray n s) (JArr (map f xs))"
  by auto

lemma safe_numbers: "pred_option safe_number t \<Longrightarrow> pred_option (\<lambda>n. conforms ZNumber (JNum n)) t"
  by (cases t) (simp_all add: number_finite)

lemma conforms_reasoning:
  assumes "safe_number (r_duration r)" "pred_option safe_number (r_startedAt r)"
    "pred_option safe_number (r_completedAt r)" "pred_option safe_number (r_durationMs r)"
  shows "conforms reasoningSchema (reasoning_value r)"
  unfolding reasoningSchema_def reasoning_value_def append_Cons append_Nil
  by (intro conforms_object fields_intros safe_numbers assms) simp_all

lemma conforms_message:
  assumes "storable m"
  shows "conforms messageSchema (message_value m)"
proof -
  have nums: "pred_option safe_number (createdAt m)" "pred_option safe_number (startedAt m)"
    "pred_option safe_number (completedAt m)" "pred_option safe_number (durationMs m)"
    and vs: "1 \<le> length (versions m)"
    using assms by (simp_all add: storable_def Suc_le_eq)
  have r: "pred_option (\<lambda>r. conforms reasoningSchema (reasoning_value r)) (reasoning m)"
    using assms by (auto simp: storable_def option.pred_set intro: conforms_reasoning)
  have opts: "pred_option (\<lambda>ss. conforms (ZArray 0 sourceSchema) (JArr (map source_value ss))) (sources m)"
    "pred_option (\<lambda>a. conforms messageStatusSchema (JStr (status_text a))) (msg_status m)"
    "pred_option (\<lambda>c. conforms (ZNullable ZString) (nullable_text c)) (errorCode m)"
    "pred_option (\<lambda>b. conforms ZBoolean (JBool b)) bo" for bo
    by (auto simp: option.pred_set conforms_leaves simp del: conforms.simps(4,5))
  show ?thesis unfolding messageSchema_def message_value_def append_Cons append_Nil
    by (intro conforms_object fields_intros conforms_list safe_numbers nums vs r opts) simp_all
qed

lemma messages_well_keyed [simp]: "well_keyed messagesSchema"
  by (simp add: messagesSchema_def messageSchema_def messageVersionSchema_def sourceSchema_def reasoningSchema_def
      messageStatusSchema_def messageRoleSchema_def)

lemma fields_conform_distinct: "fields_conform fs ps \<Longrightarrow> distinct (map fst fs) \<Longrightarrow> distinct (map fst ps)"
proof (induction fs arbitrary: ps)
  case (Cons f fs)
  obtain k opt s where f: "f = (k, opt, s)" by (cases f) auto
  show ?case
  proof (cases "\<exists>v rest. ps = (k, v) # rest")
    case True
    then obtain v rest where ps: "ps = (k, v) # rest" by blast
    then have "fields_conform fs rest" using Cons.prems(1) f by simp
    then show ?thesis using Cons.IH [of rest] Cons.prems(2) f ps fields_conform_keys [of fs rest] by auto
  next
    case False
    then have "fields_conform fs ps" using Cons.prems(1) f by (auto split: list.splits if_splits)
    then show ?thesis using Cons.IH Cons.prems(2) by simp
  qed
qed simp

lemma json_ok_obj:
  assumes "fields_conform fs ps" and "distinct (map fst fs)"
    and "list_all (\<lambda>k. \<not> is_index_key k \<and> code_units k) (map fst fs)" and "list_all (\<lambda>p. json_ok (snd p)) ps"
  shows "json_ok (JObj ps)"
proof -
  have keys: "\<not> is_index_key k \<and> code_units k" if "k \<in> fst ` set ps" for k
    using fields_conform_keys [OF assms(1)] assms(3) that by (force simp: list_all_iff)
  have "obj_of ps = ps"
    by (rule obj_of_distinct_plain [OF fields_conform_distinct [OF assms(1,2)]]) (use keys in \<open>auto simp: list_all_iff\<close>)
  then show ?thesis using assms(4) keys by (force simp: list_all_iff)
qed

lemma field_ok: "list_all (\<lambda>p. json_ok (snd p)) (field k f x) = pred_option (\<lambda>a. json_ok (f a)) x"
  by (cases x) (simp_all add: field_def)

lemma json_ok_reasoning:
  assumes "code_units (r_content r)" "safe_number (r_duration r)" "pred_option safe_number (r_startedAt r)"
    "pred_option safe_number (r_completedAt r)" "pred_option safe_number (r_durationMs r)"
  shows "json_ok (reasoning_value r)"
  unfolding reasoning_value_def
proof (rule json_ok_obj)
  show "fields_conform [(js ''content'', False, ZString), (js ''duration'', False, ZNumber), (js ''startedAt'', True, ZNumber),
      (js ''completedAt'', True, ZNumber), (js ''durationMs'', True, ZNumber)]
    ([(js ''content'', JStr (r_content r)), (js ''duration'', JNum (r_duration r))] @
     field ''startedAt'' JNum (r_startedAt r) @ field ''completedAt'' JNum (r_completedAt r) @
     field ''durationMs'' JNum (r_durationMs r))"
    using conforms_reasoning [OF assms(2-5)] unfolding reasoningSchema_def reasoning_value_def conforms.simps jsval.case .
qed (use assms in \<open>simp_all add: plain_key is_digit_def field_ok safe_number_def [symmetric] del: json_ok.simps(4)\<close>)

lemma json_ok_leaves:
  "code_units (version_id v) \<Longrightarrow> code_units (version_content v) \<Longrightarrow> json_ok (version_value v)"
  "code_units (fst h) \<Longrightarrow> code_units (snd h) \<Longrightarrow> json_ok (source_value h)"
  "json_ok (JStr (status_text st))" "json_ok (JStr (role_text r))"
  unfolding version_value_def source_value_def
     apply (rule json_ok_obj [where fs = "[(js ''id'', False, ZString), (js ''content'', False, ZString)]"];
      simp add: plain_key is_digit_def)
    apply (rule json_ok_obj [where fs = "[(js ''href'', False, ZString), (js ''title'', False, ZString)]"];
      simp add: plain_key is_digit_def)
   apply (cases st; simp add: js_def)
  apply (cases r; simp add: js_def)
  done

lemma safe_number_fun: "safe_number = (\<lambda>x. json_ok (JNum x))"
  by (simp add: fun_eq_iff safe_number_def)

lemma json_ok_parts:
  assumes "storable m"
  shows "json_ok (JStr (msg_key m))" "json_ok (JArr (map version_value (versions m)))"
    "pred_option (\<lambda>ss. json_ok (JArr (map source_value ss))) (sources m)"
    "pred_option (\<lambda>r. json_ok (reasoning_value r)) (reasoning m)"
    "pred_option (\<lambda>c. json_ok (nullable_text c)) (errorCode m)"
proof -
  show "json_ok (JStr (msg_key m))" using assms by (simp add: storable_def)
  show "json_ok (JArr (map version_value (versions m)))"
    using assms by (auto simp: storable_def list.pred_map comp_def elim!: list.pred_mono_strong intro!: json_ok_leaves)
  show "pred_option (\<lambda>ss. json_ok (JArr (map source_value ss))) (sources m)"
    using assms by (cases "sources m") (auto simp: storable_def list.pred_map comp_def split_def elim!: list.pred_mono_strong intro!: json_ok_leaves)
  show "pred_option (\<lambda>r. json_ok (reasoning_value r)) (reasoning m)"
    using assms by (cases "reasoning m") (auto simp: storable_def intro!: json_ok_reasoning)
  have "json_ok (nullable_text c)" if "pred_option code_units c" for c using that by (cases c) simp_all
  then show "pred_option (\<lambda>c. json_ok (nullable_text c)) (errorCode m)"
    using assms by (cases "errorCode m") (simp_all add: storable_def)
qed

lemma json_ok_message:
  assumes "storable m"
  shows "json_ok (message_value m)"
proof -
  obtain fs ps where shape: "messageSchema = ZObject fs" "message_value m = JObj ps"
    by (simp add: messageSchema_def message_value_def)
  have keys: "distinct (map fst fs)" "list_all (\<lambda>k. \<not> is_index_key k \<and> code_units k) (map fst fs)"
    using shape(1) unfolding messageSchema_def by (auto simp: plain_key is_digit_def)
  have "fields_conform fs ps" using conforms_message [OF assms] unfolding shape conforms.simps jsval.case .
  moreover have "list_all (\<lambda>p. json_ok (snd p)) ps"
    using shape(2) assms json_ok_parts [OF assms] unfolding message_value_def storable_def
    by (auto simp: field_ok safe_number_fun [symmetric] json_ok_leaves option.pred_True simp del: json_ok.simps(4,5))
  ultimately show ?thesis using json_ok_obj keys shape(2) by simp
qed

text \<open>The text under the messages key after a successful save.\<close>

definition messages_text :: "message list \<Rightarrow> jstr" where
  "messages_text ms = json_text (envelope (messages_value (trimMessages ms)))"

lemma conforms_messages: "list_all storable ms \<Longrightarrow> conforms messagesSchema (messages_value ms)"
  by (auto simp: messagesSchema_def messages_value_def list_all_iff conforms_message)

lemma json_ok_messages: "list_all storable ms \<Longrightarrow> json_ok (envelope (messages_value ms))"
proof -
  assume ms: "list_all storable ms"
  then have "json_ok (messages_value ms)" by (simp add: messages_value_def list_all_iff json_ok_message)
  moreover have "json_ok (JNum (of_i STORAGE_VERSION))" by (simp add: STORAGE_VERSION_def num_le_def num_eq_def of_i_def)
  ultimately show ?thesis unfolding envelope_def
    by (intro json_ok_obj [where fs = "[(js ''version'', False, ZNumber), (js ''data'', False, messagesSchema)]"];
        simp add: plain_key is_digit_def conforms_messages [OF ms] of_i_def del: json_ok.simps(4))
qed

lemma trimMessages_subset: "list_all P ms \<Longrightarrow> list_all P (trimMessages ms)"
  by (auto simp: trimMessages_def list_all_iff dest: in_set_dropD)

lemma trimMessages_short [simp]: "length ms \<le> MAX_STORED_MESSAGES \<Longrightarrow> trimMessages ms = ms"
  by (simp add: trimMessages_def)

lemma length_trimMessages: "length (trimMessages ms) \<le> MAX_STORED_MESSAGES"
  by (simp add: trimMessages_def)

context schema_parser
begin

lemma parse_messages:
  assumes "list_all storable ms"
  shows "parse messagesSchema (messages_value ms) = Some (messages_value ms)"
  by (rule parse_exact [OF messages_well_keyed conforms_messages [OF assms]])

lemma save_storable:
  assumes "list_all storable ms" and "fits (AList.update MESSAGES_KEY (messages_text ms) st)"
  shows "saveMessages parse fits ms st = AList.update MESSAGES_KEY (messages_text ms) st"
  using assms(2) parse_messages [OF trimMessages_subset [OF assms(1)]]
  by (simp add: saveMessages_def try_write_def writeStoredValue_def messages_text_def Let_def)

end

text \<open>A message that loading leaves as it is: no longer pending, not too long and without repeated sections.\<close>

definition settled :: "message \<Rightarrow> bool" where
  "settled m \<longleftrightarrow> \<not> isAssistantMessagePending m \<and>
     list_all (\<lambda>v. collapseRepeatedSectionSnapshots (version_content v) = version_content v \<and>
       length (version_content v) \<le> MAX_LOADED_MESSAGE_CHARS) (versions m) \<and>
     pred_option (\<lambda>r. length (r_content r) \<le> MAX_LOADED_MESSAGE_CHARS) (reasoning m)"

lemma settled_normalize: "settled m \<Longrightarrow> normalizeStoredMessageForLoad now m = m"
proof -
  assume m: "settled m"
  have "map load_version (versions m) = versions m"
    using m by (intro map_idI) (auto simp: settled_def list_all_iff load_version_def truncateText_def)
  moreover have "map_option load_reasoning (reasoning m) = reasoning m"
    using m by (cases "reasoning m") (auto simp: settled_def load_reasoning_def truncateText_def)
  ultimately show ?thesis using m by (simp add: normalizeStoredMessageForLoad_def Let_def settled_def)
qed

lemma size_loop_all:
  "totalSize + sum_list (map getMessageSize ms) \<le> MAX_LOADED_MESSAGES_CHARS \<Longrightarrow> size_loop totalSize result ms = rev ms @ result"
  by (induction ms arbitrary: totalSize result) (auto simp: add.assoc)

lemma trim_size_small:
  "sum_list (map getMessageSize ms) \<le> MAX_LOADED_MESSAGES_CHARS \<Longrightarrow> trimMessagesByContentSize ms = ms"
  using size_loop_all [of 0 "rev ms" "[]"] by (simp add: trimMessagesByContentSize_def rev_map [symmetric])

lemma last_pending_none: "list_all (\<lambda>m. \<not> isAssistantMessagePending m) ms \<Longrightarrow> n \<le> length ms \<Longrightarrow> last_pending ms n = None"
  by (induction n) (auto simp: isPendingAssistantMessage_def list_all_length)

lemma sanitize_settled: "list_all settled ms \<Longrightarrow> sanitizeMessagesOnLoad t ms now = ms"
  using last_pending_none [of ms "length ms"] by (simp add: sanitizeMessagesOnLoad_def settled_def list_all_iff)

lemma load_saved:
  assumes "schema_parser parse" and "list_all storable ms" and "list_all settled ms"
    and "length ms \<le> MAX_STORED_MESSAGES" and "sum_list (map getMessageSize ms) \<le> MAX_LOADED_MESSAGES_CHARS"
    and "map_of st MESSAGES_KEY = Some (messages_text ms)" and "length (messages_text ms) \<le> MAX_STORED_MESSAGES_BYTES"
  shows "loadMessages parse fits t now st = (Some ms, saveMessages parse fits ms st)"
proof -
  let ?v = "envelope (messages_value ms)"
  have ok: "json_ok ?v" by (rule json_ok_messages [OF assms(2)])
  have eq: "messages_text ms = json_text ?v" using assms(4) by (simp add: messages_text_def)
  then have "messages_text ms \<noteq> []" using json_stringify_ok [OF ok] by (auto simp: envelope_def json_text_def)
  then have "readStoredMessagesValue st = (Some ?v, st)"
    using assms(6,7) json_parse_text [OF ok] eq by (simp add: readStoredMessagesValue_def)
  moreover have "js_truthy ?v" "unwrapStoredValue ?v = messages_value ms"
    by (simp_all add: envelope_def unwrapStoredValue_def obj_get_def)
  moreover have "map (normalizeStoredMessageForLoad now) ms = ms"
    using assms(3) by (intro map_idI) (auto simp: list_all_iff settled_normalize)
  ultimately show ?thesis
    using schema_parser.parse_messages [OF assms(1,2)] assms(4)
      trim_size_small [OF assms(5)] sanitize_settled [OF assms(3), of t now]
    by (simp add: loadMessages_def)
qed

section \<open>The state hook\<close>

definition number_field :: "jsnum option \<Rightarrow> jsval" where
  "number_field x = (case x of None \<Rightarrow> JNull | Some n \<Rightarrow> JNum n)"

definition config_value :: "playground_config \<Rightarrow> jsobj" where
  "config_value c = [(js ''model'', JStr (cfg_model c)), (js ''group'', JStr (cfg_group c)),
     (js ''temperature'', JNum (temperature c)), (js ''top_p'', JNum (top_p c)), (js ''max_tokens'', JNum (max_tokens c)),
     (js ''frequency_penalty'', JNum (frequency_penalty c)), (js ''presence_penalty'', JNum (presence_penalty c)),
     (js ''seed'', number_field (seed c)), (js ''stream'', JBool (cfg_stream c))]"

definition enabled_value :: "parameter_enabled \<Rightarrow> jsobj" where
  "enabled_value e = [(js ''temperature'', JBool (en_temperature e)), (js ''top_p'', JBool (en_top_p e)),
     (js ''max_tokens'', JBool (en_max_tokens e)), (js ''frequency_penalty'', JBool (en_frequency_penalty e)),
     (js ''presence_penalty'', JBool (en_presence_penalty e)), (js ''seed'', JBool (en_seed e))]"

definition getInitialPlaygroundConfig :: "parser \<Rightarrow> local_storage \<Rightarrow> jsobj" where
  "getInitialPlaygroundConfig parse st = spread (config_value DEFAULT_CONFIG) (loadConfig parse st)"

definition getInitialParameterEnabled :: "parser \<Rightarrow> local_storage \<Rightarrow> jsobj" where
  "getInitialParameterEnabled parse st = spread (enabled_value DEFAULT_PARAMETER_ENABLED) (loadParameterEnabled parse st)"

definition getInitialMessages ::
    "parser \<Rightarrow> (local_storage \<Rightarrow> bool) \<Rightarrow> (jstr \<Rightarrow> jstr) \<Rightarrow> jsnum \<Rightarrow> local_storage \<Rightarrow> message list \<times> local_storage" where
  "getInitialMessages parse fits t now st =
     (let (loaded, st') = loadMessages parse fits t now st in (case loaded of None \<Rightarrow> [] | Some ms \<Rightarrow> ms, st'))"

text \<open>\<open>applyMessageStateUpdate\<close>: an update is a new list or a function of the current one.\<close>

datatype state_updater = NewMessages "message list" | FromPrevious "message list \<Rightarrow> message list"

fun applyMessageStateUpdate :: "message list \<Rightarrow> state_updater \<Rightarrow> message list" where
  "applyMessageStateUpdate prev (NewMessages ms) = ms"
| "applyMessageStateUpdate prev (FromPrevious f) = f prev"

record pg_state =
  pg_config :: jsobj
  pg_enabled :: jsobj
  pg_messages :: "message list"
  isLoadingMessages :: bool
  saveTimer :: bool
  latestMessages :: "message list"
  hasLoadedMessages :: bool
  loadCancelled :: bool
  storage :: local_storage

definition initial_pg_state :: "parser \<Rightarrow> local_storage \<Rightarrow> pg_state" where
  "initial_pg_state parse st = \<lparr>pg_config = getInitialPlaygroundConfig parse st,
     pg_enabled = getInitialParameterEnabled parse st, pg_messages = [], isLoadingMessages = True, saveTimer = False,
     latestMessages = [], hasLoadedMessages = False, loadCancelled = False, storage = st\<rparr>"

definition persistMessages :: "message list \<Rightarrow> pg_state \<Rightarrow> pg_state" where
  "persistMessages ms p =
     (let p' = p\<lparr>latestMessages := ms\<rparr> in if hasLoadedMessages p' then p'\<lparr>saveTimer := True\<rparr> else p')"

definition save_timer_fires :: "parser \<Rightarrow> (local_storage \<Rightarrow> bool) \<Rightarrow> pg_state \<Rightarrow> pg_state" where
  "save_timer_fires parse fits p =
     (if saveTimer p
      then p\<lparr>saveTimer := False, storage := saveMessages parse fits (latestMessages p) (storage p)\<rparr> else p)"

text \<open>The timeout of the loading effect; a cancelled one has still read and rewritten the storage.\<close>

definition load_timer_fires ::
    "parser \<Rightarrow> (local_storage \<Rightarrow> bool) \<Rightarrow> (jstr \<Rightarrow> jstr) \<Rightarrow> jsnum \<Rightarrow> pg_state \<Rightarrow> pg_state" where
  "load_timer_fires parse fits t now p =
     (let (loaded, st) = loadMessages parse fits t now (storage p);
          ms = (case loaded of None \<Rightarrow> [] | Some ms \<Rightarrow> ms)
      in if loadCancelled p then p\<lparr>storage := st\<rparr>
         else p\<lparr>storage := st, latestMessages := ms, hasLoadedMessages := True, pg_messages := ms,
                isLoadingMessages := False\<rparr>)"

text \<open>
  React runs the cleanups when the playground is left for another page of the console.  Closing the tab or
  reloading it runs none of them: what is then kept is the storage as it is.
\<close>

definition pg_unmount :: "parser \<Rightarrow> (local_storage \<Rightarrow> bool) \<Rightarrow> pg_state \<Rightarrow> pg_state" where
  "pg_unmount parse fits p =
     (let p' = p\<lparr>loadCancelled := True\<rparr> in
      if saveTimer p' then p'\<lparr>storage := saveMessages parse fits (latestMessages p') (storage p')\<rparr> else p')"

definition updateMessages :: "state_updater \<Rightarrow> pg_state \<Rightarrow> pg_state" where
  "updateMessages u p =
     (let newMessages = applyMessageStateUpdate (pg_messages p) u
      in (persistMessages newMessages p)\<lparr>pg_messages := newMessages\<rparr>)"

definition clearMessages :: "pg_state \<Rightarrow> pg_state" where
  "clearMessages p = updateMessages (NewMessages []) p"

definition updateConfig :: "parser \<Rightarrow> (local_storage \<Rightarrow> bool) \<Rightarrow> jstr \<Rightarrow> jsval \<Rightarrow> pg_state \<Rightarrow> pg_state" where
  "updateConfig parse fits key v p =
     (let updated = obj_put key v (pg_config p)
      in p\<lparr>storage := saveConfig parse fits updated (storage p), pg_config := updated\<rparr>)"

definition updateParameterEnabled :: "parser \<Rightarrow> (local_storage \<Rightarrow> bool) \<Rightarrow> jstr \<Rightarrow> bool \<Rightarrow> pg_state \<Rightarrow> pg_state" where
  "updateParameterEnabled parse fits key v p =
     (let updated = obj_put key (JBool v) (pg_enabled p)
      in p\<lparr>storage := saveParameterEnabled parse fits updated (storage p), pg_enabled := updated\<rparr>)"

definition resetConfig :: "parser \<Rightarrow> (local_storage \<Rightarrow> bool) \<Rightarrow> pg_state \<Rightarrow> pg_state" where
  "resetConfig parse fits p =
     p\<lparr>pg_config := config_value DEFAULT_CONFIG, pg_enabled := enabled_value DEFAULT_PARAMETER_ENABLED,
       storage := saveParameterEnabled parse fits (enabled_value DEFAULT_PARAMETER_ENABLED)
         (saveConfig parse fits (config_value DEFAULT_CONFIG) (storage p))\<rparr>"

section \<open>Histories of the state hook\<close>

datatype pg_event =
    UpdateMessages state_updater
  | ClearMessages
  | SaveTimer
  | UpdateConfig jstr jsval
  | UpdateEnabled jstr bool
  | ResetConfig

fun pg_exec :: "parser \<Rightarrow> (local_storage \<Rightarrow> bool) \<Rightarrow> pg_event \<Rightarrow> pg_state \<Rightarrow> pg_state" where
  "pg_exec parse fits (UpdateMessages u) p = updateMessages u p"
| "pg_exec parse fits ClearMessages p = clearMessages p"
| "pg_exec parse fits SaveTimer p = save_timer_fires parse fits p"
| "pg_exec parse fits (UpdateConfig k v) p = updateConfig parse fits k v p"
| "pg_exec parse fits (UpdateEnabled k v) p = updateParameterEnabled parse fits k v p"
| "pg_exec parse fits ResetConfig p = resetConfig parse fits p"

definition pg_run :: "parser \<Rightarrow> (local_storage \<Rightarrow> bool) \<Rightarrow> pg_event list \<Rightarrow> pg_state \<Rightarrow> pg_state" where
  "pg_run parse fits es p = foldl (\<lambda>p e. pg_exec parse fits e p) p es"

text \<open>The conversation is either already stored or about to be.\<close>

definition kept :: "pg_state \<Rightarrow> bool" where
  "kept p \<longleftrightarrow> hasLoadedMessages p \<and> latestMessages p = pg_messages p \<and>
     (\<not> saveTimer p \<longrightarrow> list_all storable (pg_messages p) \<longrightarrow>
        map_of (storage p) MESSAGES_KEY = Some (messages_text (pg_messages p)))"

lemma map_of_update_key: "map_of (AList.update k v al) = (map_of al)(k \<mapsto> v)"
  by (simp add: update_conv')

lemma try_write_other: "k \<noteq> key \<Longrightarrow> map_of (try_write fits key v st) k = map_of st k"
  by (simp add: try_write_def writeStoredValue_def Let_def map_of_update_key split: option.split)

lemma keys_distinct [simp]: "MESSAGES_KEY \<noteq> CONFIG_KEY" "MESSAGES_KEY \<noteq> PARAMETER_ENABLED_KEY"
  by (simp_all add: MESSAGES_KEY_def CONFIG_KEY_def PARAMETER_ENABLED_KEY_def)

context schema_parser
begin

lemma save_stores:
  "list_all storable ms \<Longrightarrow> map_of (saveMessages parse (\<lambda>_. True) ms st) MESSAGES_KEY = Some (messages_text ms)"
  by (simp add: save_storable map_of_update_key)

lemma kept_exec: "kept p \<Longrightarrow> kept (pg_exec parse (\<lambda>_. True) e p)"
  by (cases e) (auto simp: kept_def updateMessages_def clearMessages_def persistMessages_def Let_def save_timer_fires_def
      updateConfig_def updateParameterEnabled_def resetConfig_def saveConfig_def saveParameterEnabled_def
      try_write_other save_stores)

lemma kept_run: "kept p \<Longrightarrow> kept (pg_run parse (\<lambda>_. True) es p)"
  unfolding pg_run_def by (induction es arbitrary: p) (auto simp: kept_exec)

lemma kept_unmount:
  assumes "kept p" and "list_all storable (pg_messages p)"
  shows "map_of (storage (pg_unmount parse (\<lambda>_. True) p)) MESSAGES_KEY = Some (messages_text (pg_messages p))"
  using assms by (auto simp: kept_def pg_unmount_def Let_def save_stores)

end



text \<open>The loop takes messages \<open>xs\<close> off the reversed list and leaves \<open>ys\<close>.\<close>

definition size_sum :: "message list \<Rightarrow> nat" where
  "size_sum ms = sum_list (map getMessageSize ms)"

lemma size_sum_simps [simp]: "size_sum [] = 0" "size_sum (m # ms) = getMessageSize m + size_sum ms"
  by (simp_all add: size_sum_def)

lemma size_loop_suffix:
  assumes "size_sum result \<le> MAX_LOADED_MESSAGES_CHARS \<or> length result = 1"
  shows "\<exists>xs ys. rs = xs @ ys \<and> size_loop (size_sum result) result rs = rev xs @ result \<and>
      (result = [] \<longrightarrow> rs \<noteq> [] \<longrightarrow> xs \<noteq> []) \<and>
      (size_sum (rev xs @ result) \<le> MAX_LOADED_MESSAGES_CHARS \<or> length (rev xs @ result) = 1) \<and>
      (ys \<noteq> [] \<longrightarrow> MAX_LOADED_MESSAGES_CHARS < size_sum (hd ys # rev xs @ result))"
  using assms
proof (induction rs arbitrary: result)
  case (Cons r rs)
  show ?case
  proof (cases "result \<noteq> [] \<and> size_sum result + getMessageSize r > MAX_LOADED_MESSAGES_CHARS")
    case True
    then show ?thesis using Cons.prems by (intro exI [of _ "[]"] exI [of _ "r # rs"]) auto
  next
    case False
    then have "size_sum (r # result) \<le> MAX_LOADED_MESSAGES_CHARS \<or> length (r # result) = 1" by auto
    from Cons.IH [OF this] obtain xs ys where "rs = xs @ ys"
      "size_loop (size_sum (r # result)) (r # result) rs = rev xs @ r # result"
      "size_sum (rev xs @ r # result) \<le> MAX_LOADED_MESSAGES_CHARS \<or> length (rev xs @ r # result) = 1"
      "ys \<noteq> [] \<longrightarrow> MAX_LOADED_MESSAGES_CHARS < size_sum (hd ys # rev xs @ r # result)" by auto
    then show ?thesis using False
      by (intro exI [of _ "r # xs"] exI [of _ ys]) (auto simp: add.commute)
  qed
qed simp

text \<open>
  C34: Trimming a loaded conversation keeps its most recent part: the result is a suffix, it is empty only
  for an empty conversation, it stays within the character budget unless it is a single message, and
  one more message would exceed the budget.
\<close>

theorem trim_keeps_longest_suffix:
  "\<exists>k. trimMessagesByContentSize ms = drop k ms \<and> k \<le> length ms \<and> (ms \<noteq> [] \<longrightarrow> k < length ms) \<and>
     (size_sum (drop k ms) \<le> MAX_LOADED_MESSAGES_CHARS \<or> length (drop k ms) = 1) \<and>
     (0 < k \<longrightarrow> MAX_LOADED_MESSAGES_CHARS < size_sum (drop (k - 1) ms))"
proof -
  from size_loop_suffix [of "[]" "rev ms"] obtain xs ys where s: "rev ms = xs @ ys"
    "size_loop 0 [] (rev ms) = rev xs" "rev ms \<noteq> [] \<longrightarrow> xs \<noteq> []"
    "size_sum (rev xs) \<le> MAX_LOADED_MESSAGES_CHARS \<or> length (rev xs) = 1"
    "ys \<noteq> [] \<longrightarrow> MAX_LOADED_MESSAGES_CHARS < size_sum (hd ys # rev xs)"
    unfolding size_sum_simps append_Nil2 by (metis le0)
  have ms: "ms = rev ys @ rev xs" using s(1) by (metis rev_append rev_rev_ident)
  have "drop (length ys - 1) ms = hd ys # rev xs" if "ys \<noteq> []" using that ms by (cases ys) auto
  then show ?thesis using s ms
    by (intro exI [of _ "length ys"]) (auto simp: trimMessagesByContentSize_def)
qed

theorem trim_keeps_longest_suffix_witness:
  "\<exists>k. trimMessagesByContentSize [createUserMessage (js ''k'') (js ''v'') (js ''hi'') (of_i 5)] =
      drop k [createUserMessage (js ''k'') (js ''v'') (js ''hi'') (of_i 5)] \<and> k < 1"
  using trim_keeps_longest_suffix [of "[createUserMessage (js ''k'') (js ''v'') (js ''hi'') (of_i 5)]"] by auto

end
