(* ===== verification/PlaygroundOptions.thy ===== *)
theory PlaygroundOptions
  imports PlaygroundStorage
begin

text \<open>
  Choices of the playground under \<open>src/web/src/features/playground\<close>: generation parameters
  (\<open>lib/parameters/playground-parameters.ts\<close>), model and group selection
  (\<open>lib/options/playground-option-utils.ts\<close> with the effects of \<open>hooks/use-playground-options.ts\<close>), the
  input controls (\<open>lib/input/input-control-utils.ts\<close>) and the action guard
  (\<open>hooks/use-message-action-guard.ts\<close>).  The queries that fetch models and groups are events.
\<close>

section \<open>Parameters\<close>

datatype parameter_key = Temperature | TopP | FrequencyPenalty | PresencePenalty | MaxTokens | Seed

datatype value_type = Slider | NumberBox

record parameter_control =
  ctl_key :: parameter_key
  valueType :: value_type
  ctl_min :: jsnum
  ctl_max :: jsnum
  ctl_step :: jsnum

definition PLAYGROUND_PARAMETER_CONTROLS :: "parameter_control list" where
  "PLAYGROUND_PARAMETER_CONTROLS =
     [\<lparr>ctl_key = Temperature, valueType = Slider, ctl_min = rnd (1 / 10), ctl_max = of_i 1, ctl_step = rnd (1 / 10)\<rparr>,
      \<lparr>ctl_key = TopP, valueType = Slider, ctl_min = rnd (1 / 10), ctl_max = of_i 1, ctl_step = rnd (1 / 10)\<rparr>,
      \<lparr>ctl_key = FrequencyPenalty, valueType = Slider, ctl_min = of_i (- 2), ctl_max = of_i 2, ctl_step = rnd (1 / 10)\<rparr>,
      \<lparr>ctl_key = PresencePenalty, valueType = Slider, ctl_min = of_i (- 2), ctl_max = of_i 2, ctl_step = rnd (1 / 10)\<rparr>,
      \<lparr>ctl_key = MaxTokens, valueType = NumberBox, ctl_min = of_i 0, ctl_max = of_i 200000, ctl_step = of_i 1\<rparr>,
      \<lparr>ctl_key = Seed, valueType = NumberBox, ctl_min = of_i 0, ctl_max = of_i 2147483647, ctl_step = of_i 1\<rparr>]"

definition num_min :: "jsnum \<Rightarrow> jsnum \<Rightarrow> jsnum" where
  "num_min a b = (if a = NaN \<or> b = NaN then NaN else if num_lt a b then a else b)"

fun num_trunc :: "jsnum \<Rightarrow> jsnum" where
  "num_trunc (Fin q) = of_i (if q < 0 then - \<lfloor>- q\<rfloor> else \<lfloor>q\<rfloor>)"
| "num_trunc x = x"

text \<open>
  \<open>Number(x.toFixed(d))\<close> for a finite number: the nearest decimal with \<open>d\<close> digits, ties away from zero,
  and the number closest to it.
\<close>

definition fixed_digits :: "nat \<Rightarrow> rat \<Rightarrow> int" where
  "fixed_digits d q = (if q < 0 then - \<lfloor>- q * 10 ^ d + 1 / 2\<rfloor> else \<lfloor>q * 10 ^ d + 1 / 2\<rfloor>)"

fun to_fixed :: "nat \<Rightarrow> jsnum \<Rightarrow> jsnum" where
  "to_fixed d (Fin q) = rnd (of_int (fixed_digits d q) / 10 ^ d)"
| "to_fixed d x = x"

definition precision :: "jsnum \<Rightarrow> nat" where
  "precision step = (case split_on 46 (String step) of _ # f # _ \<Rightarrow> length f | _ \<Rightarrow> 0)"

definition no_value :: "parameter_key \<Rightarrow> jsnum option" where
  "no_value key = (if key = Seed then None else Some (of_i 0))"

definition normalizeParameterNumberValue :: "parameter_key \<Rightarrow> jsval \<Rightarrow> jsnum option" where
  "normalizeParameterNumberValue key v =
     (if v = JStr [] then no_value key
      else
        let parsed = (if is_number v then num_of v else parseFloat (str_of v))
        in case find (\<lambda>c. ctl_key c = key) PLAYGROUND_PARAMETER_CONTROLS of
             None \<Rightarrow> no_value key
           | Some control \<Rightarrow>
             (if parsed = NaN then no_value key
              else let clamped = num_min (ctl_max control) (num_max (ctl_min control) parsed)
                in if num_le (of_i 1) (ctl_step control) then Some (num_trunc clamped)
                   else Some (to_fixed (precision (ctl_step control)) clamped)))"

definition getParameterControlValueText :: "parameter_key \<Rightarrow> jsnum option \<Rightarrow> jstr" where
  "getParameterControlValueText key v =
     (if key = Seed \<and> v = None then js ''Not set'' else (case v of None \<Rightarrow> js ''null'' | Some x \<Rightarrow> String x))"

section \<open>Models and groups\<close>

record select_option =
  opt_label :: jstr
  opt_value :: jstr

definition getModelFallback :: "select_option list \<Rightarrow> jstr \<Rightarrow> jstr option" where
  "getModelFallback models currentModel =
     (if list_ex (\<lambda>m. opt_value m = currentModel) models \<or> models = [] then None else Some (opt_value (hd models)))"

definition shouldClearModelForGroup :: "select_option list \<Rightarrow> jstr \<Rightarrow> bool" where
  "shouldClearModelForGroup models currentModel \<longleftrightarrow>
     currentModel \<noteq> [] \<and> \<not> list_ex (\<lambda>m. opt_value m = currentModel) models"

definition getGroupFallback :: "select_option list \<Rightarrow> jstr \<Rightarrow> jstr option" where
  "getGroupFallback groups currentGroup =
     (if list_ex (\<lambda>g. opt_value g = currentGroup) groups \<or> groups = [] then None
      else Some (case find (\<lambda>g. opt_value g = js ''default'') groups of
          Some g \<Rightarrow> opt_value g | None \<Rightarrow> opt_value (hd groups)))"

definition getOptionLoadErrorMessage :: "jstr option \<Rightarrow> jstr \<Rightarrow> jstr" where
  "getOptionLoadErrorMessage err fallbackMessage = (case err of Some m \<Rightarrow> m | None \<Rightarrow> fallbackMessage)"

text \<open>The state hook with the two lists it holds for the selectors.\<close>

record options_state =
  os_pg :: pg_state
  os_models :: "select_option list"
  os_groups :: "select_option list"

definition os_model :: "options_state \<Rightarrow> jstr" where
  "os_model s = str_of (obj_get (pg_config (os_pg s)) (js ''model''))"

definition os_group :: "options_state \<Rightarrow> jstr" where
  "os_group s = str_of (obj_get (pg_config (os_pg s)) (js ''group''))"

text \<open>
  The effect that runs when models have arrived, and again whenever the chosen model changes.  An empty
  fallback is no fallback.  Updating the configuration also saves it.
\<close>

definition models_effect ::
    "parser \<Rightarrow> (local_storage \<Rightarrow> bool) \<Rightarrow> select_option list \<Rightarrow> options_state \<Rightarrow> options_state" where
  "models_effect parse fits modelsData s =
     (let s' = s\<lparr>os_models := modelsData\<rparr>;
          pick = (\<lambda>m. s'\<lparr>os_pg := updateConfig parse fits (js ''model'') (JStr m) (os_pg s')\<rparr>) in
      case getModelFallback modelsData (os_model s) of
        Some (c # fallback) \<Rightarrow> pick (c # fallback)
      | _ \<Rightarrow> (if shouldClearModelForGroup modelsData (os_model s) then pick [] else s'))"

definition groups_effect ::
    "parser \<Rightarrow> (local_storage \<Rightarrow> bool) \<Rightarrow> select_option list \<Rightarrow> options_state \<Rightarrow> options_state" where
  "groups_effect parse fits groupsData s =
     (let s' = s\<lparr>os_groups := groupsData\<rparr> in
      case getGroupFallback groupsData (os_group s) of
        Some (c # fallback) \<Rightarrow> s'\<lparr>os_pg := updateConfig parse fits (js ''group'') (JStr (c # fallback)) (os_pg s')\<rparr>
      | _ \<Rightarrow> s')"

section \<open>Input and actions\<close>

record control_state =
  canSubmit :: bool
  isSelectorDisabled :: bool
  shouldShowStop :: bool

definition getSubmittableInputText :: "jstr option \<Rightarrow> bool \<Rightarrow> jstr option" where
  "getSubmittableInputText message_text disabled = (case message_text of
     None \<Rightarrow> None
   | Some s \<Rightarrow> (if disabled \<or> js_trim s = [] then None else Some s))"

definition getInputControlState ::
    "bool \<Rightarrow> select_option list \<Rightarrow> bool \<Rightarrow> bool \<Rightarrow> bool \<Rightarrow> select_option list \<Rightarrow> jstr \<Rightarrow> control_state" where
  "getInputControlState disabled groups hasStopHandler isGenerating isModelLoading models input =
     \<lparr>canSubmit = (\<not> disabled \<and> models \<noteq> [] \<and> js_trim input \<noteq> []),
      isSelectorDisabled = (disabled \<or> isModelLoading \<or> groups = []),
      shouldShowStop = (isGenerating \<and> hasStopHandler)\<rparr>"

definition WAIT_GENERATION :: jstr where
  "WAIT_GENERATION = js ''Please wait for the current generation to complete''"

text \<open>A guarded action: what it does to the state, and the warnings shown.\<close>

definition guardAction :: "(jstr \<Rightarrow> jstr) \<Rightarrow> bool \<Rightarrow> ('s \<Rightarrow> 's) \<Rightarrow> 's \<Rightarrow> jstr list \<times> 's" where
  "guardAction t isGenerating action s = (if isGenerating then ([t WAIT_GENERATION], s) else ([], action s))"

section \<open>Properties\<close>

abbreviation offered :: "select_option list \<Rightarrow> jstr \<Rightarrow> bool" where
  "offered ms m \<equiv> m \<in> opt_value ` set ms"

lemma offered_ex: "list_ex (\<lambda>x. opt_value x = m) ms \<longleftrightarrow> offered ms m"
  by (auto simp: list_ex_iff)

lemma updateConfig_model:
  "str_of (obj_get (pg_config (updateConfig parse fits (js ''model'') (JStr m) p)) (js ''model'')) = m"
  by (simp add: updateConfig_def Let_def obj_get_def)

text \<open>The effect in one equation: keep an offered model, else take the first one, else none.\<close>

lemma models_effect_choice:
  "models_effect parse fits ms s = (let s' = s\<lparr>os_models := ms\<rparr>; m = (if ms = [] then [] else opt_value (hd ms)) in
     if offered ms (os_model s) \<or> m = os_model s then s'
     else s'\<lparr>os_pg := updateConfig parse fits (js ''model'') (JStr m) (os_pg s)\<rparr>)"
  by (cases ms) (auto simp: models_effect_def getModelFallback_def shouldClearModelForGroup_def offered_ex Let_def split: list.split)

text \<open>
  C35: Once models have arrived, the chosen model is the current one if it is offered, otherwise the first one
  that is offered, and none only when none is offered.  The configuration and what is stored of it change
  only when the model does, and then the configuration with the new model is saved.  Running the effect
  again, as React does when the model has changed, changes nothing more.
\<close>

theorem models_effect_settles:
  fixes parse :: parser and fits :: "local_storage \<Rightarrow> bool" and ms :: "select_option list" and s :: options_state
  defines "s' \<equiv> models_effect parse fits ms s"
  shows "os_models s' = ms \<and>
    os_model s' = (if offered ms (os_model s) then os_model s else if ms = [] then [] else opt_value (hd ms)) \<and>
    os_pg s' = (if os_model s' = os_model s then os_pg s
      else updateConfig parse fits (js ''model'') (JStr (os_model s')) (os_pg s)) \<and>
    models_effect parse fits ms s' = s'"
proof -
  let ?m = "if ms = [] then [] else opt_value (hd ms)"
  have model: "os_model s' = (if offered ms (os_model s) then os_model s else ?m)" and pg: "os_models s' = ms"
      "os_pg s' = (if os_model s' = os_model s then os_pg s else updateConfig parse fits (js ''model'') (JStr (os_model s')) (os_pg s))"
    by (auto simp: s'_def models_effect_choice Let_def os_model_def updateConfig_model)
  then have "offered ms (os_model s') \<or> os_model s' = ?m" by auto
  then have "models_effect parse fits ms s' = s'\<lparr>os_models := ms\<rparr>" by (auto simp: models_effect_choice Let_def)
  then show ?thesis using model pg by simp
qed

end
