(* ===== verification/BillingRules.thy ===== *)
theory BillingRules
  imports JsJson "HOL-Library.Monad_Syntax"
begin

text \<open>
  Request rules of billing expressions (\<open>src/web/src/features/pricing/lib/billing-expr.ts\<close>, from
  \<open>splitTopLevelMultiply\<close> on): conditional multipliers such as
  \<open>(hour("UTC") >= 9 && hour("UTC") < 12 ? 2 : 1)\<close> are parsed into groups of conditions for the visual
  editor and built back into text.  The regular expressions of the source are anchored and their
  character classes are disjoint from what follows them, so each is a sequence of deterministic scans.
  A parser that may throw returns \<open>Throws\<close>; \<open>NoMatch\<close> is the \<open>null\<close> of the code.
\<close>

section \<open>Scanning\<close>

definition lit :: "string \<Rightarrow> jstr \<Rightarrow> jstr option" where
  "lit p s = (if starts_with (js p) s then Some (drop (length p) s) else None)"

definition run1 :: "(jchar \<Rightarrow> bool) \<Rightarrow> jstr \<Rightarrow> (jstr \<times> jstr) option" where
  "run1 f s = (if takeWhile f s = [] then None else Some (takeWhile f s, dropWhile f s))"

definition is_quote :: "jchar \<Rightarrow> bool" where
  "is_quote c \<longleftrightarrow> c = 34"

definition is_line_terminator :: "jchar \<Rightarrow> bool" where
  "is_line_terminator c \<longleftrightarrow> c = 10 \<or> c = 13 \<or> c = 8232 \<or> c = 8233"

text \<open>The class \<open>[\d.eE+-]\<close>.\<close>

definition is_num_char :: "jchar \<Rightarrow> bool" where
  "is_num_char c \<longleftrightarrow> is_digit c \<or> c = 46 \<or> c = 101 \<or> c = 69 \<or> c = 43 \<or> c = 45"

text \<open>\<open>NUMERIC_LITERAL_REGEX\<close>, \<open>/^-?(?:\d+\.?\d*|\.\d+)(?:[eE][+-]?\d+)?$/\<close>.\<close>

definition exponent_ok :: "jstr \<Rightarrow> bool" where
  "exponent_ok s = (case s of
     [] \<Rightarrow> True
   | c # r \<Rightarrow>
     (let r' = (case r of d # r2 \<Rightarrow> (if d = 43 \<or> d = 45 then r2 else r) | [] \<Rightarrow> [])
      in (c = 101 \<or> c = 69) \<and> r' \<noteq> [] \<and> list_all is_digit r'))"

definition unsigned_literal :: "jstr \<Rightarrow> bool" where
  "unsigned_literal s =
     (let d = takeWhile is_digit s; r = dropWhile is_digit s
      in if d \<noteq> [] then exponent_ok (case r of c # r2 \<Rightarrow> (if c = 46 then dropWhile is_digit r2 else r) | [] \<Rightarrow> [])
         else (case r of
             c # r2 \<Rightarrow> c = 46 \<and> takeWhile is_digit r2 \<noteq> [] \<and> exponent_ok (dropWhile is_digit r2)
           | [] \<Rightarrow> False))"

definition numeric_literal :: "jstr \<Rightarrow> bool" where
  "numeric_literal s = unsigned_literal (case s of c # r \<Rightarrow> (if c = 45 then r else s) | [] \<Rightarrow> [])"

text \<open>A string literal \<open>"(?:[^"\\]|\\.)*"\<close>: the literal with its quotes, and the rest.\<close>

fun string_body :: "jstr \<Rightarrow> (jstr \<times> jstr) option" where
  "string_body [] = None"
| "string_body (c # s) =
     (if c = 34 then Some ([c], s)
      else if c = 92 then (case s of
          [] \<Rightarrow> None
        | d # r \<Rightarrow> (if is_line_terminator d then None else map_option (\<lambda>(x, y). (c # d # x, y)) (string_body r)))
      else map_option (\<lambda>(x, y). (c # x, y)) (string_body s))"

definition string_literal :: "jstr \<Rightarrow> (jstr \<times> jstr) option" where
  "string_literal s = (case s of
     [] \<Rightarrow> None
   | c # r \<Rightarrow> (if c = 34 then map_option (\<lambda>(x, y). (c # x, y)) (string_body r) else None))"

text \<open>\<open>\("([^"]+)"\)\<close>: a call with a plain string.\<close>

definition plain_arg :: "jstr \<Rightarrow> (jstr \<times> jstr) option" where
  "plain_arg s = do {
     s1 \<leftarrow> lit ''(\"'' s;
     (x, s2) \<leftarrow> run1 (\<lambda>c. \<not> is_quote c) s1;
     s3 \<leftarrow> lit ''\")'' s2;
     Some (x, s3)
   }"

fun js_string :: "jsval \<Rightarrow> jstr" where
  "js_string JUndef = js ''undefined''"
| "js_string JNull = js ''null''"
| "js_string (JBool b) = (if b then js ''true'' else js ''false'')"
| "js_string (JNum x) = String x"
| "js_string (JStr s) = s"
| "js_string (JArr xs) = join [44] (map (\<lambda>x. if nullish x then [] else js_string x) xs)"
| "js_string (JObj ps) = js ''[object Object]''"

section \<open>Conditions\<close>

datatype time_func = Hour | Minute | Weekday | Month | Day

fun func_text :: "time_func \<Rightarrow> string" where
  "func_text Hour = ''hour''"
| "func_text Minute = ''minute''"
| "func_text Weekday = ''weekday''"
| "func_text Month = ''month''"
| "func_text Day = ''day''"

definition TIME_FUNCS :: "time_func list" where
  "TIME_FUNCS = [Hour, Minute, Weekday, Month, Day]"

definition MATCH_EQ :: jstr where "MATCH_EQ = js ''eq''"
definition MATCH_CONTAINS :: jstr where "MATCH_CONTAINS = js ''contains''"
definition MATCH_GT :: jstr where "MATCH_GT = js ''gt''"
definition MATCH_GTE :: jstr where "MATCH_GTE = js ''gte''"
definition MATCH_LT :: jstr where "MATCH_LT = js ''lt''"
definition MATCH_LTE :: jstr where "MATCH_LTE = js ''lte''"
definition MATCH_EXISTS :: jstr where "MATCH_EXISTS = js ''exists''"
definition MATCH_RANGE :: jstr where "MATCH_RANGE = js ''range''"

record time_condition =
  timeFunc :: time_func
  timezone :: jstr
  t_mode :: jstr
  t_value :: jstr
  rangeStart :: jstr
  rangeEnd :: jstr

datatype rule_source = Param | Header

record param_condition =
  ph_source :: rule_source
  ph_path :: jstr
  ph_mode :: jstr
  ph_value :: jstr

datatype condition = TimeCond time_condition | ParamCond param_condition

record rule_group =
  conditions :: "condition list"
  multiplier :: jstr

datatype 'a attempt = NoMatch | Throws | Got 'a

fun attempt_bind :: "'a attempt \<Rightarrow> ('a \<Rightarrow> 'b attempt) \<Rightarrow> 'b attempt" where
  "attempt_bind (Got x) f = f x"
| "attempt_bind Throws f = Throws"
| "attempt_bind NoMatch f = NoMatch"

section \<open>Parsing conditions\<close>

definition TIME_FUNC_RANGES :: "time_func \<Rightarrow> int \<times> int" where
  "TIME_FUNC_RANGES f = (case f of
     Hour \<Rightarrow> (0, 23) | Minute \<Rightarrow> (0, 59) | Weekday \<Rightarrow> (0, 6) | Month \<Rightarrow> (1, 12) | Day \<Rightarrow> (1, 31))"

definition isTimeValueInRange :: "time_func \<Rightarrow> jstr \<Rightarrow> bool" where
  "isTimeValueInRange f s \<longleftrightarrow> numeric_literal s \<and> isInteger (Number s) \<and>
     num_le (of_i (fst (TIME_FUNC_RANGES f))) (Number s) \<and> num_le (Number s) (of_i (snd (TIME_FUNC_RANGES f)))"

definition time_call :: "jstr \<Rightarrow> (time_func \<times> jstr \<times> jstr) option" where
  "time_call s = (case List.find (\<lambda>f. lit (func_text f) s \<noteq> None) TIME_FUNCS of
     None \<Rightarrow> None
   | Some f \<Rightarrow> map_option (\<lambda>(tz, r). (f, tz, r)) (plain_arg (the (lit (func_text f) s))))"

text \<open>\<open>fn("tz") >= a && fn("tz") < b\<close>, with either connective, and what follows it.\<close>

definition time_range_at :: "jstr \<Rightarrow> (time_func \<times> jstr \<times> jstr \<times> jstr \<times> jstr) option" where
  "time_range_at s = do {
     (f, tz, s1) \<leftarrow> time_call s;
     s2 \<leftarrow> lit '' >= '' s1;
     (a, s3) \<leftarrow> run1 is_num_char s2;
     s4 \<leftarrow> (case lit '' && '' s3 of Some r \<Rightarrow> Some r | None \<Rightarrow> lit '' || '' s3);
     s5 \<leftarrow> lit (func_text f) s4;
     (tz', s6) \<leftarrow> plain_arg s5;
     s7 \<leftarrow> (if tz' = tz then lit '' < '' s6 else None);
     (b, s8) \<leftarrow> run1 is_num_char s7;
     Some (f, tz, a, b, s8)
   }"

definition time_range :: "jstr \<Rightarrow> (time_func \<times> jstr \<times> jstr \<times> jstr) option" where
  "time_range s = (case time_range_at s of
     Some (f, tz, a, b, []) \<Rightarrow> Some (f, tz, a, b)
   | _ \<Rightarrow> (case lit ''('' s of
       None \<Rightarrow> None
     | Some r \<Rightarrow> (case time_range_at r of
         Some (f, tz, a, b, rest) \<Rightarrow> (if rest = js '')'' then Some (f, tz, a, b) else None)
       | None \<Rightarrow> None)))"

definition time_scalar :: "jstr \<Rightarrow> (time_func \<times> jstr \<times> jstr \<times> jstr) option" where
  "time_scalar s = do {
     (f, tz, s1) \<leftarrow> time_call s;
     (mode, s2) \<leftarrow> (case lit '' == '' s1 of Some r \<Rightarrow> Some (MATCH_EQ, r) | None \<Rightarrow>
        (case lit '' >= '' s1 of Some r \<Rightarrow> Some (MATCH_GTE, r) | None \<Rightarrow>
          (case lit '' < '' s1 of Some r \<Rightarrow> Some (MATCH_LT, r) | None \<Rightarrow> None)));
     (v, s3) \<leftarrow> run1 is_num_char s2;
     if s3 = [] then Some (f, tz, mode, v) else None
   }"

definition tryParseTimeCondition :: "jstr \<Rightarrow> time_condition option" where
  "tryParseTimeCondition s = (case time_range s of
     Some (f, tz, a, b) \<Rightarrow>
       (if \<not> isTimeValueInRange f a \<or> \<not> isTimeValueInRange f b then None
        else Some \<lparr>timeFunc = f, timezone = tz, t_mode = MATCH_RANGE, t_value = [], rangeStart = a, rangeEnd = b\<rparr>)
   | None \<Rightarrow> (case time_scalar s of
       Some (f, tz, mode, v) \<Rightarrow>
         (if \<not> isTimeValueInRange f v then None
          else Some \<lparr>timeFunc = f, timezone = tz, t_mode = mode, t_value = v, rangeStart = [], rangeEnd = []\<rparr>)
     | None \<Rightarrow> None))"

definition parseExprLiteral :: "jstr \<Rightarrow> jsval option" where
  "parseExprLiteral raw =
     (let s = js_trim raw in
      if s = js ''true'' \<or> s = js ''false'' then Some (JStr s)
      else if numeric_literal s then Some (JStr s)
      else case json_parse s of Some JNull \<Rightarrow> None | r \<Rightarrow> r)"

definition found :: "rule_source \<Rightarrow> jstr \<Rightarrow> jstr \<Rightarrow> jstr \<Rightarrow> condition attempt" where
  "found src path mode v = Got (ParamCond \<lparr>ph_source = src, ph_path = path, ph_mode = mode, ph_value = v\<rparr>)"

text \<open>\<open>JSON.parse\<close> of a matched string literal, used as a value.\<close>

definition found_literal :: "rule_source \<Rightarrow> jstr \<Rightarrow> jstr \<Rightarrow> condition attempt" where
  "found_literal src path quoted = (case json_parse quoted of
     None \<Rightarrow> Throws
   | Some v \<Rightarrow> found src path MATCH_CONTAINS (str_of v))"

definition call_of :: "string \<Rightarrow> jstr \<Rightarrow> (jstr \<times> jstr) option" where
  "call_of name s = Option.bind (lit name s) plain_arg"

text \<open>\<open>has(name("path"), "literal")\<close> up to the end of the text.\<close>

definition has_call :: "string \<Rightarrow> jstr \<Rightarrow> (jstr \<times> jstr) option" where
  "has_call name s = do {
     s1 \<leftarrow> lit ''has('' s;
     (path, s2) \<leftarrow> call_of name s1;
     s3 \<leftarrow> lit '', '' s2;
     (quoted, s4) \<leftarrow> string_literal s3;
     if s4 = js '')'' then Some (path, quoted) else None
   }"

definition comparison :: "jstr \<Rightarrow> (jstr \<times> jstr) option" where
  "comparison s = (case lit '' >= '' s of Some r \<Rightarrow> Some (MATCH_GTE, r) | None \<Rightarrow>
     (case lit '' > '' s of Some r \<Rightarrow> Some (MATCH_GT, r) | None \<Rightarrow>
     (case lit '' <= '' s of Some r \<Rightarrow> Some (MATCH_LTE, r) | None \<Rightarrow>
     (case lit '' < '' s of Some r \<Rightarrow> Some (MATCH_LT, r) | None \<Rightarrow> None))))"

text \<open>The guarded forms \<open>param("path") != nil && ...\<close>: the path and what follows the guard.\<close>

definition nil_guard :: "jstr \<Rightarrow> (jstr \<times> jstr) option" where
  "nil_guard s = do {
     (path, s1) \<leftarrow> call_of ''param'' s;
     s2 \<leftarrow> lit '' != nil && '' s1;
     Some (path, s2)
   }"

definition guarded_has :: "jstr \<Rightarrow> (jstr \<times> jstr) option" where
  "guarded_has s = do {
     (path, r) \<leftarrow> nil_guard s;
     (path', quoted) \<leftarrow> has_call ''param'' r;
     if path = path' then Some (path, quoted) else None
   }"

definition guarded_comparison :: "jstr \<Rightarrow> (jstr \<times> jstr \<times> jstr) option" where
  "guarded_comparison s = do {
     (path, r) \<leftarrow> nil_guard s;
     (path', r1) \<leftarrow> call_of ''param'' r;
     (mode, r2) \<leftarrow> comparison r1;
     (v, r3) \<leftarrow> run1 is_num_char r2;
     if r3 = [] \<and> path = path' then Some (path, mode, v) else None
   }"

text \<open>\<open>/^(param|header)\("([^"]+)"\) == (.+)$/\<close>.\<close>

definition equality :: "jstr \<Rightarrow> (rule_source \<times> jstr \<times> jstr) option" where
  "equality s = do {
     (src, path, s1) \<leftarrow> (case call_of ''param'' s of
         Some (p, r) \<Rightarrow> Some (Param, p, r)
       | None \<Rightarrow> map_option (\<lambda>(p, r). (Header, p, r)) (call_of ''header'' s));
     v \<leftarrow> lit '' == '' s1;
     if v \<noteq> [] \<and> list_all (\<lambda>c. \<not> is_line_terminator c) v then Some (src, path, v) else None
   }"

definition exists_call :: "string \<Rightarrow> string \<Rightarrow> jstr \<Rightarrow> jstr option" where
  "exists_call name suffix s = (case call_of name s of
     Some (path, r) \<Rightarrow> (if r = js suffix then Some path else None) | None \<Rightarrow> None)"

definition tryParseRequestCondition :: "jstr \<Rightarrow> condition attempt" where
  "tryParseRequestCondition s = (case tryParseTimeCondition s of
     Some tc \<Rightarrow> Got (TimeCond tc)
   | None \<Rightarrow> (case exists_call ''header'' '' != \"\"'' s of Some path \<Rightarrow> found Header path MATCH_EXISTS []
   | None \<Rightarrow> (case exists_call ''param'' '' != nil'' s of Some path \<Rightarrow> found Param path MATCH_EXISTS []
   | None \<Rightarrow> (case has_call ''header'' s of Some (path, quoted) \<Rightarrow> found_literal Header path quoted
   | None \<Rightarrow> (case guarded_has s of Some (path, quoted) \<Rightarrow> found_literal Param path quoted
   | None \<Rightarrow> (case guarded_comparison s of Some (path, mode, v) \<Rightarrow> found Param path mode v
   | None \<Rightarrow> (case equality s of
       Some (src, path, raw) \<Rightarrow> (case parseExprLiteral raw of
           None \<Rightarrow> NoMatch | Some v \<Rightarrow> found src path MATCH_EQ (js_string v))
     | None \<Rightarrow> NoMatch)))))))"

definition tryParseTimeRangePair :: "jstr \<Rightarrow> jstr \<Rightarrow> time_condition option" where
  "tryParseTimeRangePair lower upper = (case (tryParseTimeCondition lower, tryParseTimeCondition upper) of
     (Some a, Some b) \<Rightarrow>
       (if timeFunc a \<noteq> timeFunc b \<or> timezone a \<noteq> timezone b then None
        else if t_mode a \<noteq> MATCH_GTE \<or> t_mode b \<noteq> MATCH_LT then None
        else Some \<lparr>timeFunc = timeFunc a, timezone = timezone a, t_mode = MATCH_RANGE, t_value = [],
                   rangeStart = t_value a, rangeEnd = t_value b\<rparr>)
   | _ \<Rightarrow> None)"

section \<open>Splitting\<close>

text \<open>The loops of \<open>splitTopLevelMultiply\<close> and \<open>splitTopLevelAnd\<close>; \<open>cur\<close> is the current part, reversed.\<close>

definition paren_depth :: "int \<Rightarrow> jchar \<Rightarrow> int" where
  "paren_depth d c = (if c = 40 then d + 1 else if c = 41 then d - 1 else d)"

function split_top :: "jstr \<Rightarrow> int \<Rightarrow> jstr \<Rightarrow> jstr \<Rightarrow> jstr list" where
  "split_top sep d cur [] = [rev cur]"
| "split_top sep d cur (c # s) =
     (let d' = paren_depth d c in
      if d' = 0 \<and> starts_with sep (c # s) then rev cur # split_top sep d' [] (drop (length sep - 1) s)
      else split_top sep d' (c # cur) s)"
  by pat_completeness auto
termination by (relation "measure (\<lambda>(sep, d, cur, s). length s)") auto

definition split_parts :: "string \<Rightarrow> jstr \<Rightarrow> jstr list" where
  "split_parts sep s = filter (\<lambda>p. p \<noteq> []) (map js_trim (split_top (js sep) 0 [] s))"

definition splitTopLevelMultiply :: "jstr \<Rightarrow> jstr list" where
  "splitTopLevelMultiply s = split_parts '' * '' s"

definition splitTopLevelAnd :: "jstr \<Rightarrow> jstr list" where
  "splitTopLevelAnd s = split_parts '' && '' s"

section \<open>Parsing rules\<close>

text \<open>The loop of \<open>tryParseRequestConditions\<close> over the parts.\<close>

fun parse_parts :: "jstr list \<Rightarrow> condition list attempt" where
  "parse_parts [] = Got []"
| "parse_parts (p # ps) =
     (case (case ps of [] \<Rightarrow> None | q # _ \<Rightarrow>
         (if js_trim q = [] then None else tryParseTimeRangePair (js_trim p) (js_trim q))) of
        Some merged \<Rightarrow> attempt_bind (parse_parts (tl ps)) (\<lambda>cs. Got (TimeCond merged # cs))
      | None \<Rightarrow> attempt_bind (tryParseRequestCondition (js_trim p)) (\<lambda>c.
          attempt_bind (parse_parts ps) (\<lambda>cs. Got (c # cs))))"

definition tryParseRequestConditions :: "jstr \<Rightarrow> condition list attempt" where
  "tryParseRequestConditions s = (case tryParseTimeCondition (js_trim s) of
     Some tc \<Rightarrow> Got [TimeCond tc]
   | None \<Rightarrow> attempt_bind (parse_parts (splitTopLevelAnd s)) (\<lambda>cs. if cs \<noteq> [] then Got cs else NoMatch))"

text \<open>\<open>/^\((.+) \? ([\d.eE+-]+) : 1\)$/s\<close>: read from the end, where the number has no spaces.\<close>

definition rule_factor :: "jstr \<Rightarrow> (jstr \<times> jstr) option" where
  "rule_factor s = do {
     s1 \<leftarrow> lit ''('' s;
     r1 \<leftarrow> lit '')1 : '' (rev s1);
     (num, r2) \<leftarrow> run1 is_num_char r1;
     r3 \<leftarrow> lit '' ? '' r2;
     if r3 = [] then None else Some (rev r3, rev num)
   }"

definition tryParseRuleGroupFactor :: "jstr \<Rightarrow> rule_group attempt" where
  "tryParseRuleGroupFactor part = (case rule_factor part of
     None \<Rightarrow> NoMatch
   | Some (cond, num) \<Rightarrow>
     attempt_bind (tryParseRequestConditions cond) (\<lambda>cs. Got \<lparr>conditions = cs, multiplier = num\<rparr>))"

fun parse_factors :: "jstr list \<Rightarrow> rule_group list attempt" where
  "parse_factors [] = Got []"
| "parse_factors (p # ps) = attempt_bind (tryParseRuleGroupFactor p) (\<lambda>g.
     attempt_bind (parse_factors ps) (\<lambda>gs. Got (g # gs)))"

definition tryParseRequestRuleExpr :: "jstr \<Rightarrow> rule_group list attempt" where
  "tryParseRequestRuleExpr s =
     (let trimmed = js_trim s in if trimmed = [] then Got [] else parse_factors (splitTopLevelMultiply trimmed))"

record rule_trace =
  trace_cond :: jstr
  trace_multiplier :: jsnum
  trace_matched :: bool

text \<open>Groups shown for a trace; a condition that cannot be parsed is shown as text only.\<close>

record traced_group = rule_group +
  conditionText :: jstr
  matched :: bool

definition trace_group :: "rule_trace \<Rightarrow> traced_group attempt" where
  "trace_group r = (let txt = js_trim (trace_cond r) in
     case tryParseRequestConditions txt of
       Throws \<Rightarrow> Throws
     | NoMatch \<Rightarrow> Got \<lparr>conditions = [], multiplier = String (trace_multiplier r), conditionText = txt, matched = trace_matched r\<rparr>
     | Got cs \<Rightarrow> Got \<lparr>conditions = cs, multiplier = String (trace_multiplier r), conditionText = txt, matched = trace_matched r\<rparr>)"

fun requestRuleGroupsFromTrace :: "rule_trace list \<Rightarrow> traced_group list attempt" where
  "requestRuleGroupsFromTrace [] = Got []"
| "requestRuleGroupsFromTrace (r # rs) = attempt_bind (trace_group r) (\<lambda>g.
     attempt_bind (requestRuleGroupsFromTrace rs) (\<lambda>gs. Got (g # gs)))"

section \<open>Combining and splitting expressions\<close>

fun full_parens :: "int \<Rightarrow> jstr \<Rightarrow> bool" where
  "full_parens d [] \<longleftrightarrow> d = 0"
| "full_parens d (c # s) \<longleftrightarrow> (let d' = paren_depth d c in if d' = 0 \<and> s \<noteq> [] then False else full_parens d' s)"

definition hasFullOuterParens :: "jstr \<Rightarrow> bool" where
  "hasFullOuterParens s \<longleftrightarrow> s \<noteq> [] \<and> hd s = 40 \<and> last s = 41 \<and> full_parens 0 s"

text \<open>The loop of \<open>unwrapOuterParens\<close>; \<open>slice(1, -1)\<close> of a single character is empty.\<close>

function unwrap_loop :: "jstr \<Rightarrow> jstr" where
  "unwrap_loop cur = (if hasFullOuterParens cur then unwrap_loop (js_trim (butlast (tl cur))) else cur)"
  by pat_completeness auto
termination
proof (relation "measure length", goal_cases)
  case (2 cur)
  have "length (js_trim s) \<le> length s" for s :: jstr
    unfolding js_trim_def by (metis length_dropWhile_le length_rev le_trans)
  moreover have "length (butlast (tl cur)) < length cur"
    using 2 by (cases cur) (auto simp: hasFullOuterParens_def)
  ultimately show ?case by (metis in_measure le_less_trans)
qed simp

declare unwrap_loop.simps [simp del]

definition unwrapOuterParens :: "jstr \<Rightarrow> jstr" where
  "unwrapOuterParens s = unwrap_loop (js_trim s)"

record split_expr =
  billingExpr :: jstr
  requestRuleExpr :: jstr

text \<open>The loop over the parts: rule factors and everything else.\<close>

fun sort_parts :: "jstr list \<Rightarrow> (jstr list \<times> jstr list) attempt" where
  "sort_parts [] = Got ([], [])"
| "sort_parts (p # ps) = (case tryParseRequestRuleExpr p of
     Throws \<Rightarrow> Throws
   | r \<Rightarrow> attempt_bind (sort_parts ps) (\<lambda>(rules, bases).
       if (case r of Got gs \<Rightarrow> gs \<noteq> [] | _ \<Rightarrow> False) then Got (p # rules, bases) else Got (rules, p # bases)))"

definition splitBillingExprAndRequestRules :: "jstr \<Rightarrow> split_expr attempt" where
  "splitBillingExprAndRequestRules expr =
     (let trimmed = js_trim expr; parts = splitTopLevelMultiply trimmed;
          whole = \<lparr>billingExpr = trimmed, requestRuleExpr = []\<rparr>
      in if trimmed = [] \<or> length parts \<le> 1 then Got whole
         else attempt_bind (sort_parts parts) (\<lambda>(rules, bases).
           if rules = [] \<or> length bases \<noteq> 1 then Got whole
           else Got \<lparr>billingExpr = unwrapOuterParens (hd bases), requestRuleExpr = join (js '' * '') rules\<rparr>))"

definition combineBillingExpr :: "jstr \<Rightarrow> jstr \<Rightarrow> jstr" where
  "combineBillingExpr baseExpr ruleExpr =
     (let base = js_trim baseExpr; rules = js_trim ruleExpr
      in if base = [] then [] else if rules = [] then base
         else js ''('' @ base @ js '') * '' @ rules)"

section \<open>The editor\<close>

definition createEmptyCondition :: param_condition where
  "createEmptyCondition = \<lparr>ph_source = Param, ph_path = [], ph_mode = MATCH_EQ, ph_value = []\<rparr>"

definition createEmptyTimeCondition :: time_condition where
  "createEmptyTimeCondition = \<lparr>timeFunc = Hour, timezone = js ''Asia/Shanghai'', t_mode = MATCH_GTE, t_value = [],
     rangeStart = [], rangeEnd = []\<rparr>"

definition createEmptyRuleGroup :: rule_group where
  "createEmptyRuleGroup = \<lparr>conditions = [ParamCond createEmptyCondition], multiplier = []\<rparr>"

definition createEmptyTimeRuleGroup :: rule_group where
  "createEmptyTimeRuleGroup = \<lparr>conditions = [TimeCond createEmptyTimeCondition], multiplier = []\<rparr>"

text \<open>The modes offered for a source; their labels are left out.\<close>

definition getRequestRuleMatchOptions :: "jstr \<Rightarrow> jstr list" where
  "getRequestRuleMatchOptions src =
     (if src = js ''time'' then [MATCH_EQ, MATCH_GTE, MATCH_LT, MATCH_RANGE]
      else if src = js ''header'' then [MATCH_EQ, MATCH_CONTAINS, MATCH_EXISTS]
      else [MATCH_EQ, MATCH_CONTAINS, MATCH_EXISTS] @ [MATCH_GT, MATCH_GTE, MATCH_LT, MATCH_LTE])"

definition func_of :: "jsval \<Rightarrow> time_func option" where
  "func_of v = List.find (\<lambda>f. v = JStr (js (func_text f))) TIME_FUNCS"

text \<open>\<open>x == null ? '' : String(x)\<close> and \<open>x || d\<close>.\<close>

definition text_field :: "jsval \<Rightarrow> jstr" where
  "text_field v = (if nullish v then [] else js_string v)"

definition or_text :: "jsval \<Rightarrow> jstr \<Rightarrow> jstr" where
  "or_text v d = (if js_truthy v then str_of v else d)"

definition allowed_mode :: "jstr \<Rightarrow> jsval \<Rightarrow> jstr \<Rightarrow> jstr" where
  "allowed_mode src mode d = (if \<exists>m \<in> set (getRequestRuleMatchOptions src). mode = JStr m then str_of mode else d)"

definition normalizeCondition :: "jsval \<Rightarrow> condition" where
  "normalizeCondition cond =
     (if js_get cond (js ''source'') = JStr (js ''time'') then
        TimeCond \<lparr>timeFunc = (case func_of (js_get cond (js ''timeFunc'')) of Some f \<Rightarrow> f | None \<Rightarrow> Hour),
          timezone = or_text (js_get cond (js ''timezone'')) (js ''Asia/Shanghai''),
          t_mode = allowed_mode (js ''time'') (js_get cond (js ''mode'')) MATCH_GTE,
          t_value = text_field (js_get cond (js ''value'')),
          rangeStart = text_field (js_get cond (js ''rangeStart'')), rangeEnd = text_field (js_get cond (js ''rangeEnd''))\<rparr>
      else
        let src = (if js_get cond (js ''source'') = JStr (js ''header'') then Header else Param);
            name = (case src of Header \<Rightarrow> js ''header'' | Param \<Rightarrow> js ''param'')
        in ParamCond \<lparr>ph_source = src, ph_path = or_text (js_get cond (js ''path'')) [],
             ph_mode = allowed_mode name (js_get cond (js ''mode'')) MATCH_EQ,
             ph_value = text_field (js_get cond (js ''value''))\<rparr>)"

fun condition_value :: "condition \<Rightarrow> jsval" where
  "condition_value (TimeCond c) = JObj [(js ''source'', JStr (js ''time'')), (js ''timeFunc'', JStr (js (func_text (timeFunc c)))),
     (js ''timezone'', JStr (timezone c)), (js ''mode'', JStr (t_mode c)), (js ''value'', JStr (t_value c)),
     (js ''rangeStart'', JStr (rangeStart c)), (js ''rangeEnd'', JStr (rangeEnd c))]"
| "condition_value (ParamCond c) = JObj [(js ''source'', JStr (case ph_source c of Param \<Rightarrow> js ''param'' | Header \<Rightarrow> js ''header'')),
     (js ''path'', JStr (ph_path c)), (js ''mode'', JStr (ph_mode c)), (js ''value'', JStr (ph_value c))]"

section \<open>Building expressions\<close>

definition buildExprLiteral :: "jstr \<Rightarrow> jstr \<Rightarrow> jstr" where
  "buildExprLiteral mode v =
     (let s = js_trim v in
      if mode = MATCH_CONTAINS then json_quote s
      else if s = js ''true'' \<or> s = js ''false'' then s
      else if numeric_literal s then s
      else json_quote s)"

definition call_text :: "string \<Rightarrow> jstr \<Rightarrow> jstr" where
  "call_text name arg = js name @ js ''('' @ json_quote arg @ js '')''"

definition build_time :: "time_condition \<Rightarrow> jstr" where
  "build_time n =
     (let fn = call_text (func_text (timeFunc n)) (timezone n) in
      if t_mode n = MATCH_RANGE then
        (let s = js_trim (rangeStart n); e = js_trim (rangeEnd n) in
         if \<not> isTimeValueInRange (timeFunc n) s \<or> \<not> isTimeValueInRange (timeFunc n) e then []
         else if num_lt (Number e) (Number s) then fn @ js '' >= '' @ s @ js '' || '' @ fn @ js '' < '' @ e
         else fn @ js '' >= '' @ s @ js '' && '' @ fn @ js '' < '' @ e)
      else
        (let v = js_trim (t_value n) in
         if \<not> isTimeValueInRange (timeFunc n) v then []
         else fn @ js '' '' @ (if t_mode n = MATCH_GTE then js ''>='' else if t_mode n = MATCH_LT then js ''<'' else js ''=='') @
           js '' '' @ v))"

definition buildTimeConditionExpr :: "time_condition \<Rightarrow> jstr" where
  "buildTimeConditionExpr c = (case normalizeCondition (condition_value (TimeCond c)) of
     TimeCond n \<Rightarrow> build_time n | ParamCond _ \<Rightarrow> [])"

definition build_param :: "param_condition \<Rightarrow> jstr" where
  "build_param n =
     (let path = js_trim (ph_path n);
          src = (case ph_source n of Header \<Rightarrow> call_text ''header'' path | Param \<Rightarrow> call_text ''param'' path)
      in if path = [] then []
         else if ph_mode n = MATCH_EXISTS then
           (case ph_source n of Header \<Rightarrow> src @ js '' != \"\"'' | Param \<Rightarrow> src @ js '' != nil'')
         else if ph_mode n = MATCH_CONTAINS then
           (let has = js ''has('' @ src @ js '', '' @ buildExprLiteral (ph_mode n) (ph_value n) @ js '')''
            in case ph_source n of Header \<Rightarrow> has | Param \<Rightarrow> src @ js '' != nil && '' @ has)
         else if ph_mode n \<in> {MATCH_GT, MATCH_GTE, MATCH_LT, MATCH_LTE} then
           (let num = js_trim (ph_value n);
                op = (if ph_mode n = MATCH_GT then js ''>'' else if ph_mode n = MATCH_GTE then js ''>=''
                      else if ph_mode n = MATCH_LT then js ''<'' else js ''<='')
            in if \<not> numeric_literal num then []
               else src @ js '' != nil && '' @ src @ js '' '' @ op @ js '' '' @ num)
         else src @ js '' == '' @ buildExprLiteral (ph_mode n) (ph_value n))"

definition buildRequestConditionExpr :: "condition \<Rightarrow> jstr" where
  "buildRequestConditionExpr cond = (case cond of
     TimeCond c \<Rightarrow> buildTimeConditionExpr c
   | ParamCond c \<Rightarrow> (case normalizeCondition (condition_value cond) of ParamCond n \<Rightarrow> build_param n | TimeCond _ \<Rightarrow> []))"

definition wrap_or :: "jstr \<Rightarrow> jstr" where
  "wrap_or e = (if js_includes e (js '' || '') then js ''('' @ e @ js '')'' else e)"

definition buildRuleGroupFactor :: "rule_group \<Rightarrow> jstr" where
  "buildRuleGroupFactor g =
     (let num = js_trim (multiplier g);
          exprs = filter (\<lambda>e. e \<noteq> []) (map buildRequestConditionExpr (conditions g))
      in if \<not> numeric_literal num then []
         else if exprs = [] then []
         else js ''('' @ (if length exprs = 1 then hd exprs else join (js '' && '') (map wrap_or exprs)) @
           js '' ? '' @ num @ js '' : 1)'')"

definition buildRequestRuleExpr :: "rule_group list \<Rightarrow> jstr" where
  "buildRequestRuleExpr gs = join (js '' * '') (filter (\<lambda>e. e \<noteq> []) (map buildRuleGroupFactor gs))"

end
