(* ===== verification/TaskTiers.thy ===== *)
theory TaskTiers
  imports BillingRules
begin

text \<open>
  The parser of task pricing in \<^verbatim>\<open>features/pricing/lib/billing-expr.ts\<close>.  A task expression is a chain
  \<open>u("quality") == "hd" ? tier("hd", u("seconds") * 2) : tier("base", ...)\<close> over the usage fields a
  schema declares.  Three scanners look for characters outside parentheses and string literals; the
  locale \<open>quoted_scan\<close> states what they share, and each is an interpretation of it.
\<close>

section \<open>Schemas and tiers\<close>

datatype usage_unit = Second | Count | Token | Credit

datatype usage_type = NumberType | BooleanType

record usage_field =
  field_type :: "usage_type option"
  field_unit :: "usage_unit option"
  field_enum :: "jstr list option"

type_synonym usage_schema = "(jstr \<times> usage_field) list"

record task_condition =
  tc_field :: jstr
  tc_value :: jstr

record task_tier =
  tier_label :: jstr
  tier_conditions :: "task_condition list"
  tier_constant :: jsnum
  tier_prices :: "(jstr \<times> jsnum) list"

definition stripExprVersion :: "jstr \<Rightarrow> jsnum \<times> jstr" where
  "stripExprVersion s = (case s of
     [] \<Rightarrow> (of_i 1, [])
   | c # r \<Rightarrow> (let ds = takeWhile is_digit r; q = dropWhile is_digit r in
       if c = 118 \<and> ds \<noteq> [] \<and> q \<noteq> [] \<and> hd q = 58 then (Number ds, tl q) else (of_i 1, s)))"

section \<open>Scanners\<close>

text \<open>
  The state of a scanner is the depth of parentheses, whether it is inside a string literal, and
  whether the last character there was a backslash.  The first scanner finds a character, the second
  the colon that belongs to a question mark, the third cuts at an operator.
\<close>

fun find_char :: "jchar \<Rightarrow> int \<Rightarrow> bool \<Rightarrow> bool \<Rightarrow> nat \<Rightarrow> jstr \<Rightarrow> nat option" where
  "find_char t d quoted escaped i [] = None"
| "find_char t d quoted escaped i (c # s) =
     (if quoted then
        (if escaped then find_char t d True False (Suc i) s
         else if c = 92 then find_char t d True True (Suc i) s
         else if c = 34 then find_char t d False escaped (Suc i) s
         else find_char t d True escaped (Suc i) s)
      else if c = 34 then find_char t d True escaped (Suc i) s
      else if c = 40 then find_char t (d + 1) False escaped (Suc i) s
      else if c = 41 then (if d - 1 < 0 then None else find_char t (d - 1) False escaped (Suc i) s)
      else if d = 0 \<and> c = t then Some i
      else find_char t d False escaped (Suc i) s)"

definition findTaskTopLevelCharacter :: "jstr \<Rightarrow> jchar \<Rightarrow> nat \<Rightarrow> nat option" where
  "findTaskTopLevelCharacter expression t start = find_char t 0 False False start (drop start expression)"

fun find_colon :: "int \<Rightarrow> bool \<Rightarrow> bool \<Rightarrow> int \<Rightarrow> nat \<Rightarrow> jstr \<Rightarrow> nat option" where
  "find_colon d quoted escaped ternary i [] = None"
| "find_colon d quoted escaped ternary i (c # s) =
     (if quoted then
        (if escaped then find_colon d True False ternary (Suc i) s
         else if c = 92 then find_colon d True True ternary (Suc i) s
         else if c = 34 then find_colon d False escaped ternary (Suc i) s
         else find_colon d True escaped ternary (Suc i) s)
      else if c = 34 then find_colon d True escaped ternary (Suc i) s
      else if c = 40 then find_colon (d + 1) False escaped ternary (Suc i) s
      else if c = 41 then (if d - 1 < 0 then None else find_colon (d - 1) False escaped ternary (Suc i) s)
      else if d \<noteq> 0 then find_colon d False escaped ternary (Suc i) s
      else if c = 63 then find_colon d False escaped (ternary + 1) (Suc i) s
      else if c \<noteq> 58 then find_colon d False escaped ternary (Suc i) s
      else if ternary = 0 then Some i
      else find_colon d False escaped (ternary - 1) (Suc i) s)"

definition findTaskTernaryColon :: "jstr \<Rightarrow> nat \<Rightarrow> nat option" where
  "findTaskTernaryColon expression question =
     find_colon 0 False False 0 (Suc question) (drop (Suc question) expression)"

datatype task_operator = AndOp | PlusOp

text \<open>
  \<open>cur\<close> holds the characters since the last cut, newest first.  The character before a \<open>+\<close> is the
  newest of them; right after a cut it is the \<open>+\<close> of that cut.
\<close>

fun split_task :: "task_operator \<Rightarrow> int \<Rightarrow> bool \<Rightarrow> bool \<Rightarrow> jstr \<Rightarrow> jstr \<Rightarrow> jstr list" where
  "split_task oper d quoted escaped cur [] = [rev cur]"
| "split_task oper d quoted escaped cur (c # s) =
     (if quoted then
        (if escaped then split_task oper d True False (c # cur) s
         else if c = 92 then split_task oper d True True (c # cur) s
         else if c = 34 then split_task oper d False escaped (c # cur) s
         else split_task oper d True escaped (c # cur) s)
      else if c = 34 then split_task oper d True escaped (c # cur) s
      else if c = 40 then split_task oper (d + 1) False escaped (c # cur) s
      else if c = 41 then split_task oper (d - 1) False escaped (c # cur) s
      else if d \<noteq> 0 then split_task oper d False escaped (c # cur) s
      else if oper = AndOp \<and> c = 38 \<and> s \<noteq> [] \<and> hd s = 38 then rev cur # split_task oper d False escaped [] (tl s)
      else if oper = PlusOp \<and> c = 43 \<and> (cur = [] \<or> hd cur \<noteq> 101 \<and> hd cur \<noteq> 69)
        then rev cur # split_task oper d False escaped [] s
      else split_task oper d False escaped (c # cur) s)"

definition splitTaskTopLevel :: "jstr \<Rightarrow> task_operator \<Rightarrow> jstr list" where
  "splitTaskTopLevel expression oper =
     filter (\<lambda>p. p \<noteq> []) (map js_trim (split_task oper 0 False False [] expression))"

section \<open>Parsing\<close>

definition skip_space :: "jstr \<Rightarrow> jstr" where
  "skip_space s = dropWhile is_ws s"

text \<open>\<open>u\(\s*("...")\s*\)\s*\<close>: the literal and what follows.\<close>

definition usage_call :: "jstr \<Rightarrow> (jstr \<times> jstr) option" where
  "usage_call s = do {
     s1 \<leftarrow> lit ''u('' s;
     (quoted, s2) \<leftarrow> string_literal (skip_space s1);
     s3 \<leftarrow> lit '')'' (skip_space s2);
     Some (quoted, skip_space s3)
   }"

definition task_equality :: "jstr \<Rightarrow> (jstr \<times> jstr) option" where
  "task_equality part = do {
     (quoted, s1) \<leftarrow> usage_call part;
     s2 \<leftarrow> lit ''=='' s1;
     (quoted', s3) \<leftarrow> string_literal (skip_space s2);
     if s3 = [] then Some (quoted, quoted') else None
   }"

text \<open>\<open>JSON.parse\<close> of a string literal.\<close>

definition parse_literal :: "jstr \<Rightarrow> jstr option" where
  "parse_literal quoted = map_option str_of (json_parse quoted)"

fun task_conditions :: "usage_schema \<Rightarrow> jstr list \<Rightarrow> task_condition list option" where
  "task_conditions schema [] = Some []"
| "task_conditions schema (part # ps) = do {
     (q1, q2) \<leftarrow> task_equality part;
     field \<leftarrow> parse_literal q1;
     v \<leftarrow> parse_literal q2;
     definition \<leftarrow> map_of schema field;
     declared \<leftarrow> field_enum definition;
     if v \<notin> set declared then None
     else map_option ((#) \<lparr>tc_field = field, tc_value = v\<rparr>) (task_conditions schema ps)
   }"

definition parseTaskConditions :: "jstr \<Rightarrow> usage_schema \<Rightarrow> task_condition list option" where
  "parseTaskConditions expression schema = (case task_conditions schema (splitTaskTopLevel expression AndOp) of
     Some [] \<Rightarrow> None | r \<Rightarrow> r)"

text \<open>A term \<open>u("field") * price\<close>, with \<open>/ 1000000\<close> or without.\<close>

definition price_term :: "jstr \<Rightarrow> (jstr \<times> jstr \<times> bool) option" where
  "price_term term = do {
     (quoted, s1) \<leftarrow> usage_call term;
     s2 \<leftarrow> lit ''*'' s1;
     (num, s3) \<leftarrow> run1 is_num_char (skip_space s2);
     if \<not> numeric_literal num then None
     else if s3 = [] then Some (quoted, num, False)
     else do {
       s4 \<leftarrow> lit ''/'' (skip_space s3);
       if skip_space s4 = js ''1000000'' then Some (quoted, num, True) else None
     }
   }"

text \<open>The names every object answers \<open>in\<close> for.\<close>

definition object_members :: "jstr list" where
  "object_members = map js [''constructor'', ''__defineGetter__'', ''__defineSetter__'', ''hasOwnProperty'',
     ''__lookupGetter__'', ''__lookupSetter__'', ''isPrototypeOf'', ''propertyIsEnumerable'', ''toString'',
     ''valueOf'', ''__proto__'', ''toLocaleString'']"

record tier_sum =
  sum_constant :: jsnum
  has_constant :: bool
  sum_prices :: "(jstr \<times> jsnum) list"

definition bad_price :: "jsnum \<Rightarrow> bool" where
  "bad_price v \<longleftrightarrow> \<not> isFinite v \<or> num_lt v (Fin 0)"

definition tier_term :: "usage_schema \<Rightarrow> tier_sum \<Rightarrow> jstr \<Rightarrow> tier_sum option" where
  "tier_term schema acc term =
     (if numeric_literal term then
        (if has_constant acc \<or> bad_price (Number term) then None
         else Some (acc\<lparr>sum_constant := Number term, has_constant := True\<rparr>))
      else do {
        (quoted, num, scaled) \<leftarrow> price_term term;
        field \<leftarrow> parse_literal quoted;
        definition \<leftarrow> map_of schema field;
        unit \<leftarrow> field_unit definition;
        if field_type definition \<noteq> Some NumberType \<or> field \<in> set object_members \<or>
           field \<in> fst ` set (sum_prices acc) \<or> bad_price (Number num) then None
        else if (unit = Token) \<noteq> scaled then None
        else Some (acc\<lparr>sum_prices := obj_put field (Number num) (sum_prices acc)\<rparr>)
      })"

fun tier_terms :: "usage_schema \<Rightarrow> tier_sum \<Rightarrow> jstr list \<Rightarrow> tier_sum option" where
  "tier_terms schema acc [] = Some acc"
| "tier_terms schema acc (term # ts) = Option.bind (tier_term schema acc term) (\<lambda>acc. tier_terms schema acc ts)"

definition empty_sum :: tier_sum where
  "empty_sum = \<lparr>sum_constant = Fin 0, has_constant = False, sum_prices = []\<rparr>"

definition parseTaskTierCall :: "jstr \<Rightarrow> task_condition list \<Rightarrow> usage_schema \<Rightarrow> task_tier option" where
  "parseTaskTierCall expression cs schema =
     (let trimmed = js_trim expression in
      if \<not> starts_with (js ''tier('') trimmed \<or> trimmed = [] \<or> last trimmed \<noteq> 41 then None
      else let inner = butlast (drop 5 trimmed) in do {
        comma \<leftarrow> findTaskTopLevelCharacter inner 44 0;
        label \<leftarrow> json_parse (js_trim (take comma inner));
        acc \<leftarrow> (if is_string label then tier_terms schema empty_sum (splitTaskTopLevel (drop (Suc comma) inner) PlusOp) else None);
        if sum_prices acc = [] then None
        else Some \<lparr>tier_label = str_of label, tier_conditions = cs, tier_constant = sum_constant acc, tier_prices = sum_prices acc\<rparr>
      })"

lemma js_trim_length: "length (js_trim s) \<le> length s"
proof -
  have "length (dropWhile is_ws (rev (dropWhile is_ws s))) \<le> length (rev (dropWhile is_ws s))" by (rule length_dropWhile_le)
  also have "\<dots> \<le> length s" by (simp add: length_dropWhile_le)
  finally show ?thesis by (simp add: js_trim_def)
qed

text \<open>The loop over the chain; \<^const>\<open>None\<close> is the early return of the empty array.\<close>

function task_chain :: "usage_schema \<Rightarrow> jstr \<Rightarrow> task_tier list option" where
  "task_chain schema remaining =
     (if remaining = [] then Some []
      else case findTaskTopLevelCharacter remaining 63 0 of
        None \<Rightarrow> map_option (\<lambda>t. [t]) (parseTaskTierCall remaining [] schema)
      | Some question \<Rightarrow> (case findTaskTernaryColon remaining question of
          None \<Rightarrow> None
        | Some colon \<Rightarrow> do {
            cs \<leftarrow> parseTaskConditions (js_trim (take question remaining)) schema;
            t \<leftarrow> parseTaskTierCall (js_trim (slice (Suc question) colon remaining)) cs schema;
            map_option ((#) t) (task_chain schema (js_trim (drop (Suc colon) remaining)))
          }))"
  by pat_completeness auto

termination
proof (relation "measure (\<lambda>(schema, s). length s)")
  fix schema :: usage_schema and remaining :: jstr and question colon x y
  assume "remaining \<noteq> []"
  then have "length (drop (Suc colon) remaining) < length remaining" by (cases remaining) auto
  then show "((schema, js_trim (drop (Suc colon) remaining)), schema, remaining) \<in> measure (\<lambda>(schema, s). length s)"
    using js_trim_length [of "drop (Suc colon) remaining"] by simp
qed simp

declare task_chain.simps [simp del]

definition parseTaskTiersFromExpr :: "jstr \<Rightarrow> usage_schema option \<Rightarrow> task_tier list" where
  "parseTaskTiersFromExpr exprStr schema = (case schema of
     None \<Rightarrow> []
   | Some sch \<Rightarrow>
     (if exprStr = [] \<or> sch = [] then []
      else case splitBillingExprAndRequestRules exprStr of
        Got parts \<Rightarrow>
          (case task_chain sch (js_trim (snd (stripExprVersion (billingExpr parts)))) of
             Some ts \<Rightarrow> ts | None \<Rightarrow> [])
      | _ \<Rightarrow> []))"

end
