(* ===== verification/TaskPricing.thy ===== *)
theory TaskPricing
  imports TaskTiers
begin

text \<open>
  The task price editor, \<^verbatim>\<open>features/pricing/lib/task-expr.ts\<close>: fields of a usage schema, the matrix of
  enum combinations, the tiers it stands for, the expression written for them, the two ways an
  expression is read back, and the preview that prices a sample of usage facts.
  \<open>localeCompare\<close> depends on the locale of the browser and is the parameter \<open>cmp\<close>; the theorems about
  this component hold for every comparator.
\<close>

section \<open>Data\<close>

definition TASK_TOKEN_PRICE_SCALE :: jsnum where
  "TASK_TOKEN_PRICE_SCALE = of_i 1000000"

record task_config =
  config_tiers :: "task_tier list"

record task_row =
  row_combination :: "(jstr \<times> jstr) list"
  row_constant :: jsnum
  row_prices :: "(jstr \<times> jsnum) list"

record task_matrix =
  matrix_rows :: "task_row list"

datatype preview_part = ConstantPart jsnum | UsagePart jstr jsnum jsnum jsnum

record task_preview =
  preview_tier :: task_tier
  preview_total :: jsnum
  preview_parts :: "preview_part list"

type_synonym collation = "jstr \<Rightarrow> jstr \<Rightarrow> int"

definition by_name :: "collation \<Rightarrow> jstr \<times> 'v \<Rightarrow> jstr \<times> 'v \<Rightarrow> int" where
  "by_name cmp a b = cmp (fst a) (fst b)"

definition price_or_zero :: "(jstr \<times> jsnum) list \<Rightarrow> jstr \<Rightarrow> jsnum" where
  "price_or_zero prices field = (case map_of prices field of Some v \<Rightarrow> v | None \<Rightarrow> Fin 0)"

section \<open>Fields and combinations\<close>

definition getTaskNumberFields :: "collation \<Rightarrow> usage_schema option \<Rightarrow> usage_schema" where
  "getTaskNumberFields cmp schema = (case schema of
     None \<Rightarrow> []
   | Some sch \<Rightarrow> js_sort (by_name cmp)
       (filter (\<lambda>entry. field_type (snd entry) = Some NumberType \<and> field_unit (snd entry) \<noteq> None) sch))"

definition getTaskEnumFields :: "collation \<Rightarrow> usage_schema option \<Rightarrow> usage_schema" where
  "getTaskEnumFields cmp schema = (case schema of
     None \<Rightarrow> []
   | Some sch \<Rightarrow> js_sort (by_name cmp)
       (filter (\<lambda>entry. case field_enum (snd entry) of Some vs \<Rightarrow> vs \<noteq> [] | None \<Rightarrow> False) sch))"

definition enum_values :: "usage_field \<Rightarrow> jstr list" where
  "enum_values f = (case field_enum f of Some vs \<Rightarrow> vs | None \<Rightarrow> [])"

definition extend_combinations :: "(jstr \<times> jstr) list list \<Rightarrow> jstr \<times> usage_field \<Rightarrow> (jstr \<times> jstr) list list" where
  "extend_combinations combinations entry =
     concat (map (\<lambda>combination. map (\<lambda>v. obj_put (fst entry) v combination) (enum_values (snd entry))) combinations)"

definition getTaskEnumCombinations :: "collation \<Rightarrow> usage_schema option \<Rightarrow> (jstr \<times> jstr) list list" where
  "getTaskEnumCombinations cmp schema = foldl extend_combinations [[]] (getTaskEnumFields cmp schema)"

definition createDefaultTaskVisualConfig :: "collation \<Rightarrow> usage_schema \<Rightarrow> task_config" where
  "createDefaultTaskVisualConfig cmp schema = \<lparr>config_tiers = [\<lparr>tier_label = js ''base'', tier_conditions = [],
     tier_constant = Fin 0, tier_prices = obj_of (map (\<lambda>(field, _). (field, Fin 0)) (getTaskNumberFields cmp (Some schema)))\<rparr>]\<rparr>"

definition createDefaultTaskMatrixConfig :: "collation \<Rightarrow> usage_schema \<Rightarrow> task_matrix" where
  "createDefaultTaskMatrixConfig cmp schema =
     (let unitPrices = obj_of (map (\<lambda>(field, _). (field, Fin 0)) (getTaskNumberFields cmp (Some schema)))
      in \<lparr>matrix_rows = map (\<lambda>combination. \<lparr>row_combination = combination, row_constant = Fin 0, row_prices = unitPrices\<rparr>)
           (getTaskEnumCombinations cmp (Some schema))\<rparr>)"

section \<open>The matrix\<close>

definition taskMatrixRowLabel :: "collation \<Rightarrow> (jstr \<times> jstr) list \<Rightarrow> jstr" where
  "taskMatrixRowLabel cmp combination =
     (let values = map snd (js_sort (by_name cmp) combination)
      in if values \<noteq> [] then join [183] values else js ''base'')"

definition taskMatrixCombinationKey :: "(jstr \<times> jstr) list \<Rightarrow> usage_schema \<Rightarrow> jstr" where
  "taskMatrixCombinationKey combination enumFields =
     json_text (JArr (map (\<lambda>(field, _). case map_of combination field of Some v \<Rightarrow> JStr v | None \<Rightarrow> JUndef) enumFields))"

definition filled_prices :: "usage_schema \<Rightarrow> (jstr \<times> jsnum) list \<Rightarrow> (jstr \<times> jsnum) list" where
  "filled_prices numberFields prices = obj_of (map (\<lambda>(field, _). (field, price_or_zero prices field)) numberFields)"

text \<open>\<open>===\<close> on two prices that may be missing.\<close>

definition same_price :: "jsnum option \<Rightarrow> jsnum option \<Rightarrow> bool" where
  "same_price a b = (case (a, b) of (None, None) \<Rightarrow> True | (Some x, Some y) \<Rightarrow> num_eq x y | _ \<Rightarrow> False)"

definition same_row :: "usage_schema \<Rightarrow> task_row \<Rightarrow> task_row \<Rightarrow> bool" where
  "same_row numberFields row first \<longleftrightarrow> num_eq (row_constant row) (row_constant first) \<and>
     list_all (\<lambda>(field, _). same_price (map_of (row_prices row) field) (map_of (row_prices first) field)) numberFields"

definition row_conditions :: "collation \<Rightarrow> task_row \<Rightarrow> task_condition list" where
  "row_conditions cmp row = map (\<lambda>(field, v). \<lparr>tc_field = field, tc_value = v\<rparr>) (js_sort (by_name cmp) (row_combination row))"

fun row_tiers :: "collation \<Rightarrow> usage_schema \<Rightarrow> task_row list \<Rightarrow> task_tier list" where
  "row_tiers cmp numberFields [] = []"
| "row_tiers cmp numberFields (row # rows) =
     \<lparr>tier_label = taskMatrixRowLabel cmp (row_combination row),
       tier_conditions = (if rows = [] then [] else row_conditions cmp row),
       tier_constant = row_constant row, tier_prices = filled_prices numberFields (row_prices row)\<rparr>
     # row_tiers cmp numberFields rows"

definition taskMatrixToTiers :: "collation \<Rightarrow> task_matrix \<Rightarrow> usage_schema \<Rightarrow> task_tier list" where
  "taskMatrixToTiers cmp config schema =
     (let numberFields = getTaskNumberFields cmp (Some schema) in
      case matrix_rows config of
        [] \<Rightarrow> []
      | firstRow # _ \<Rightarrow>
        (if numberFields = [] then []
         else if list_all (\<lambda>row. same_row numberFields row firstRow) (matrix_rows config) then
           [\<lparr>tier_label = js ''base'', tier_conditions = [], tier_constant = row_constant firstRow,
             tier_prices = filled_prices numberFields (row_prices firstRow)\<rparr>]
         else row_tiers cmp numberFields (matrix_rows config)))"

section \<open>Normalising and writing\<close>

definition usable_price :: "jsnum \<Rightarrow> jsnum" where
  "usable_price v = (if bad_price v then Fin 0 else v)"

definition default_label :: "nat \<Rightarrow> jstr" where
  "default_label index = (if index = 0 then js ''base'' else js ''tier_'' @ show_nat (index + 1))"

definition normal_tier :: "usage_schema \<Rightarrow> usage_schema \<Rightarrow> nat \<Rightarrow> task_tier \<Rightarrow> task_tier" where
  "normal_tier numberFields enumFields index tier =
     \<lparr>tier_label = (if tier_label tier \<noteq> [] then tier_label tier else default_label index),
      tier_conditions = filter (\<lambda>c. case map_of enumFields (tc_field c) of
          Some d \<Rightarrow> tc_value c \<in> set (enum_values d) | None \<Rightarrow> False) (tier_conditions tier),
      tier_constant = usable_price (tier_constant tier),
      tier_prices = obj_of (map (\<lambda>(field, _). (field,
          usable_price (case map_of (tier_prices tier) field of Some v \<Rightarrow> v | None \<Rightarrow> NaN))) numberFields)\<rparr>"

fun map_indexed :: "(nat \<Rightarrow> 'a \<Rightarrow> 'b) \<Rightarrow> nat \<Rightarrow> 'a list \<Rightarrow> 'b list" where
  "map_indexed f i [] = []"
| "map_indexed f i (x # xs) = f i x # map_indexed f (Suc i) xs"

definition normalizeTaskVisualConfig :: "collation \<Rightarrow> task_config option \<Rightarrow> usage_schema \<Rightarrow> task_config" where
  "normalizeTaskVisualConfig cmp config schema = (case config of
     None \<Rightarrow> createDefaultTaskVisualConfig cmp schema
   | Some cfg \<Rightarrow>
     (if config_tiers cfg = [] then createDefaultTaskVisualConfig cmp schema
      else \<lparr>config_tiers = map_indexed
        (normal_tier (getTaskNumberFields cmp (Some schema)) (getTaskEnumFields cmp (Some schema))) 0 (config_tiers cfg)\<rparr>))"

definition usage_text :: "jstr \<Rightarrow> jstr" where
  "usage_text field = js ''u('' @ json_quote field @ js '')''"

definition price_text :: "(jstr \<times> jsnum) list \<Rightarrow> jstr \<times> usage_field \<Rightarrow> jstr" where
  "price_text prices entry =
     (let text = usage_text (fst entry) @ js '' * '' @ String (price_or_zero prices (fst entry))
      in if field_unit (snd entry) = Some Token then text @ js '' / '' @ String TASK_TOKEN_PRICE_SCALE else text)"

definition generateTaskTierBody :: "task_tier \<Rightarrow> usage_schema \<Rightarrow> jstr" where
  "generateTaskTierBody tier numberFields = join (js '' + '')
     ((if num_lt (Fin 0) (tier_constant tier) then [String (tier_constant tier)] else [])
      @ map (price_text (tier_prices tier)) numberFields)"

definition generateTaskTierCall :: "task_tier \<Rightarrow> usage_schema \<Rightarrow> jstr" where
  "generateTaskTierCall tier numberFields =
     js ''tier('' @ json_quote (tier_label tier) @ js '', '' @ generateTaskTierBody tier numberFields @ js '')''"

definition generateTaskCondition :: "task_condition list \<Rightarrow> jstr" where
  "generateTaskCondition cs =
     join (js '' && '') (map (\<lambda>c. usage_text (tc_field c) @ js '' == '' @ json_quote (tc_value c)) cs)"

text \<open>The parts of a chain; \<^const>\<open>None\<close> is the early return of the empty text.\<close>

fun chain_parts :: "usage_schema \<Rightarrow> task_tier list \<Rightarrow> jstr list option" where
  "chain_parts numberFields [] = Some []"
| "chain_parts numberFields (tier # tiers) =
     (let call = generateTaskTierCall tier numberFields; condition = generateTaskCondition (tier_conditions tier) in
      if tiers = [] then Some [call]
      else if condition = [] then None
      else map_option ((#) (condition @ js '' ? '' @ call)) (chain_parts numberFields tiers))"

definition generateTaskExprFromConfig :: "collation \<Rightarrow> task_config option \<Rightarrow> usage_schema \<Rightarrow> jstr" where
  "generateTaskExprFromConfig cmp config schema =
     (let numberFields = getTaskNumberFields cmp (Some schema); tiers = config_tiers (normalizeTaskVisualConfig cmp config schema)
      in if numberFields = [] then []
         else if length tiers = 1 then generateTaskTierCall (hd tiers) numberFields
         else case chain_parts numberFields tiers of None \<Rightarrow> [] | Some parts \<Rightarrow> join (js '' : '') parts)"

section \<open>Reading back\<close>

definition tryParseTaskVisualConfig :: "collation \<Rightarrow> jstr option \<Rightarrow> usage_schema \<Rightarrow> task_config option" where
  "tryParseTaskVisualConfig cmp expression schema = (case expression of
     None \<Rightarrow> None
   | Some e \<Rightarrow>
     (let tiers = parseTaskTiersFromExpr e (Some schema) in
      if e = [] \<or> tiers = [] then None
      else Some (normalizeTaskVisualConfig cmp (Some \<lparr>config_tiers = tiers\<rparr>) schema)))"

fun values_by_field :: "usage_schema \<Rightarrow> (jstr \<times> jstr) list \<Rightarrow> task_condition list \<Rightarrow> (jstr \<times> jstr) list option" where
  "values_by_field schema acc [] = Some acc"
| "values_by_field schema acc (c # cs) =
     (if tc_field c \<in> fst ` set acc \<or>
         \<not> (case map_of schema (tc_field c) of Some d \<Rightarrow> tc_value c \<in> set (enum_values d) | None \<Rightarrow> False)
      then None
      else values_by_field schema (acc @ [(tc_field c, tc_value c)]) cs)"

fun tiers_by_combination :: "usage_schema \<Rightarrow> usage_schema \<Rightarrow> (jstr \<times> task_tier) list \<Rightarrow> task_tier list \<Rightarrow> (jstr \<times> task_tier) list option" where
  "tiers_by_combination schema enumFields acc [] = Some acc"
| "tiers_by_combination schema enumFields acc (tier # tiers) =
     (if length (tier_conditions tier) \<noteq> length enumFields then None
      else case values_by_field schema [] (tier_conditions tier) of
        None \<Rightarrow> None
      | Some values \<Rightarrow>
        (if length values \<noteq> length enumFields then None
         else let combination = obj_of (map (\<lambda>(field, _). (field, case map_of values field of Some v \<Rightarrow> v | None \<Rightarrow> [])) enumFields);
                  key = taskMatrixCombinationKey combination enumFields
              in if key \<in> fst ` set acc then None
                 else tiers_by_combination schema enumFields (acc @ [(key, tier)]) tiers))"

definition tier_row :: "usage_schema \<Rightarrow> (jstr \<times> jstr) list \<Rightarrow> task_tier \<Rightarrow> task_row" where
  "tier_row numberFields combination tier = \<lparr>row_combination = combination, row_constant = tier_constant tier,
     row_prices = filled_prices numberFields (tier_prices tier)\<rparr>"

fun rows_of :: "usage_schema \<Rightarrow> usage_schema \<Rightarrow> (jstr \<times> task_tier) list \<Rightarrow> (jstr \<times> jstr) list list \<Rightarrow> task_row list option" where
  "rows_of enumFields numberFields table [] = Some []"
| "rows_of enumFields numberFields table (combination # cs) =
     (case map_of table (taskMatrixCombinationKey combination enumFields) of
        None \<Rightarrow> None
      | Some tier \<Rightarrow> map_option ((#) (tier_row numberFields combination tier)) (rows_of enumFields numberFields table cs))"

definition tryParseTaskMatrixConfig :: "collation \<Rightarrow> jstr option \<Rightarrow> usage_schema \<Rightarrow> task_matrix option" where
  "tryParseTaskMatrixConfig cmp expression schema = (case expression of
     None \<Rightarrow> None
   | Some e \<Rightarrow>
     (let tiers = parseTaskTiersFromExpr e (Some schema);
          enumFields = getTaskEnumFields cmp (Some schema);
          numberFields = getTaskNumberFields cmp (Some schema);
          combinations = getTaskEnumCombinations cmp (Some schema)
      in if e = [] \<or> tiers = [] then None
         else if length tiers = 1 \<and> tier_conditions (hd tiers) = [] then
           Some \<lparr>matrix_rows = map (\<lambda>combination. tier_row numberFields combination (hd tiers)) combinations\<rparr>
         else if length tiers \<noteq> length combinations \<or> tier_conditions (last tiers) \<noteq> [] then None
         else case tiers_by_combination schema enumFields [] (butlast tiers) of
           None \<Rightarrow> None
         | Some table \<Rightarrow>
           (let missing = filter (\<lambda>c. taskMatrixCombinationKey c enumFields \<notin> fst ` set table) combinations in
            if length missing \<noteq> 1 then None
            else map_option (\<lambda>rows. \<lparr>matrix_rows = rows\<rparr>)
              (rows_of enumFields numberFields
                (AList.update (taskMatrixCombinationKey (hd missing) enumFields) (last tiers) table) combinations))))"

section \<open>The preview\<close>

text \<open>\<open>Number(x)\<close> of a usage fact, a number or a string; a missing fact gives \<open>NaN\<close>.\<close>

fun fact_number :: "jsval \<Rightarrow> jsnum" where
  "fact_number (JNum x) = x"
| "fact_number (JStr s) = Number s"
| "fact_number _ = NaN"

definition usage_amount :: "usage_schema option \<Rightarrow> jstr \<Rightarrow> jsnum \<Rightarrow> jsnum \<Rightarrow> jsnum" where
  "usage_amount schema field quantity unitPrice =
     (if Option.bind (Option.bind schema (\<lambda>s. map_of s field)) field_unit = Some Token
      then num_div (num_mul quantity unitPrice) TASK_TOKEN_PRICE_SCALE
      else num_mul quantity unitPrice)"

fun price_usage :: "usage_schema option \<Rightarrow> jsobj \<Rightarrow> preview_part list \<Rightarrow> jsnum \<Rightarrow> (jstr \<times> jsnum) list \<Rightarrow> (preview_part list \<times> jsnum) option" where
  "price_usage schema sample parts sofar [] = Some (parts, sofar)"
| "price_usage schema sample parts sofar ((field, unitPrice) # prices) =
     (let quantity = fact_number (obj_get sample field); amount = usage_amount schema field quantity unitPrice in
      if bad_price unitPrice then None
      else if num_eq unitPrice (Fin 0) then price_usage schema sample parts sofar prices
      else if bad_price quantity then None
      else if \<not> isFinite amount then None
      else price_usage schema sample (parts @ [UsagePart field amount quantity unitPrice]) (num_add sofar amount) prices)"

definition price_tier :: "usage_schema option \<Rightarrow> jsobj \<Rightarrow> task_tier \<Rightarrow> task_preview option" where
  "price_tier schema sample tier =
     (let c = tier_constant tier in
      if bad_price c then None
      else case price_usage schema sample (if num_lt (Fin 0) c then [ConstantPart c] else [])
             (if num_lt (Fin 0) c then num_add (Fin 0) c else Fin 0) (tier_prices tier) of
          None \<Rightarrow> None
        | Some (parts, sofar) \<Rightarrow>
          (if isFinite sofar then Some \<lparr>preview_tier = tier, preview_total = sofar, preview_parts = parts\<rparr> else None))"

definition tier_matches :: "jsobj \<Rightarrow> task_tier \<Rightarrow> bool" where
  "tier_matches sample tier \<longleftrightarrow> list_all (\<lambda>c. obj_get sample (tc_field c) = JStr (tc_value c)) (tier_conditions tier)"

definition matched_tier :: "jsobj \<Rightarrow> task_tier list \<Rightarrow> task_tier" where
  "matched_tier sample tiers = (case find (tier_matches sample) (butlast tiers) of Some t \<Rightarrow> t | None \<Rightarrow> last tiers)"

definition evaluateTaskVisualConfig :: "task_config \<Rightarrow> jsobj \<Rightarrow> usage_schema option \<Rightarrow> task_preview option" where
  "evaluateTaskVisualConfig config sample schema =
     (if config_tiers config = [] then None else price_tier schema sample (matched_tier sample (config_tiers config)))"

definition evaluateTaskUsageExamples ::
    "collation \<Rightarrow> jstr option \<Rightarrow> usage_schema option \<Rightarrow> (jstr \<times> jsobj) list \<Rightarrow> (jstr \<times> jsnum) list attempt" where
  "evaluateTaskUsageExamples cmp expression schema examples = (case (expression, schema) of
     (Some e, Some sch) \<Rightarrow>
       (if e = [] \<or> examples = [] then Got []
        else attempt_bind (splitBillingExprAndRequestRules e) (\<lambda>parts.
          case tryParseTaskVisualConfig cmp (Some (billingExpr parts)) sch of
            None \<Rightarrow> Got []
          | Some config \<Rightarrow> Got (List.map_filter (\<lambda>(label, facts).
              map_option (\<lambda>r. (label, preview_total r)) (evaluateTaskVisualConfig config facts (Some sch))) examples)))
   | _ \<Rightarrow> Got [])"

end
