(* ===== verification/RuleScanning.thy ===== *)
theory RuleScanning
  imports BillingRules
begin

text \<open>
  The scanners of \<open>BillingRules\<close> applied to texts of the shapes the editor builds: each condition the
  editor can carry is read back from its text.
\<close>

section \<open>Scanning what was built\<close>

lemma lit_append [simp]: "lit p (js p @ r) = Some r"
  by (simp add: lit_def js_def)

lemma lit_self [simp]: "lit p (js p) = Some []"
  using lit_append [of p "[]"] by simp

text \<open>Evaluation of literals on literal texts.\<close>

lemma lit_rec: "lit [] s = Some s" "lit (c # p) [] = None"
  "lit (c # p) (d # s) = (if d = of_char c then lit p s else None)"
  by (auto simp: lit_def starts_with_def js_def)

lemmas lit_eval = lit_rec js_def

lemma run1_append:
  assumes "list_all f x" and "x \<noteq> []" and "r = [] \<or> \<not> f (hd r)"
  shows "run1 f (x @ r) = Some (x, r)"
proof -
  have "takeWhile f (x @ r) = x" "dropWhile f (x @ r) = r"
    using assms by (cases r; auto simp: list_all_iff takeWhile_append2 dropWhile_append2)+
  then show ?thesis using assms(2) by (simp add: run1_def)
qed

lemma digits_num: "list_all is_digit s \<Longrightarrow> list_all is_num_char s"
  by (auto simp: list_all_iff is_num_char_def)

lemma exponent_chars: "exponent_ok s \<Longrightarrow> list_all is_num_char s"
  by (auto simp: exponent_ok_def is_num_char_def list_all_iff Let_def split: list.splits if_splits)

lemma digits_split: "list_all is_num_char (dropWhile is_digit s) \<Longrightarrow> list_all is_num_char s"
  by (metis digits_num list_all_append set_takeWhileD list_all_iff takeWhile_dropWhile_id)

lemma fraction_chars: "exponent_ok (dropWhile is_digit r) \<Longrightarrow> list_all is_num_char (46 # r)"
  using digits_split [OF exponent_chars] by (simp add: is_num_char_def [of 46])

lemma unsigned_chars:
  assumes "unsigned_literal s"
  shows "list_all is_num_char s"
proof (rule digits_split, cases "dropWhile is_digit s")
  case (Cons c r)
  show "list_all is_num_char (dropWhile is_digit s)"
  proof (cases "c = 46")
    case True
    then have "exponent_ok (dropWhile is_digit r)"
      using assms Cons by (auto simp: unsigned_literal_def Let_def split: if_splits)
    then show ?thesis using fraction_chars [of r] Cons True by simp
  next
    case False
    then have "exponent_ok (c # r)" using assms Cons by (auto simp: unsigned_literal_def Let_def split: if_splits)
    then show ?thesis using exponent_chars Cons by metis
  qed
next
  case Nil
  show "list_all is_num_char (dropWhile is_digit s)" unfolding Nil by simp
qed

lemma numeric_chars:
  assumes "numeric_literal s"
  shows "s \<noteq> []" "list_all is_num_char s"
proof -
  show "s \<noteq> []" using assms by (auto simp: numeric_literal_def unsigned_literal_def)
  then show "list_all is_num_char s"
    using assms by (cases s) (auto simp: numeric_literal_def is_num_char_def [of 45] dest: unsigned_chars split: if_splits)
qed

lemma num_char_ws: "is_num_char c \<Longrightarrow> \<not> is_ws c \<and> c \<noteq> 40 \<and> c \<noteq> 41 \<and> c \<noteq> 38 \<and> c \<noteq> 42 \<and> c \<noteq> 32 \<and> c \<noteq> 124"
  by (auto simp: is_num_char_def is_digit_def is_ws_def)

lemma numeric_trim: "numeric_literal s \<Longrightarrow> js_trim s = s"
  using numeric_chars [of s] by (intro js_trim_id trimmed_no_ws) (auto simp: list_all_iff dest: num_char_ws)

text \<open>Texts the editor can carry: no quotes, backslashes, parentheses, operators or line ends.\<close>

definition safe_char :: "jchar \<Rightarrow> bool" where
  "safe_char c \<longleftrightarrow> 32 \<le> c \<and> c < 55296 \<and> c \<notin> {34, 92, 40, 41, 38, 42, 124, 63} \<and> \<not> is_line_terminator c"

definition safe_text :: "jstr \<Rightarrow> bool" where
  "safe_text s \<longleftrightarrow> list_all safe_char s \<and> js_trim s = s"

lemma quote_safe: "list_all safe_char s \<Longrightarrow> json_quote s = 34 # s @ [34]"
proof -
  have "json_body False s = s" if "list_all safe_char s" for s
    using that by (induction s) (auto simp: safe_char_def is_high_def is_low_def json_esc_def)
  then show "list_all safe_char s \<Longrightarrow> json_quote s = 34 # s @ [34]" by (simp add: json_quote_def)
qed

lemma parse_quote: "list_all safe_char s \<Longrightarrow> json_parse (json_quote s) = Some (JStr s)"
proof -
  assume s: "list_all safe_char s"
  have "code_units s" by (rule list.pred_mono_strong [OF s]) (simp add: safe_char_def)
  then show ?thesis using json_parse_text [of "JStr s"] by (simp add: json_text_def)
qed

lemma plain_arg_call:
  assumes "list_all safe_char s" and "s \<noteq> []"
  shows "plain_arg (40 # json_quote s @ 41 # r) = Some (s, r)"
proof -
  have "run1 (\<lambda>c. \<not> is_quote c) (s @ 34 # 41 # r) = Some (s, 34 # 41 # r)"
    using assms by (intro run1_append) (auto simp: list_all_iff is_quote_def safe_char_def)
  moreover have "lit ''(\"'' (40 # 34 # x) = Some x" "lit ''\")'' (34 # 41 # x) = Some x" for x
    by (simp_all add: lit_def starts_with_def js_def)
  ultimately show ?thesis using assms(1) by (simp add: plain_arg_def quote_safe)
qed

lemma call_text_append: "call_text name arg @ r = js name @ 40 # json_quote arg @ 41 # r"
  by (simp add: call_text_def js_def)

lemma call_of_text:
  "list_all safe_char s \<Longrightarrow> s \<noteq> [] \<Longrightarrow> call_of name (call_text name s @ r) = Some (s, r)"
  by (simp add: call_of_def call_text_append plain_arg_call)

lemma find_func: "List.find (\<lambda>f. lit (func_text f) (js (func_text g) @ r) \<noteq> None) TIME_FUNCS = Some g"
  by (cases g) (simp_all add: TIME_FUNCS_def lit_eval)

lemma time_call_text:
  assumes "list_all safe_char tz" and "tz \<noteq> []"
  shows "time_call (call_text (func_text f) tz @ r) = Some (f, tz, r)"
  unfolding time_call_def call_text_append find_func using assms by (simp add: plain_arg_call)

lemma string_body_safe: "list_all safe_char s \<Longrightarrow> string_body (s @ 34 # r) = Some (s @ [34], r)"
  by (induction s) (auto simp: safe_char_def)

lemma string_literal_quote: "list_all safe_char s \<Longrightarrow> string_literal (json_quote s @ r) = Some (json_quote s, r)"
  by (simp add: string_literal_def quote_safe string_body_safe)

section \<open>Reading back time conditions\<close>

abbreviation fn :: "time_func \<Rightarrow> jstr \<Rightarrow> jstr" where
  "fn f tz \<equiv> call_text (func_text f) tz"

definition zone_ok :: "jstr \<Rightarrow> bool" where
  "zone_ok tz \<longleftrightarrow> list_all safe_char tz \<and> tz \<noteq> []"

definition num_ok :: "jstr \<Rightarrow> bool" where
  "num_ok v \<longleftrightarrow> list_all is_num_char v \<and> v \<noteq> []"

definition num_end :: "jstr \<Rightarrow> bool" where
  "num_end r \<longleftrightarrow> r = [] \<or> \<not> is_num_char (hd r)"

lemma in_range_num: "isTimeValueInRange f v \<Longrightarrow> num_ok v"
  by (simp add: isTimeValueInRange_def num_ok_def numeric_chars)

lemma run1_num: "num_ok v \<Longrightarrow> num_end r \<Longrightarrow> run1 is_num_char (v @ r) = Some (v, r)"
  by (simp add: run1_append num_ok_def num_end_def)

lemma num_end_simps [simp]: "num_end []" "num_end (32 # r)" "num_end (41 # r)"
  by (simp_all add: num_end_def is_num_char_def is_digit_def)

lemma zone_call: "zone_ok tz \<Longrightarrow> time_call (fn f tz @ r) = Some (f, tz, r)"
  by (simp add: zone_ok_def time_call_text)

lemma ops_eval: "lit '' == '' (js '' == '' @ x) = Some x" "lit '' == '' (js '' >= '' @ x) = None"
  "lit '' == '' (js '' < '' @ x) = None" "lit '' >= '' (js '' == '' @ x) = None"
  "lit '' >= '' (js '' >= '' @ x) = Some x" "lit '' >= '' (js '' < '' @ x) = None"
  "lit '' < '' (js '' < '' @ x) = Some x" "lit '' < '' (js '' >= '' @ x) = None" "lit '' < '' (js '' == '' @ x) = None"
  by (simp_all add: lit_eval)

lemma fn_not_paren: "lit ''('' (fn f tz @ r) = None"
  by (cases f) (simp_all add: call_text_append lit_eval)

lemma time_scalar_text:
  assumes "zone_ok tz" "num_ok v" "num_end r"
  shows "time_scalar (fn f tz @ js '' >= '' @ v @ r) = (if r = [] then Some (f, tz, MATCH_GTE, v) else None)"
    "time_scalar (fn f tz @ js '' < '' @ v @ r) = (if r = [] then Some (f, tz, MATCH_LT, v) else None)"
    "time_scalar (fn f tz @ js '' == '' @ v @ r) = (if r = [] then Some (f, tz, MATCH_EQ, v) else None)"
  by (simp_all add: time_scalar_def zone_call [OF assms(1)] ops_eval run1_num [OF assms(2,3)])

text \<open>The second half of a range, as the expression of \<open>tryParseTimeCondition\<close> reads it.\<close>

definition upper_at :: "time_func \<Rightarrow> jstr \<Rightarrow> jstr \<Rightarrow> jstr option" where
  "upper_at f tz s = do {
     s1 \<leftarrow> lit (func_text f) s;
     (tz', s2) \<leftarrow> plain_arg s1;
     if tz' = tz then lit '' < '' s2 else None
   }"

lemma upper_at_other: "time_call s = Some (g, tz', r) \<Longrightarrow> upper_at f tz s =
    (if f = g \<and> tz' = tz then lit '' < '' r else None)"
proof -
  assume call: "time_call s = Some (g, tz', r)"
  then have g: "lit (func_text g) s \<noteq> None" and arg: "plain_arg (the (lit (func_text g) s)) = Some (tz', r)"
    by (auto simp: time_call_def find_Some_iff split: option.splits)
  have "f = g" if "lit (func_text f) s \<noteq> None"
    using that g by (cases f; cases g; cases s; auto simp: lit_rec split: if_splits)
       (auto simp: lit_def js_def starts_with_iff split: if_splits)
  then have "f \<noteq> g \<Longrightarrow> lit (func_text f) s = None" by blast
  then show ?thesis using g arg by (cases "f = g") (auto simp: upper_at_def)
qed

lemma time_range_at_ge:
  assumes "zone_ok tz" "num_ok v"
  shows "time_range_at (fn f tz @ js '' >= '' @ v) = None"
    "time_range_at (fn f tz @ js '' >= '' @ v @ js '' && '' @ s) =
       Option.bind (upper_at f tz s) (\<lambda>r. map_option (\<lambda>(b, r). (f, tz, v, b, r)) (run1 is_num_char r))"
    "time_range_at (fn f tz @ js '' >= '' @ v @ js '' || '' @ s) =
       Option.bind (upper_at f tz s) (\<lambda>r. map_option (\<lambda>(b, r). (f, tz, v, b, r)) (run1 is_num_char r))"
proof -
  have end1: "num_end (js '' && '' @ x)" "num_end (js '' || '' @ x)" for x by (simp_all add: js_def)
  have lits: "lit '' && '' (js '' || '' @ x) = None" "lit '' && '' [] = None" "lit '' || '' [] = None" for x
    by (simp_all add: lit_eval)
  show "time_range_at (fn f tz @ js '' >= '' @ v) = None"
    using run1_num [OF assms(2), of "[]"] by (simp add: time_range_at_def zone_call [OF assms(1)] ops_eval lits)
  show "time_range_at (fn f tz @ js '' >= '' @ v @ js '' && '' @ s) =
       Option.bind (upper_at f tz s) (\<lambda>r. map_option (\<lambda>(b, r). (f, tz, v, b, r)) (run1 is_num_char r))"
    "time_range_at (fn f tz @ js '' >= '' @ v @ js '' || '' @ s) =
       Option.bind (upper_at f tz s) (\<lambda>r. map_option (\<lambda>(b, r). (f, tz, v, b, r)) (run1 is_num_char r))"
    by (auto simp: time_range_at_def upper_at_def zone_call [OF assms(1)] ops_eval lits run1_num [OF assms(2) end1(1)]
        run1_num [OF assms(2) end1(2)] split: bind_splits option.splits)
qed

lemma time_range_at_other:
  "zone_ok tz \<Longrightarrow> time_range_at (fn f tz @ js '' < '' @ x) = None"
  "zone_ok tz \<Longrightarrow> time_range_at (fn f tz @ js '' == '' @ x) = None"
  by (simp_all add: time_range_at_def zone_call ops_eval)

lemma upper_at_call: "zone_ok tz' \<Longrightarrow> upper_at f tz (fn g tz' @ r) = (if f = g \<and> tz' = tz then lit '' < '' r else None)"
  by (rule upper_at_other) (simp add: zone_call)

lemma time_range_text:
  assumes "zone_ok tz" "num_ok v" "num_ok w" "num_end r"
  shows "time_range_at (fn f tz @ js '' >= '' @ v @ js '' && '' @ fn f tz @ js '' < '' @ w @ r) = Some (f, tz, v, w, r)"
    "time_range_at (fn f tz @ js '' >= '' @ v @ js '' || '' @ fn f tz @ js '' < '' @ w @ r) = Some (f, tz, v, w, r)"
  by (simp_all add: time_range_at_ge [OF assms(1,2)] upper_at_call [OF assms(1)] ops_eval run1_num [OF assms(3,4)])

text \<open>Time conditions of the editor, and the texts built for them.\<close>

definition time_ok :: "time_condition \<Rightarrow> bool" where
  "time_ok c \<longleftrightarrow> zone_ok (timezone c) \<and> js_trim (timezone c) = timezone c \<and>
     (if t_mode c = MATCH_RANGE
      then isTimeValueInRange (timeFunc c) (rangeStart c) \<and> isTimeValueInRange (timeFunc c) (rangeEnd c) \<and> t_value c = []
      else t_mode c \<in> {MATCH_EQ, MATCH_GTE, MATCH_LT} \<and> isTimeValueInRange (timeFunc c) (t_value c) \<and>
        rangeStart c = [] \<and> rangeEnd c = [])"

definition overnight :: "time_condition \<Rightarrow> bool" where
  "overnight c \<longleftrightarrow> num_lt (Number (rangeEnd c)) (Number (rangeStart c))"

lemma modes_distinct [simp]:
  "MATCH_RANGE \<noteq> MATCH_EQ" "MATCH_RANGE \<noteq> MATCH_GTE" "MATCH_RANGE \<noteq> MATCH_LT" "MATCH_EQ \<noteq> MATCH_RANGE"
  "MATCH_GTE \<noteq> MATCH_RANGE" "MATCH_LT \<noteq> MATCH_RANGE" "MATCH_GTE \<noteq> MATCH_LT" "MATCH_LT \<noteq> MATCH_GTE"
  "MATCH_EQ \<noteq> MATCH_GTE" "MATCH_EQ \<noteq> MATCH_LT" "MATCH_GTE \<noteq> MATCH_EQ" "MATCH_LT \<noteq> MATCH_EQ"
  "MATCH_EQ \<noteq> MATCH_EXISTS" "MATCH_EQ \<noteq> MATCH_CONTAINS" "MATCH_CONTAINS \<noteq> MATCH_EXISTS" "MATCH_CONTAINS \<noteq> MATCH_EQ"
  by (simp_all add: MATCH_RANGE_def MATCH_EQ_def MATCH_GTE_def MATCH_LT_def MATCH_EXISTS_def MATCH_CONTAINS_def js_inject)

definition op_text :: "jstr \<Rightarrow> string" where
  "op_text mode = (if mode = MATCH_GTE then '' >= '' else if mode = MATCH_LT then '' < '' else '' == '')"

definition scalar_text :: "time_condition \<Rightarrow> jstr" where
  "scalar_text c = fn (timeFunc c) (timezone c) @ js (op_text (t_mode c)) @ t_value c"

definition range_text :: "string \<Rightarrow> time_condition \<Rightarrow> jstr" where
  "range_text conn c = fn (timeFunc c) (timezone c) @ js '' >= '' @ rangeStart c @ js conn @
     fn (timeFunc c) (timezone c) @ js '' < '' @ rangeEnd c"

lemma parse_scalar:
  assumes "time_ok c" "t_mode c \<noteq> MATCH_RANGE"
  shows "tryParseTimeCondition (scalar_text c) = Some c"
proof -
  have z: "zone_ok (timezone c)" and v: "isTimeValueInRange (timeFunc c) (t_value c)"
    and m: "t_mode c = MATCH_EQ \<or> t_mode c = MATCH_GTE \<or> t_mode c = MATCH_LT"
    and e: "rangeStart c = []" "rangeEnd c = []"
    using assms by (auto simp: time_ok_def)
  have n: "num_ok (t_value c)" by (rule in_range_num [OF v])
  have "time_range (scalar_text c) = None"
    using m by (auto simp: time_range_def scalar_text_def op_text_def time_range_at_ge(1) [OF z n] time_range_at_other [OF z]
        fn_not_paren)
  moreover have "time_scalar (scalar_text c) = Some (timeFunc c, timezone c, t_mode c, t_value c)"
    using m time_scalar_text [OF z n, of "[]" "timeFunc c"] by (auto simp: scalar_text_def op_text_def)
  ultimately show ?thesis using v e by (simp add: tryParseTimeCondition_def)
qed

lemma range_record: "t_mode c = MATCH_RANGE \<Longrightarrow> t_value c = [] \<Longrightarrow>
    \<lparr>timeFunc = timeFunc c, timezone = timezone c, t_mode = MATCH_RANGE, t_value = [], rangeStart = rangeStart c, rangeEnd = rangeEnd c\<rparr> = c"
  by (metis (full_types) old.unit.exhaust time_condition.surjective)

lemma range_facts:
  assumes "time_ok c" "t_mode c = MATCH_RANGE"
  shows "zone_ok (timezone c)" "num_ok (rangeStart c)" "num_ok (rangeEnd c)"
    "isTimeValueInRange (timeFunc c) (rangeStart c)" "isTimeValueInRange (timeFunc c) (rangeEnd c)" "t_value c = []"
  using assms by (auto simp: time_ok_def in_range_num)

lemma parse_range:
  assumes "time_ok c" "t_mode c = MATCH_RANGE" "conn = '' && '' \<or> conn = '' || ''"
  shows "tryParseTimeCondition (range_text conn c) = Some c"
    "tryParseTimeCondition (js ''('' @ range_text conn c @ js '')'') = Some c"
proof -
  note f = range_facts [OF assms(1,2)]
  have at: "time_range_at (range_text conn c @ r) = Some (timeFunc c, timezone c, rangeStart c, rangeEnd c, r)" if "num_end r" for r
    using assms(3) time_range_text [OF f(1-3) that, of "timeFunc c"] by (auto simp: range_text_def)
  have "time_range (range_text conn c) = Some (timeFunc c, timezone c, rangeStart c, rangeEnd c)"
    using at [of "[]"] by (simp add: time_range_def)
  then show "tryParseTimeCondition (range_text conn c) = Some c"
    using f range_record [OF assms(2) f(6)] by (simp add: tryParseTimeCondition_def)
  have "time_call (40 # x) = None" for x by (simp add: time_call_def TIME_FUNCS_def lit_eval)
  then have "time_range_at (40 # x) = None" for x by (simp add: time_range_at_def)
  then have "time_range (js ''('' @ range_text conn c @ js '')'') = Some (timeFunc c, timezone c, rangeStart c, rangeEnd c)"
    using at [of "js '')''"] by (simp add: time_range_def) (simp add: js_def lit_rec)
  then show "tryParseTimeCondition (js ''('' @ range_text conn c @ js '')'') = Some c"
    using f range_record [OF assms(2) f(6)] by (simp add: tryParseTimeCondition_def)
qed

section \<open>Reading back parameter and header conditions\<close>

definition source_name :: "rule_source \<Rightarrow> string" where
  "source_name src = (case src of Header \<Rightarrow> ''header'' | Param \<Rightarrow> ''param'')"

definition param_ok :: "param_condition \<Rightarrow> bool" where
  "param_ok c \<longleftrightarrow> safe_text (ph_path c) \<and> ph_path c \<noteq> [] \<and> safe_text (ph_value c) \<and>
     (ph_mode c = MATCH_EXISTS \<and> ph_value c = [] \<or> ph_mode c = MATCH_CONTAINS \<and> ph_source c = Header \<or> ph_mode c = MATCH_EQ)"

definition literal_text :: "jstr \<Rightarrow> jstr" where
  "literal_text s = (if s = js ''true'' \<or> s = js ''false'' \<or> numeric_literal s then s else json_quote s)"

definition param_text :: "param_condition \<Rightarrow> jstr" where
  "param_text c =
     (let src = call_text (source_name (ph_source c)) (ph_path c) in
      if ph_mode c = MATCH_EXISTS then src @ js (case ph_source c of Header \<Rightarrow> '' != \"\"'' | Param \<Rightarrow> '' != nil'')
      else if ph_mode c = MATCH_CONTAINS then js ''has('' @ src @ js '', '' @ json_quote (ph_value c) @ js '')''
      else src @ js '' == '' @ literal_text (ph_value c))"

lemma call_of_other: "call_of ''header'' (call_text ''param'' p @ r) = None" "call_of ''param'' (call_text ''header'' p @ r) = None"
  "call_of ''header'' (js ''has('' @ r) = None" "call_of ''param'' (js ''has('' @ r) = None"
  by (simp_all add: call_of_def call_text_append lit_eval)

lemma no_time: "tryParseTimeCondition (call_text (source_name src) p @ r) = None" "tryParseTimeCondition (js ''has('' @ r) = None"
proof -
  have call: "time_call (call_text (source_name src) p @ r) = None" "time_call (js ''has('' @ r) = None"
    by (cases src; simp add: time_call_def TIME_FUNCS_def call_text_append source_name_def lit_eval)+
  moreover have "lit ''('' (call_text (source_name src) p @ r) = None" "lit ''('' (js ''has('' @ r) = None"
    by (cases src; simp add: call_text_append source_name_def lit_eval)+
  ultimately show "tryParseTimeCondition (call_text (source_name src) p @ r) = None" "tryParseTimeCondition (js ''has('' @ r) = None"
    by (simp_all add: tryParseTimeCondition_def time_range_def time_range_at_def time_scalar_def)
qed

lemma has_call_other: "has_call name (call_text (source_name src) p @ r) = None"
  by (cases src; simp add: has_call_def call_text_append source_name_def lit_eval)

lemma literal_ok:
  assumes "safe_text s"
  shows "parseExprLiteral (literal_text s) = Some (JStr s)" "literal_text s \<noteq> []"
    "list_all (\<lambda>c. \<not> is_line_terminator c) (literal_text s)"
proof -
  have safe: "list_all safe_char s" using assms by (simp add: safe_text_def)
  have quote: "json_quote s = 34 # s @ [34]" by (rule quote_safe [OF safe])
  have "js_trim (34 # s @ [34]) = 34 # s @ [34]" by (simp add: js_trim_def is_ws_def)
  moreover have "\<not> numeric_literal (34 # s @ [34])"
    using numeric_chars(2) [of "34 # s @ [34]"] by (auto simp: is_num_char_def is_digit_def)
  moreover have "34 # x \<noteq> js ''true''" "34 # x \<noteq> js ''false''" for x by (simp_all add: js_def)
  ultimately show "parseExprLiteral (literal_text s) = Some (JStr s)"
    using assms parse_quote [OF safe] numeric_trim [of s]
    by (auto simp: literal_text_def parseExprLiteral_def Let_def quote safe_text_def)
  show "literal_text s \<noteq> []" using numeric_chars(1) [of s] by (auto simp: literal_text_def quote js_def)
  have "list_all (\<lambda>c. \<not> is_line_terminator c) s" by (rule list.pred_mono_strong [OF safe]) (simp add: safe_char_def)
  then show "list_all (\<lambda>c. \<not> is_line_terminator c) (literal_text s)"
    by (simp add: literal_text_def quote is_line_terminator_def)
qed

lemma nil_guard_other: "nil_guard (call_text ''header'' p @ r) = None" "nil_guard (js ''has('' @ r) = None"
  "safe_text p \<Longrightarrow> p \<noteq> [] \<Longrightarrow> nil_guard (call_text ''param'' p @ js '' == '' @ r) = None"
proof -
  have "lit '' != nil && '' (js '' == '' @ r) = None" by (simp add: lit_eval)
  then show "nil_guard (call_text ''header'' p @ r) = None" "nil_guard (js ''has('' @ r) = None"
    "safe_text p \<Longrightarrow> p \<noteq> [] \<Longrightarrow> nil_guard (call_text ''param'' p @ js '' == '' @ r) = None"
    by (simp_all add: nil_guard_def call_of_other call_of_text safe_text_def)
qed

lemma parse_param:
  assumes "param_ok c"
  shows "tryParseRequestCondition (param_text c) = Got (ParamCond c)"
proof -
  let ?p = "ph_path c"
  have p: "list_all safe_char ?p" "?p \<noteq> []" "safe_text ?p" "safe_text (ph_value c)" "list_all safe_char (ph_value c)"
    using assms by (auto simp: param_ok_def safe_text_def)
  have call: "call_of name (call_text name ?p @ r) = Some (?p, r)" for name r by (rule call_of_text [OF p(1,2)])
  consider (ex) "ph_mode c = MATCH_EXISTS" "ph_value c = []" | (has) "ph_mode c = MATCH_CONTAINS" "ph_source c = Header"
    | (eq) "ph_mode c = MATCH_EQ" using assms by (auto simp: param_ok_def)
  then show ?thesis
  proof cases
    case ex
    then show ?thesis using no_time(1) [of "ph_source c" ?p]
      by (cases "ph_source c") (auto simp: tryParseRequestCondition_def param_text_def source_name_def exists_call_def call
          call_of_other found_def)
  next
    case has
    have "has_call ''header'' (param_text c) = Some (?p, json_quote (ph_value c))"
      using has by (simp add: has_call_def param_text_def source_name_def call string_literal_quote [OF p(5)])
    then show ?thesis using has no_time(2) parse_quote [OF p(5)]
      by (simp add: tryParseRequestCondition_def exists_call_def param_text_def call_of_other found_literal_def found_def)
  next
    case eq
    let ?v = "literal_text (ph_value c)"
    have t: "param_text c = call_text (source_name (ph_source c)) ?p @ js '' == '' @ ?v"
      using eq by (simp add: param_text_def)
    have ne: "js '' == '' @ x \<noteq> js '' != \"\"''" "js '' == '' @ x \<noteq> js '' != nil''" for x by (simp_all add: js_def)
    have "equality (param_text c) = Some (ph_source c, ?p, ?v)"
      using literal_ok(2,3) [OF p(4)] by (cases "ph_source c") (simp_all add: t equality_def source_name_def call call_of_other)
    moreover have "exists_call ''header'' '' != \"\"'' (param_text c) = None" "exists_call ''param'' '' != nil'' (param_text c) = None"
      by (cases "ph_source c"; simp add: t exists_call_def source_name_def call call_of_other ne)+
    moreover have "guarded_has (param_text c) = None" "guarded_comparison (param_text c) = None"
      using p(2,3) by (cases "ph_source c"; simp add: t guarded_has_def guarded_comparison_def source_name_def nil_guard_other)+
    ultimately show ?thesis using eq no_time(1) literal_ok(1) [OF p(4)]
      by (simp add: tryParseRequestCondition_def has_call_other [of _ "ph_source c", folded t] t found_def)
  qed
qed

end
