(* ===== verification/RuleRoundtrip.thy ===== *)
theory RuleRoundtrip
  imports RuleScanning
begin

text \<open>
  Parsing what the editor builds gives the rules back, and combining a base expression with rules and
  splitting the result again gives both back.
\<close>

section \<open>What the editor builds\<close>

fun cond_ok :: "condition \<Rightarrow> bool" where
  "cond_ok (TimeCond c) = time_ok c"
| "cond_ok (ParamCond c) = param_ok c"

definition conn_of :: "time_condition \<Rightarrow> string" where
  "conn_of c = (if overnight c then '' || '' else '' && '')"

fun cond_text :: "condition \<Rightarrow> jstr" where
  "cond_text (TimeCond c) = (if t_mode c = MATCH_RANGE then range_text (conn_of c) c else scalar_text c)"
| "cond_text (ParamCond c) = param_text c"

lemma func_of_text: "func_of (JStr (js (func_text f))) = Some f"
  by (cases f) (simp_all add: func_of_def TIME_FUNCS_def js_inject)

lemma normalize_time: "time_ok c \<Longrightarrow> normalizeCondition (condition_value (TimeCond c)) = TimeCond c"
  by (auto simp: normalizeCondition_def js_inject func_of_text or_text_def allowed_mode_def getRequestRuleMatchOptions_def
      text_field_def nullish_def time_ok_def zone_ok_def split: if_splits)

lemma normalize_param: "param_ok c \<Longrightarrow> normalizeCondition (condition_value (ParamCond c)) = ParamCond c"
  by (cases "ph_source c") (auto simp: normalizeCondition_def js_inject or_text_def allowed_mode_def getRequestRuleMatchOptions_def
      text_field_def nullish_def param_ok_def split: if_splits)

lemma range_trim: "isTimeValueInRange f v \<Longrightarrow> js_trim v = v"
  by (simp add: isTimeValueInRange_def numeric_trim)

lemma build_time_text: "time_ok c \<Longrightarrow> build_time c = cond_text (TimeCond c)"
proof -
  assume ok: "time_ok c"
  have op: "js '' '' @ (if t_mode c = MATCH_GTE then js ''>='' else if t_mode c = MATCH_LT then js ''<'' else js ''=='') @ js '' '' @ v
      = js (op_text (t_mode c)) @ v" for v
    by (simp add: op_text_def js_def)
  show ?thesis
    using ok op [of "t_value c"] range_trim [of "timeFunc c" "rangeStart c"] range_trim [of "timeFunc c" "rangeEnd c"]
      range_trim [of "timeFunc c" "t_value c"]
    by (auto simp: build_time_def Let_def time_ok_def range_text_def conn_of_def overnight_def scalar_text_def)
qed

lemma buildExprLiteral_text: "js_trim s = s \<Longrightarrow> mode \<noteq> MATCH_CONTAINS \<Longrightarrow> buildExprLiteral mode s = literal_text s"
  "js_trim s = s \<Longrightarrow> buildExprLiteral MATCH_CONTAINS s = json_quote s"
  by (simp_all add: buildExprLiteral_def literal_text_def Let_def)

lemma mode_not_compare: "MATCH_EQ \<notin> {MATCH_GT, MATCH_GTE, MATCH_LT, MATCH_LTE}"
  by (simp add: MATCH_EQ_def MATCH_GT_def MATCH_GTE_def MATCH_LT_def MATCH_LTE_def js_inject)

lemma build_param_text: "param_ok c \<Longrightarrow> build_param c = param_text c"
proof -
  assume ok: "param_ok c"
  then have p: "js_trim (ph_path c) = ph_path c" "ph_path c \<noteq> []" "js_trim (ph_value c) = ph_value c"
    by (simp_all add: param_ok_def safe_text_def)
  consider (ex) "ph_mode c = MATCH_EXISTS" | (has) "ph_mode c = MATCH_CONTAINS" "ph_source c = Header"
    | (eq) "ph_mode c = MATCH_EQ" using ok by (auto simp: param_ok_def)
  then show ?thesis
  proof cases
    case ex
    then show ?thesis using p
      by (cases "ph_source c") (simp_all add: build_param_def param_text_def source_name_def Let_def)
  next
    case has
    then show ?thesis using p
      by (simp add: build_param_def param_text_def source_name_def Let_def buildExprLiteral_text)
  next
    case eq
    then show ?thesis using p mode_not_compare
      by (cases "ph_source c") (simp_all add: build_param_def param_text_def source_name_def Let_def buildExprLiteral_text)
  qed
qed

lemma build_text: "cond_ok c \<Longrightarrow> buildRequestConditionExpr c = cond_text c"
  by (cases c) (simp_all add: buildRequestConditionExpr_def buildTimeConditionExpr_def normalize_time normalize_param
      build_time_text build_param_text del: condition_value.simps cond_text.simps(1))

section \<open>Nesting and separators\<close>

definition depth :: "jstr \<Rightarrow> int" where
  "depth s = foldl paren_depth 0 s"

lemma foldl_depth: "foldl paren_depth d s = d + depth s"
proof -
  have "foldl paren_depth d s = d + foldl paren_depth 0 s" for d
  proof (induction s arbitrary: d)
    case (Cons c s)
    show ?case unfolding foldl_Cons Cons [of "paren_depth d c"] Cons [of "paren_depth 0 c"] by (simp add: paren_depth_def)
  qed simp
  then show ?thesis unfolding depth_def .
qed

lemma depth_simps [simp]: "depth [] = 0" "depth (a @ b) = depth a + depth b"
  "depth (c # s) = (if c = 40 then 1 else if c = 41 then - 1 else 0) + depth s"
proof -
  show "depth [] = 0" by (simp add: depth_def)
  show "depth (a @ b) = depth a + depth b"
    using foldl_depth [of "foldl paren_depth 0 a" b] by (simp add: depth_def)
  show "depth (c # s) = (if c = 40 then 1 else if c = 41 then - 1 else 0) + depth s"
    using foldl_depth [of "paren_depth 0 c" s] by (simp add: depth_def paren_depth_def)
qed

lemma depth_flat: "(\<And>c. c \<in> set s \<Longrightarrow> c \<noteq> 40 \<and> c \<noteq> 41) \<Longrightarrow> depth s = 0"
  by (induction s) auto

text \<open>A text without the operator characters that begin and end separators, closed and not padded.\<close>

definition tame :: "jstr \<Rightarrow> bool" where
  "tame s \<longleftrightarrow> s \<noteq> [] \<and> trimmed s \<and> 38 \<notin> set s \<and> 42 \<notin> set s \<and> depth s = 0"

text \<open>Scanning \<open>s\<close> from depth \<open>d\<close> meets no separator \<open> x...\<close> and ends at depth zero.\<close>

fun quiet :: "jchar \<Rightarrow> int \<Rightarrow> jstr \<Rightarrow> bool" where
  "quiet x d [] \<longleftrightarrow> d = 0"
| "quiet x d (c # s) \<longleftrightarrow> (let d' = paren_depth d c in
     \<not> (d' = 0 \<and> c = 32 \<and> (s = [] \<or> hd s = x)) \<and> quiet x d' s)"

lemma split_quiet:
  assumes "sep = 32 # x # sep'" and "quiet x d s"
  shows "split_top sep d cur (s @ rest) = split_top sep 0 (rev s @ cur) rest"
  using assms(2)
proof (induction s arbitrary: d cur)
  case (Cons c s)
  have "\<not> (paren_depth d c = 0 \<and> starts_with sep (c # s @ rest))"
    using Cons.prems assms(1) by (cases s) (auto simp: starts_with_def Let_def)
  then have "split_top sep d cur ((c # s) @ rest) = split_top sep (paren_depth d c) (c # cur) (s @ rest)"
    by (auto simp: Let_def)
  then show ?case using Cons.IH Cons.prems by (simp add: Let_def)
qed simp

lemma quiet_tame: "x \<notin> set s \<Longrightarrow> d + depth s = 0 \<Longrightarrow> s = [] \<or> last s \<noteq> 32 \<Longrightarrow> quiet x d s"
proof (induction s arbitrary: d)
  case (Cons c s)
  have "quiet x (paren_depth d c) s"
    by (rule Cons.IH) (use Cons.prems in \<open>auto simp: paren_depth_def split: if_splits\<close>)
  moreover have "\<not> (c = 32 \<and> (s = [] \<or> hd s = x))" using Cons.prems(1,3) by (cases s) auto
  ultimately show ?case by (auto simp: Let_def)
qed simp

lemma split_join:
  assumes "sep = 32 # x # sep'" and "ps \<noteq> []" and "\<And>p. p \<in> set ps \<Longrightarrow> quiet x 0 p"
  shows "split_top sep 0 [] (join sep ps) = ps"
  using assms(2,3)
proof (induction ps rule: induct_list012)
  case (2 p)
  then show ?case using split_quiet [OF assms(1), of 0 p "[]" "[]"] by simp
next
  case (3 p q ps)
  have "split_top sep 0 (rev p) (sep @ r) = p # split_top sep 0 [] r" for r
    by (simp add: assms(1) paren_depth_def starts_with_def)
  then show ?case using 3 split_quiet [OF assms(1), of 0 p "[]"] by simp
qed simp

lemma tame_trim: "tame p \<Longrightarrow> js_trim p = p"
  by (simp add: tame_def js_trim_id)

definition separable :: "jchar \<Rightarrow> jstr \<Rightarrow> bool" where
  "separable x p \<longleftrightarrow> p \<noteq> [] \<and> trimmed p \<and> x \<notin> set p \<and> depth p = 0"

lemma split_parts_join:
  assumes "js sep = 32 # x # sep'" and "ps \<noteq> []" and "list_all (separable x) ps"
  shows "split_parts sep (join (js sep) ps) = ps"
proof -
  have quiet: "quiet x 0 p" if "separable x p" for p
    using that by (intro quiet_tame) (auto simp: separable_def trimmed_def is_ws_def)
  have "split_top (js sep) 0 [] (join (js sep) ps) = ps"
    by (rule split_join [OF assms(1,2)]) (use assms(3) quiet in \<open>auto simp: list_all_iff\<close>)
  moreover have "map js_trim ps = ps" "filter (\<lambda>p. p \<noteq> []) ps = ps"
    using assms(3) by (auto simp: list_all_iff separable_def intro!: map_idI filter_True js_trim_id)
  ultimately show ?thesis by (simp add: split_parts_def)
qed

lemma tame_separable: "list_all tame ps \<Longrightarrow> list_all (separable 38) ps"
  by (auto simp: list_all_iff tame_def separable_def)

lemma join_separable:
  assumes "list_all (separable x) ps" "ps \<noteq> []" "x \<notin> set sep" "depth sep = 0"
  shows "separable x (join sep ps)"
proof -
  have "separable x (join sep ps) \<and> hd (join sep ps) = hd (hd ps) \<and> last (join sep ps) = last (last ps)"
    using assms(1,2)
  proof (induction ps rule: induct_list012)
    case (3 p q ps)
    then have "separable x (join sep (q # ps))" "last (join sep (q # ps)) = last (last (q # ps))" "separable x p" by auto
    then show ?case using assms(3,4) by (auto simp: separable_def trimmed_def)
  qed simp_all
  then show ?thesis by blast
qed

section \<open>The parts of a group\<close>

definition lower_of :: "time_condition \<Rightarrow> time_condition" where
  "lower_of c = c\<lparr>t_mode := MATCH_GTE, t_value := rangeStart c, rangeStart := [], rangeEnd := []\<rparr>"

definition upper_of :: "time_condition \<Rightarrow> time_condition" where
  "upper_of c = c\<lparr>t_mode := MATCH_LT, t_value := rangeEnd c, rangeStart := [], rangeEnd := []\<rparr>"

fun parts :: "condition \<Rightarrow> jstr list" where
  "parts (TimeCond c) =
     (if t_mode c \<noteq> MATCH_RANGE then [scalar_text c]
      else if overnight c then [js ''('' @ range_text '' || '' c @ js '')'']
      else [scalar_text (lower_of c), scalar_text (upper_of c)])"
| "parts (ParamCond c) = [param_text c]"

lemma bounds_ok:
  assumes "time_ok c" "t_mode c = MATCH_RANGE"
  shows "time_ok (lower_of c)" "time_ok (upper_of c)"
  using assms by (auto simp: time_ok_def lower_of_def upper_of_def)

definition clean :: "jstr \<Rightarrow> bool" where
  "clean s \<longleftrightarrow> 38 \<notin> set s \<and> 42 \<notin> set s \<and> 124 \<notin> set s \<and> depth s = 0"

lemma clean_append: "clean a \<Longrightarrow> clean b \<Longrightarrow> clean (a @ b)"
  by (simp add: clean_def)

lemma safe_clean: "list_all safe_char s \<Longrightarrow> clean s"
  by (auto simp: clean_def list_all_iff safe_char_def intro!: depth_flat)

lemma num_clean: "num_ok v \<Longrightarrow> clean v"
  by (auto simp: clean_def num_ok_def list_all_iff dest: num_char_ws intro!: depth_flat)

lemma quote_clean: "list_all safe_char s \<Longrightarrow> clean (json_quote s)"
  using safe_clean [of s] by (simp add: quote_safe clean_def)

lemma names_clean: "clean (js (func_text f))" "clean (js (source_name src))" "clean (js (op_text m))"
proof -
  show "clean (js (func_text f))" by (cases f) (simp_all add: clean_def js_def)
  show "clean (js (source_name src))" by (cases src) (simp_all add: clean_def js_def source_name_def)
  show "clean (js (op_text m))" by (simp add: clean_def js_def op_text_def)
qed

lemma call_clean: "clean (js name) \<Longrightarrow> list_all safe_char s \<Longrightarrow> clean (call_text name s)"
  using quote_clean [of s] by (simp add: call_text_def clean_def js_def)

lemma literals_clean: "clean (js '' >= '')" "clean (js '' < '')" "clean (js '' == '')" "clean (js '' != nil'')" "clean (js '' != \"\"'')"
  "clean (js ''true'')" "clean (js ''false'')"
  by (simp_all add: clean_def js_def)

lemma literal_clean: "safe_text s \<Longrightarrow> clean (literal_text s)"
  by (auto simp: literal_text_def safe_text_def literals_clean quote_clean num_clean num_ok_def numeric_chars)

lemma scalar_clean: "time_ok c \<Longrightarrow> t_mode c \<noteq> MATCH_RANGE \<Longrightarrow> clean (scalar_text c)"
  unfolding scalar_text_def
  by (intro clean_append call_clean names_clean num_clean) (auto simp: time_ok_def zone_ok_def dest: in_range_num)

lemma range_half_clean: "time_ok c \<Longrightarrow> t_mode c = MATCH_RANGE \<Longrightarrow>
    clean (fn (timeFunc c) (timezone c) @ js '' >= '' @ rangeStart c) \<and> clean (fn (timeFunc c) (timezone c) @ js '' < '' @ rangeEnd c)"
  by (intro conjI clean_append call_clean names_clean literals_clean num_clean) (auto simp: time_ok_def zone_ok_def dest: in_range_num)

lemma param_clean:
  assumes "param_ok c"
  shows "clean (param_text c)"
proof -
  have p: "list_all safe_char (ph_path c)" "safe_text (ph_value c)" "list_all safe_char (ph_value c)"
    using assms by (auto simp: param_ok_def safe_text_def)
  note call = call_clean [OF names_clean(2) p(1), of "ph_source c"]
  have "clean (js ''has('' @ call_text (source_name (ph_source c)) (ph_path c) @ js '', '' @ json_quote (ph_value c) @ js '')'')"
    using call quote_clean [OF p(3)] by (simp add: clean_def js_def)
  then show ?thesis using literal_clean [OF p(2)] call
    by (auto simp: param_text_def Let_def intro!: clean_append literals_clean split: rule_source.split)
qed

text \<open>First and last characters.\<close>

definition edges :: "jstr \<Rightarrow> bool" where
  "edges s \<longleftrightarrow> s \<noteq> [] \<and> \<not> is_ws (hd s) \<and> \<not> is_ws (last s)"

lemma edges_append: "a \<noteq> [] \<Longrightarrow> \<not> is_ws (hd a) \<Longrightarrow> b \<noteq> [] \<Longrightarrow> \<not> is_ws (last b) \<Longrightarrow> edges (a @ b)"
  by (simp add: edges_def)

lemma call_head: "call_text (func_text f) s @ r \<noteq> [] \<and> \<not> is_ws (hd (call_text (func_text f) s @ r))"
  "call_text (source_name src) s @ r \<noteq> [] \<and> \<not> is_ws (hd (call_text (source_name src) s @ r))"
  by (cases f; simp add: call_text_def js_def is_ws_def) (cases src; simp add: call_text_def js_def is_ws_def source_name_def)

lemma num_last: "num_ok v \<Longrightarrow> v \<noteq> [] \<and> \<not> is_ws (last v)"
  by (auto simp: num_ok_def list_all_iff dest: num_char_ws)

lemma literal_last: "safe_text s \<Longrightarrow> \<not> is_ws (last (literal_text s))"
  using num_last [of s] numeric_chars [of s]
  by (auto simp: literal_text_def num_ok_def safe_text_def quote_safe js_def is_ws_def)

lemma param_edges:
  assumes "param_ok c"
  shows "edges (param_text c)"
proof -
  have ex: "js '' != nil'' \<noteq> []" "js '' != \"\"'' \<noteq> []" "\<not> is_ws (last (js '' != nil''))" "\<not> is_ws (last (js '' != \"\"''))"
    "js '')'' \<noteq> []" "\<not> is_ws (last (js '')''))" "\<not> is_ws (hd (js ''has('' @ x))" "js ''has('' \<noteq> []" for x
    by (simp_all add: js_def is_ws_def)
  consider (ex) "ph_mode c = MATCH_EXISTS" | (has) "ph_mode c = MATCH_CONTAINS" | (eq) "ph_mode c = MATCH_EQ"
    using assms by (auto simp: param_ok_def)
  then show ?thesis
  proof cases
    case ex
    then show ?thesis using call_head(2) \<open>js '' != nil'' \<noteq> []\<close>
      by (cases "ph_source c") (simp_all add: edges_def param_text_def Let_def js_def is_ws_def)
  next
    case has
    then show ?thesis using ex by (simp add: edges_def param_text_def Let_def)
  next
    case eq
    then show ?thesis
      using call_head(2) literal_last [of "ph_value c"] literal_ok(2) [of "ph_value c"] assms
      by (simp add: edges_def param_text_def Let_def param_ok_def)
  qed
qed

lemma scalar_edges: "time_ok c \<Longrightarrow> t_mode c \<noteq> MATCH_RANGE \<Longrightarrow> edges (scalar_text c)"
  using num_last [of "t_value c"] by (auto simp: time_ok_def scalar_text_def edges_def call_head dest: in_range_num)

lemma parts_tame:
  assumes "cond_ok c"
  shows "list_all tame (parts c)"
proof (cases c)
  case (ParamCond p)
  then show ?thesis using assms param_clean [of p] param_edges [of p] by (simp add: tame_def clean_def edges_def trimmed_def)
next
  case (TimeCond t)
  have scalar: "tame (scalar_text t')" if "time_ok t'" "t_mode t' \<noteq> MATCH_RANGE" for t'
    using scalar_clean [OF that] scalar_edges [OF that] by (simp add: tame_def clean_def edges_def trimmed_def)
  have "tame (js ''('' @ range_text '' || '' t @ js '')'')" if "t_mode t = MATCH_RANGE"
    using range_half_clean [of t] assms TimeCond that
    by (simp add: tame_def clean_def trimmed_def range_text_def js_def is_ws_def)
  then show ?thesis using assms TimeCond scalar bounds_ok [of t] by (auto simp: lower_of_def upper_of_def)
qed

section \<open>Reading back a group\<close>

text \<open>Two conditions that the parser would merge into one range.\<close>

fun mergeable :: "condition \<Rightarrow> condition \<Rightarrow> bool" where
  "mergeable (TimeCond a) (TimeCond b) \<longleftrightarrow> timeFunc a = timeFunc b \<and> timezone a = timezone b \<and>
     t_mode a = MATCH_GTE \<and> t_mode b = MATCH_LT"
| "mergeable _ _ \<longleftrightarrow> False"

fun unmergeable :: "condition list \<Rightarrow> bool" where
  "unmergeable (a # b # cs) \<longleftrightarrow> \<not> mergeable a b \<and> unmergeable (b # cs)"
| "unmergeable _ \<longleftrightarrow> True"

text \<open>The time condition that a part reads as.\<close>

fun first_time :: "condition \<Rightarrow> time_condition option" where
  "first_time (TimeCond c) = Some (if t_mode c = MATCH_RANGE \<and> \<not> overnight c then lower_of c else c)"
| "first_time (ParamCond c) = None"

lemma parts_first: "cond_ok c \<Longrightarrow> tryParseTimeCondition (hd (parts c)) = first_time c"
proof (cases c)
  case (TimeCond t)
  assume "cond_ok c"
  then show ?thesis using TimeCond parse_scalar [of t] parse_range(2) [of t "'' || ''"] bounds_ok [of t]
      parse_scalar [of "lower_of t"] by (auto simp: lower_of_def)
next
  case (ParamCond p)
  then show ?thesis using no_time(1) [of "ph_source p" "ph_path p"] no_time(2) by (auto simp: param_text_def Let_def)
qed

lemma parts_single: "cond_ok c \<Longrightarrow> length (parts c) = 1 \<Longrightarrow> tryParseRequestCondition (hd (parts c)) = Got c"
proof (cases c)
  case (TimeCond t)
  assume "cond_ok c" "length (parts c) = 1"
  then show ?thesis using TimeCond parts_first [of c] by (auto simp: tryParseRequestCondition_def split: if_splits)
next
  case (ParamCond p)
  assume "cond_ok c"
  then show ?thesis using ParamCond parse_param by simp
qed

lemma no_merge:
  assumes "cond_ok a" "cond_ok b" "\<not> mergeable a b" "length (parts a) = 1"
  shows "tryParseTimeRangePair (hd (parts a)) (hd (parts b)) = None"
  using assms parts_first [OF assms(1)] parts_first [OF assms(2)]
  by (cases a; cases b) (auto simp: tryParseTimeRangePair_def lower_of_def time_ok_def split: if_splits)

lemma merge_range:
  assumes "time_ok c" "t_mode c = MATCH_RANGE"
  shows "tryParseTimeRangePair (scalar_text (lower_of c)) (scalar_text (upper_of c)) = Some c"
proof -
  have "tryParseTimeCondition (scalar_text (lower_of c)) = Some (lower_of c)"
    "tryParseTimeCondition (scalar_text (upper_of c)) = Some (upper_of c)"
    using parse_scalar [OF bounds_ok(1) [OF assms]] parse_scalar [OF bounds_ok(2) [OF assms]]
    by (simp_all add: lower_of_def upper_of_def)
  then show ?thesis using range_record [OF assms(2)] range_facts(6) [OF assms]
    by (simp add: tryParseTimeRangePair_def lower_of_def upper_of_def)
qed

lemma parts_shape: "length (parts c) = 1 \<or>
    (\<exists>t. c = TimeCond t \<and> t_mode t = MATCH_RANGE \<and> parts c = [scalar_text (lower_of t), scalar_text (upper_of t)])"
  by (cases c) auto

lemma parse_all_parts:
  assumes "list_all cond_ok cs" "unmergeable cs"
  shows "parse_parts (concat (map parts cs)) = Got cs"
  using assms
proof (induction cs)
  case (Cons c cs)
  have ih: "parse_parts (concat (map parts cs)) = Got cs"
    using Cons.IH Cons.prems by (cases cs) auto
  have trim: "js_trim p = p" "p \<noteq> []" if p: "p \<in> set (concat (map parts (c # cs)))" for p
  proof -
    obtain d where d: "d \<in> set (c # cs)" "p \<in> set (parts d)" using p by auto
    have "cond_ok d" using Cons.prems(1) d(1) unfolding list_all_iff by blast
    then have "tame p" using parts_tame d(2) unfolding list_all_iff by blast
    then show "js_trim p = p" "p \<noteq> []" by (simp_all add: tame_trim tame_def)
  qed
  show ?case
  proof (cases "length (parts c) = 1")
    case False
    then obtain t where t: "c = TimeCond t" "t_mode t = MATCH_RANGE"
      "parts c = [scalar_text (lower_of t), scalar_text (upper_of t)]" using parts_shape [of c] by blast
    then have "tryParseTimeRangePair (scalar_text (lower_of t)) (scalar_text (upper_of t)) = Some t"
      using Cons.prems(1) merge_range by simp
    then show ?thesis using t trim ih by simp
  next
    case True
    then obtain p where p: "parts c = [p]" by (cases "parts c") auto
    have here: "tryParseRequestCondition p = Got c" using parts_single [of c] Cons.prems(1) True p by simp
    have tp: "js_trim p = p" using trim(1) [of p] p by simp
    have "(case concat (map parts cs) of [] \<Rightarrow> None | q # _ \<Rightarrow>
        (if js_trim q = [] then None else tryParseTimeRangePair (js_trim p) (js_trim q))) = None"
    proof (cases cs)
      case (Cons d ds)
      obtain q qs where q: "parts d = q # qs" using parts_shape [of d] by (cases "parts d") auto
      then have "tryParseTimeRangePair p q = None" "js_trim q = q"
        using no_merge [of c d] Cons.prems Cons True p q trim by auto
      then show ?thesis using Cons q tp by simp
    qed simp
    then show ?thesis using p here ih tp by simp
  qed
qed simp

lemma wrap_parts:
  assumes "cond_ok c"
  shows "wrap_or (cond_text c) = join (js '' && '') (parts c)"
proof -
  have inc: "js_includes s (js '' || '') \<Longrightarrow> 124 \<in> set s" for s by (auto simp: js_includes_iff js_def)
  have plain: "wrap_or s = s" if "clean s" for s using that inc [of s] by (auto simp: wrap_or_def clean_def)
  show ?thesis
  proof (cases c)
    case (ParamCond p)
    then show ?thesis using assms plain [OF param_clean] by simp
  next
    case (TimeCond t)
    then have ok: "time_ok t" using assms by simp
    show ?thesis
    proof (cases "t_mode t = MATCH_RANGE")
      case False
      then show ?thesis using TimeCond plain [OF scalar_clean [OF ok]] by simp
    next
      case True
      have "js_includes (range_text '' || '' t) (js '' || '')"
        unfolding js_includes_iff range_text_def
        by (intro exI [of _ "fn (timeFunc t) (timezone t) @ js '' >= '' @ rangeStart t"]
            exI [of _ "fn (timeFunc t) (timezone t) @ js '' < '' @ rangeEnd t"]) simp
      moreover have "\<not> js_includes (range_text '' && '' t) (js '' || '')"
        using inc [of "range_text '' && '' t"] range_half_clean [OF ok True]
        by (auto simp: range_text_def clean_def js_def)
      ultimately show ?thesis using TimeCond True
        by (simp add: wrap_or_def conn_of_def range_text_def scalar_text_def lower_of_def upper_of_def op_text_def)
    qed
  qed
qed

lemma join_concat: "(\<And>xs. xs \<in> set xss \<Longrightarrow> xs \<noteq> []) \<Longrightarrow> join sep (map (join sep) xss) = join sep (concat xss)"
proof (induction xss rule: induct_list012)
  case (3 xs ys zss)
  have app: "us \<noteq> [] \<Longrightarrow> vs \<noteq> [] \<Longrightarrow> join sep (us @ vs) = join sep us @ sep @ join sep vs" for us vs
    by (induction us rule: induct_list012) (auto simp: neq_Nil_conv)
  have "join sep (map (join sep) (ys # zss)) = join sep (concat (ys # zss))" using 3 by simp
  moreover have "concat (ys # zss) \<noteq> []" using 3(3) [of ys] by simp
  ultimately show ?case using app [of xs "concat (ys # zss)"] 3(3) [of xs] by simp
qed simp_all

lemma parts_nonempty: "parts c \<noteq> []"
  using parts_shape [of c] by auto

text \<open>The text of several conditions is not a time condition.\<close>

lemma upper_other:
  assumes "cond_ok c" and "\<not> mergeable (TimeCond t) c" and "t_mode t = MATCH_GTE"
  shows "upper_at (timeFunc t) (timezone t) (hd (parts c) @ r) = None"
proof (cases c)
  case (ParamCond p)
  have "lit (func_text f) (call_text (source_name src) a @ x) = None" "lit (func_text f) (js ''has('' @ x) = None" for f src a x
    by (cases f; cases src; simp add: call_text_append source_name_def lit_eval)+
  then show ?thesis using ParamCond by (simp add: upper_at_def param_text_def Let_def)
next
  case (TimeCond u)
  have z: "zone_ok (timezone u)" using assms(1) TimeCond by (simp add: time_ok_def)
  have par: "lit (func_text f) (js ''('' @ x) = None" for f x by (cases f) (simp_all add: lit_eval)
  have "lit '' < '' (js '' >= '' @ x) = None" "lit '' < '' (js '' == '' @ x) = None" for x by (simp_all add: lit_eval)
  then show ?thesis using assms TimeCond par upper_at_call [OF z]
    by (auto simp: scalar_text_def op_text_def lower_of_def time_ok_def upper_at_def [of _ _ "js ''('' @ _"])
qed

lemma and_end: "num_end (js '' && '' @ x)" "js '' && '' @ x \<noteq> []" "js '')'' @ js '' && '' @ x \<noteq> js '')''" "num_end (js '')'' @ x)"
  by (simp_all add: js_def)

lemma more_not_scalar:
  assumes "time_ok t" "t_mode t \<noteq> MATCH_RANGE" "cond_ok d" "\<not> mergeable (TimeCond t) d"
  shows "tryParseTimeCondition (scalar_text t @ js '' && '' @ hd (parts d) @ r) = None"
proof -
  let ?s = "scalar_text t @ js '' && '' @ hd (parts d) @ r"
  have z: "zone_ok (timezone t)" and n: "num_ok (t_value t)"
    and m: "t_mode t = MATCH_EQ \<or> t_mode t = MATCH_GTE \<or> t_mode t = MATCH_LT"
    using assms by (auto simp: time_ok_def in_range_num)
  have "time_range_at ?s = None"
    using m upper_other [OF assms(3,4)]
    by (auto simp: scalar_text_def op_text_def time_range_at_ge(2) [OF z n] time_range_at_other [OF z])
  moreover have "lit ''('' ?s = None" by (simp add: scalar_text_def fn_not_paren)
  moreover have "time_scalar ?s = None"
    using m time_scalar_text [OF z n and_end(1), of "timeFunc t"] and_end(2) by (auto simp: scalar_text_def op_text_def)
  ultimately show ?thesis by (simp add: tryParseTimeCondition_def time_range_def)
qed

lemma more_not_range:
  assumes "time_ok t" "t_mode t = MATCH_RANGE"
  shows "tryParseTimeCondition (range_text '' && '' t @ js '' && '' @ r) = None"
    "tryParseTimeCondition (js ''('' @ range_text '' || '' t @ js '')'' @ js '' && '' @ r) = None"
proof -
  note f = range_facts [OF assms]
  have at: "time_range_at (range_text conn t @ x) = Some (timeFunc t, timezone t, rangeStart t, rangeEnd t, x)"
    if "num_end x" "conn = '' && '' \<or> conn = '' || ''" for x conn
    using that time_range_text [OF f(1-3), of x "timeFunc t"] by (auto simp: range_text_def)
  have ne: "js '' && '' @ r = c # x \<longleftrightarrow> c = 32 \<and> x = js ''&& '' @ r" for c x by (auto simp: js_def)
  have "time_range (range_text '' && '' t @ js '' && '' @ r) = None"
    using at [OF and_end(1), of "'' && ''" r] fn_not_paren by (simp add: time_range_def ne range_text_def)
      (simp add: js_def)
  moreover have "time_scalar (range_text '' && '' t @ js '' && '' @ r) = None"
    using time_scalar_text(1) [OF f(1,2) and_end(1)] and_end(2) by (simp add: range_text_def)
  ultimately show "tryParseTimeCondition (range_text '' && '' t @ js '' && '' @ r) = None"
    by (simp add: tryParseTimeCondition_def)
  have call: "time_call (40 # x) = None" for x by (simp add: time_call_def TIME_FUNCS_def lit_eval)
  have "time_range (40 # range_text '' || '' t @ js '')'' @ js '' && '' @ r) = None"
    using at [OF and_end(4), of "'' || ''" "js '' && '' @ r"] and_end(3) call
    by (simp add: time_range_def time_range_at_def [of "40 # _"] lit_rec)
  moreover have "time_scalar (40 # x) = None" for x by (simp add: time_scalar_def call)
  ultimately show "tryParseTimeCondition (js ''('' @ range_text '' || '' t @ js '')'' @ js '' && '' @ r) = None"
    by (simp add: tryParseTimeCondition_def) (simp add: js_def)
qed

definition and_text :: "condition list \<Rightarrow> jstr" where
  "and_text cs = join (js '' && '') (concat (map parts cs))"

lemma join_Cons: "xs \<noteq> [] \<Longrightarrow> \<exists>r. join sep xs = hd xs @ r"
  by (induction xs rule: induct_list012) auto

lemma join_app: "us \<noteq> [] \<Longrightarrow> vs \<noteq> [] \<Longrightarrow> join sep (us @ vs) = join sep us @ sep @ join sep vs"
  by (induction us rule: induct_list012) (auto simp: neq_Nil_conv)

lemma and_text_Cons:
  "\<exists>r. and_text (c # d # ds) = join (js '' && '') (parts c) @ js '' && '' @ hd (parts d) @ r"
proof -
  have ne: "concat (map parts (d # ds)) \<noteq> []" by (simp add: parts_nonempty)
  obtain r where "join (js '' && '') (concat (map parts (d # ds))) = hd (parts d) @ r"
    using join_Cons [OF ne] parts_nonempty [of d] by (auto simp: hd_append)
  then show ?thesis using join_app [OF parts_nonempty [of c] ne] by (simp add: and_text_def)
qed

lemma several_not_time:
  assumes "list_all cond_ok (c # d # ds)" "unmergeable (c # d # ds)"
  shows "tryParseTimeCondition (and_text (c # d # ds)) = None"
proof -
  obtain r where t: "and_text (c # d # ds) = join (js '' && '') (parts c) @ js '' && '' @ hd (parts d) @ r"
    using and_text_Cons by blast
  have ok: "cond_ok c" "cond_ok d" "\<not> mergeable c d" using assms by auto
  show ?thesis
  proof (cases c)
    case (ParamCond p)
    then show ?thesis unfolding t using no_time by (simp add: param_text_def Let_def)
  next
    case (TimeCond u)
    have "join (js '' && '') (parts c) = range_text '' && '' u" if "t_mode u = MATCH_RANGE" "\<not> overnight u"
      using that TimeCond by (simp add: range_text_def scalar_text_def lower_of_def upper_of_def op_text_def)
    then show ?thesis unfolding t using TimeCond ok more_not_scalar [of u d r] more_not_range [of u]
      by (cases "t_mode u = MATCH_RANGE"; cases "overnight u") auto
  qed
qed

lemma and_text_split:
  assumes "list_all cond_ok cs" "cs \<noteq> []"
  shows "splitTopLevelAnd (and_text cs) = concat (map parts cs)" "separable 42 (and_text cs)"
proof -
  have ps: "list_all tame (concat (map parts cs))" "concat (map parts cs) \<noteq> []"
    using assms parts_tame parts_nonempty by (auto simp: list_all_iff neq_Nil_conv)
  have "js '' && '' = 32 # 38 # js ''& ''" by (simp add: js_def)
  then show "splitTopLevelAnd (and_text cs) = concat (map parts cs)"
    using split_parts_join [of "'' && ''"] ps tame_separable by (simp add: splitTopLevelAnd_def and_text_def)
  have "list_all (separable 42) (concat (map parts cs))"
    using ps(1) by (auto simp: list_all_iff tame_def separable_def)
  then show "separable 42 (and_text cs)"
    unfolding and_text_def by (rule join_separable [OF _ ps(2)]) (simp_all add: js_def)
qed

lemma separable_trim: "separable x s \<Longrightarrow> js_trim s = s"
  by (simp add: separable_def js_trim_id)

definition group_text :: "condition list \<Rightarrow> jstr" where
  "group_text cs = (case cs of [c] \<Rightarrow> cond_text c | _ \<Rightarrow> and_text cs)"

lemma time_text_separable:
  assumes "time_ok t"
  shows "separable 42 (cond_text (TimeCond t))"
proof (cases "t_mode t = MATCH_RANGE")
  case True
  have "clean (fn (timeFunc t) (timezone t) @ js '' >= '' @ rangeStart t)"
    "clean (fn (timeFunc t) (timezone t) @ js '' < '' @ rangeEnd t)" "num_ok (rangeEnd t)"
    using range_half_clean [OF assms True] range_facts(3) [OF assms True] by auto
  then show ?thesis using True call_head(1) num_last [of "rangeEnd t"]
    by (auto simp: separable_def clean_def range_text_def trimmed_def conn_of_def js_def)
next
  case False
  then show ?thesis using scalar_clean [OF assms False] scalar_edges [OF assms False]
    by (simp add: separable_def clean_def edges_def trimmed_def)
qed

lemma group_parse:
  assumes "list_all cond_ok cs" "cs \<noteq> []" "unmergeable cs"
  shows "tryParseRequestConditions (group_text cs) = Got cs" "separable 42 (group_text cs)"
proof -
  have several: "tryParseRequestConditions (and_text cs) = Got cs" if "tryParseTimeCondition (and_text cs) = None"
    using that parse_all_parts [OF assms(1,3)] and_text_split [OF assms(1,2)] assms(2)
    by (simp add: tryParseRequestConditions_def separable_trim)
  have "tryParseRequestConditions (group_text cs) = Got cs \<and> separable 42 (group_text cs)"
  proof (cases "\<exists>t. cs = [TimeCond t]")
    case True
    then obtain t where t: "cs = [TimeCond t]" "time_ok t" using assms(1) by auto
    have "tryParseTimeCondition (cond_text (TimeCond t)) = Some t"
      using t(2) parse_scalar [of t] parse_range(1) [of t "conn_of t"] by (auto simp: conn_of_def)
    then show ?thesis using t time_text_separable [OF t(2)]
      by (simp add: group_text_def tryParseRequestConditions_def separable_trim del: cond_text.simps)
  next
    case False
    then have g: "group_text cs = and_text cs"
      using assms(2) by (cases cs; cases "hd cs"; cases "tl cs") (auto simp: group_text_def and_text_def)
    have "tryParseTimeCondition (and_text cs) = None"
    proof (cases "\<exists>c d ds. cs = c # d # ds")
      case True
      then obtain c d ds where "cs = c # d # ds" by blast
      then show ?thesis using several_not_time [of c d ds] assms by simp
    next
      case nope: False
      then obtain p where "cs = [ParamCond p]" using False assms(2)
        by (cases cs; cases "hd cs"; cases "tl cs") auto
      then show ?thesis using no_time by (simp add: and_text_def param_text_def Let_def)
    qed
    then show ?thesis using g several and_text_split(2) [OF assms(1,2)] by simp
  qed
  then show "tryParseRequestConditions (group_text cs) = Got cs" "separable 42 (group_text cs)" by blast+
qed

section \<open>Reading back rules\<close>

definition group_ok :: "rule_group \<Rightarrow> bool" where
  "group_ok g \<longleftrightarrow> numeric_literal (multiplier g) \<and> conditions g \<noteq> [] \<and> list_all cond_ok (conditions g) \<and>
     unmergeable (conditions g)"

definition factor_text :: "jstr \<Rightarrow> jstr \<Rightarrow> jstr" where
  "factor_text t m = js ''('' @ t @ js '' ? '' @ m @ js '' : 1)''"

lemma rule_factor_text:
  assumes "t \<noteq> []" "num_ok m"
  shows "rule_factor (factor_text t m) = Some (t, m)"
proof -
  have "rev (t @ js '' ? '' @ m @ js '' : 1)'') = js '')1 : '' @ rev m @ js '' ? '' @ rev t" by (simp add: js_def)
  moreover have "num_ok (rev m)" using assms(2) by (simp add: num_ok_def list_all_iff)
  then have "run1 is_num_char (rev m @ js '' ? '' @ rev t) = Some (rev m, js '' ? '' @ rev t)"
    by (rule run1_num) (simp add: js_def)
  ultimately show ?thesis using assms(1) by (simp add: rule_factor_def factor_text_def)
qed

lemma join_wrapped:
  assumes "list_all cond_ok cs"
  shows "join (js '' && '') (map (\<lambda>c. wrap_or (cond_text c)) cs) = and_text cs"
proof -
  have "map (\<lambda>c. wrap_or (cond_text c)) cs = map (join (js '' && '')) (map parts cs)"
    using assms wrap_parts by (auto simp: list_all_iff)
  moreover have "join (js '' && '') (map (join (js '' && '')) (map parts cs)) = join (js '' && '') (concat (map parts cs))"
    by (rule join_concat) (use parts_nonempty in auto)
  ultimately show ?thesis by (simp only: and_text_def)
qed

lemma cond_text_nonempty: "cond_ok c \<Longrightarrow> cond_text c \<noteq> []"
  using group_parse(2) [of "[c]"] by (auto simp: group_text_def separable_def)

lemma build_factor:
  assumes "group_ok g"
  shows "buildRuleGroupFactor g = factor_text (group_text (conditions g)) (multiplier g)"
proof -
  let ?cs = "conditions g"
  have ok: "list_all cond_ok ?cs" "?cs \<noteq> []" "numeric_literal (multiplier g)" using assms by (auto simp: group_ok_def)
  have m: "map buildRequestConditionExpr ?cs = map cond_text ?cs" using ok(1) build_text by (auto simp: list_all_iff)
  then have e: "filter (\<lambda>e. e \<noteq> []) (map buildRequestConditionExpr ?cs) = map cond_text ?cs"
    using ok(1) cond_text_nonempty by (auto simp: list_all_iff filter_map intro!: filter_True)
  have "group_text ?cs = (if length ?cs = 1 then hd (map cond_text ?cs) else join (js '' && '') (map wrap_or (map cond_text ?cs)))"
    using join_wrapped [OF ok(1)] ok(2) by (auto simp: group_text_def comp_def split: list.split)
  then show ?thesis using ok e numeric_trim [OF ok(3)] by (simp add: buildRuleGroupFactor_def factor_text_def Let_def)
qed

lemma factor_separable:
  assumes "group_ok g"
  shows "separable 42 (buildRuleGroupFactor g)" "tryParseRuleGroupFactor (buildRuleGroupFactor g) = Got g"
proof -
  have ok: "list_all cond_ok (conditions g)" "conditions g \<noteq> []" "unmergeable (conditions g)" and m: "num_ok (multiplier g)"
    using assms numeric_chars by (auto simp: group_ok_def num_ok_def)
  note parse = group_parse [OF ok]
  show "separable 42 (buildRuleGroupFactor g)"
    using parse(2) num_clean [OF m] unfolding build_factor [OF assms] factor_text_def
    by (simp add: separable_def clean_def trimmed_def js_def is_ws_def)
  have "group_text (conditions g) \<noteq> []" using parse(2) by (simp add: separable_def)
  then show "tryParseRuleGroupFactor (buildRuleGroupFactor g) = Got g"
    using parse(1) unfolding build_factor [OF assms] by (simp add: tryParseRuleGroupFactor_def rule_factor_text [OF _ m])
qed

lemma parse_factors_built: "list_all group_ok gs \<Longrightarrow> parse_factors (map buildRuleGroupFactor gs) = Got gs"
  by (induction gs) (simp_all add: factor_separable)

lemma build_rules:
  assumes "list_all group_ok gs"
  shows "buildRequestRuleExpr gs = join (js '' * '') (map buildRuleGroupFactor gs)"
    "gs \<noteq> [] \<Longrightarrow> separable 42 (hd (map buildRuleGroupFactor gs))"
    "gs \<noteq> [] \<Longrightarrow> splitTopLevelMultiply (buildRequestRuleExpr gs) = map buildRuleGroupFactor gs"
    "gs \<noteq> [] \<Longrightarrow> js_trim (buildRequestRuleExpr gs) = buildRequestRuleExpr gs \<and> buildRequestRuleExpr gs \<noteq> []"
proof -
  let ?fs = "map buildRuleGroupFactor gs"
  have sep: "list_all (separable 42) ?fs" using assms factor_separable(1) by (auto simp: list_all_iff)
  have e: "filter (\<lambda>e. e \<noteq> []) ?fs = ?fs" using sep by (auto simp: list_all_iff separable_def intro!: filter_True)
  show j: "buildRequestRuleExpr gs = join (js '' * '') ?fs" by (simp only: buildRequestRuleExpr_def e)
  show "gs \<noteq> [] \<Longrightarrow> separable 42 (hd ?fs)" using sep by (cases gs) auto
  have "js '' * '' = 32 # 42 # js '' ''" by (simp add: js_def)
  from split_parts_join [OF this _ sep]
  show "gs \<noteq> [] \<Longrightarrow> splitTopLevelMultiply (buildRequestRuleExpr gs) = ?fs" by (simp add: splitTopLevelMultiply_def j)
  have "join (js '' * '') ?fs \<noteq> [] \<and> trimmed (join (js '' * '') ?fs)" if "gs \<noteq> []"
    using that sep
  proof (induction gs rule: induct_list012)
    case (3 g g' gs)
    then show ?case by (auto simp: separable_def trimmed_def js_def) 
  qed (simp_all add: separable_def)
  then show "gs \<noteq> [] \<Longrightarrow> js_trim (buildRequestRuleExpr gs) = buildRequestRuleExpr gs \<and> buildRequestRuleExpr gs \<noteq> []"
    by (simp add: j js_trim_id)
qed

lemma built_rules_parse:
  assumes "list_all group_ok gs"
  shows "tryParseRequestRuleExpr (buildRequestRuleExpr gs) = Got gs"
proof (cases "gs = []")
  case True
  then show ?thesis by (simp add: tryParseRequestRuleExpr_def buildRequestRuleExpr_def)
next
  case False
  then show ?thesis using build_rules [OF assms] parse_factors_built [OF assms]
    by (simp add: tryParseRequestRuleExpr_def Let_def)
qed

text \<open>
  C8: Rules survive the editor.  For every list of groups the editor can carry, parsing the expression
  built from it gives the same groups: time conditions in their domains, existence and equality of
  parameters and headers, containment for headers, plain texts, numeric multipliers, and no lower
  bound followed by an upper bound that the parser would merge.
\<close>

theorem rules_roundtrip:
  assumes "list_all group_ok gs"
  shows "tryParseRequestRuleExpr (buildRequestRuleExpr gs) = Got gs"
  using assms by (rule built_rules_parse)

definition sample_time :: time_condition where
  "sample_time = \<lparr>timeFunc = Hour, timezone = js ''Asia/Shanghai'', t_mode = MATCH_RANGE, t_value = [],
     rangeStart = js ''21'', rangeEnd = js ''6''\<rparr>"

definition sample_groups :: "rule_group list" where
  "sample_groups = [\<lparr>conditions = [TimeCond sample_time,
     ParamCond \<lparr>ph_source = Param, ph_path = js ''service_tier'', ph_mode = MATCH_EQ, ph_value = js ''fast''\<rparr>],
     multiplier = js ''3''\<rparr>]"

theorem rules_roundtrip_witness:
  "tryParseRequestRuleExpr (js ''((hour(\"Asia/Shanghai\") >= 21 || hour(\"Asia/Shanghai\") < 6) && param(\"service_tier\") == \"fast\" ? 3 : 1)'')
     = Got sample_groups"
proof -
  have "list_all group_ok sample_groups" by code_simp
  moreover have "buildRequestRuleExpr sample_groups =
      js ''((hour(\"Asia/Shanghai\") >= 21 || hour(\"Asia/Shanghai\") < 6) && param(\"service_tier\") == \"fast\" ? 3 : 1)''"
    by code_simp
  ultimately show ?thesis using rules_roundtrip [of sample_groups] by simp
qed

end
