(* ===== verification/TaskScanning.thy ===== *)
theory TaskScanning
  imports TaskPricing RuleRoundtrip
begin

text \<open>
  What the scanners of task expressions do on the texts the editor writes.  The locale states the
  contract the three scanners share: they walk through string literals and parentheses and stop only
  at a character of their own outside both.  A text that \<open>passes\<close> is walked over as a whole.
\<close>

section \<open>The contract of the scanners\<close>

locale quoted_scan =
  fixes scan :: "int \<Rightarrow> bool \<Rightarrow> bool \<Rightarrow> 'a \<Rightarrow> jstr \<Rightarrow> 'r"
    and adv :: "jchar \<Rightarrow> 'a \<Rightarrow> 'a"
    and plain :: "jchar \<Rightarrow> bool"
  assumes in_escape: "scan d True True a (c # s) = scan d True False (adv c a) s"
    and in_quote: "scan d True False a (c # s) = scan d (c \<noteq> 34) (c = 92) (adv c a) s"
    and open_quote: "scan d False False a (34 # s) = scan d True False (adv 34 a) s"
    and open_paren: "scan d False False a (40 # s) = scan (d + 1) False False (adv 40 a) s"
    and close_paren: "0 < d \<Longrightarrow> scan d False False a (41 # s) = scan (d - 1) False False (adv 41 a) s"
    and other: "c \<notin> {34, 40, 41} \<Longrightarrow> d \<noteq> 0 \<or> plain c \<Longrightarrow> scan d False False a (c # s) = scan d False False (adv c a) s"

fun walk :: "(jchar \<Rightarrow> bool) \<Rightarrow> int \<Rightarrow> bool \<Rightarrow> bool \<Rightarrow> jstr \<Rightarrow> (int \<times> bool \<times> bool) option" where
  "walk p d q e [] = Some (d, q, e)"
| "walk p d q e (c # s) =
     (if q then (if e then walk p d True False s else walk p d (c \<noteq> 34) (c = 92) s)
      else if c = 34 then walk p d True False s
      else if c = 40 then walk p (d + 1) False False s
      else if c = 41 then (if 0 < d then walk p (d - 1) False False s else None)
      else if d \<noteq> 0 \<or> p c then walk p d False False s else None)"

definition passes :: "(jchar \<Rightarrow> bool) \<Rightarrow> int \<Rightarrow> jstr \<Rightarrow> bool" where
  "passes p d s \<longleftrightarrow> walk p d False False s = Some (d, False, False)"

context quoted_scan
begin

lemma scan_walk:
  "walk plain d q e s = Some (d', q', e') \<Longrightarrow> (e \<longrightarrow> q) \<Longrightarrow>
   scan d q e a (s @ r) = scan d' q' e' (foldl (\<lambda>a c. adv c a) a s) r"
proof (induction s arbitrary: d q e a)
  case (Cons c s)
  show ?case
  proof (cases q)
    case True
    then show ?thesis using Cons in_escape in_quote by (cases e) auto
  next
    case False
    then have "\<not> e" using Cons.prems by simp
    then show ?thesis using Cons False open_quote open_paren close_paren other
      by (auto split: if_splits)
  qed
qed simp

lemma scan_passes:
  "passes plain d s \<Longrightarrow> scan d False False a (s @ r) = scan d False False (foldl (\<lambda>a c. adv c a) a s) r"
  by (simp add: passes_def scan_walk)

end

interpretation find: quoted_scan "find_char t" "\<lambda>c. Suc" "\<lambda>c. c \<noteq> t"
  by unfold_locales auto

interpretation colon: quoted_scan "\<lambda>d q e (n, i). find_colon d q e n i" "\<lambda>c (n, i). (n, Suc i)" "\<lambda>c. c \<noteq> 63 \<and> c \<noteq> 58"
  by unfold_locales auto

definition cut_char :: "task_operator \<Rightarrow> jchar" where
  "cut_char oper = (case oper of AndOp \<Rightarrow> 38 | PlusOp \<Rightarrow> 43)"

interpretation cut: quoted_scan "split_task oper" "(#)" "\<lambda>c. c \<noteq> cut_char oper"
  by unfold_locales (auto simp: cut_char_def split: task_operator.splits)

lemma foldl_steps:
  "foldl (\<lambda>i c. Suc i) n s = n + length s"
  "foldl (\<lambda>a c. case a of (m, i) \<Rightarrow> (m, Suc i)) (k, n) s = (k, n + length s)"
  "foldl (\<lambda>a c. c # a) cur s = rev s @ cur"
  by (induction s arbitrary: n cur) auto

lemma find_passes: "passes (\<lambda>c. c \<noteq> t) 0 s \<Longrightarrow> find_char t 0 False False i (s @ r) = find_char t 0 False False (i + length s) r"
  using find.scan_passes [of t 0 s i r] by (simp add: foldl_steps)

lemma colon_passes: "passes (\<lambda>c. c \<noteq> 63 \<and> c \<noteq> 58) 0 s \<Longrightarrow>
    find_colon 0 False False n i (s @ r) = find_colon 0 False False n (i + length s) r"
  using colon.scan_passes [of 0 s "(n, i)" r] by (simp add: foldl_steps)

lemma cut_passes: "passes (\<lambda>c. c \<noteq> cut_char oper) 0 s \<Longrightarrow>
    split_task oper 0 False False cur (s @ r) = split_task oper 0 False False (rev s @ cur) r"
  using cut.scan_passes [of oper 0 s cur r] by (simp add: foldl_steps)

section \<open>Texts that pass\<close>

lemma walk_append: "walk p d q e (a @ b) = Option.bind (walk p d q e a) (\<lambda>(d, q, e). walk p d q e b)"
  by (induction p d q e a rule: walk.induct) auto

lemma passes_append: "passes p d a \<Longrightarrow> passes p d b \<Longrightarrow> passes p d (a @ b)"
  by (simp add: passes_def walk_append)

lemma passes_flat: "list_all (\<lambda>c. c \<notin> {34, 40, 41} \<and> (d \<noteq> 0 \<or> p c)) s \<Longrightarrow> passes p d s"
  unfolding passes_def by (induction s) auto

lemma walk_quoted: "list_all safe_char s \<Longrightarrow> walk p d True False (s @ [34]) = Some (d, False, False)"
  by (induction s) (auto simp: safe_char_def)

lemma passes_quote: "list_all safe_char s \<Longrightarrow> passes p d (json_quote s)"
  by (simp add: passes_def quote_safe walk_quoted)

lemma passes_paren: "0 \<le> d \<Longrightarrow> passes p (d + 1) s \<Longrightarrow> passes p d (40 # s @ [41])"
  by (simp add: passes_def walk_append)

lemma passes_join: "passes p d sep \<Longrightarrow> list_all (passes p d) ts \<Longrightarrow> passes p d (join sep ts)"
proof (induction ts rule: induct_list012)
  case 1
  then show ?case by (simp add: passes_def)
next
  case (3 x y zs)
  then show ?case by (simp add: passes_append)
qed simp

section \<open>Cutting\<close>

lemma js_trim_pad:
  assumes "list_all is_ws a" "list_all is_ws b" "trimmed t" "t \<noteq> []"
  shows "js_trim (a @ t @ b) = t"
proof -
  have "dropWhile is_ws (a @ t @ b) = t @ b"
    using assms by (simp add: dropWhile_append2 list_all_iff) (cases t; simp add: trimmed_def)
  moreover have "dropWhile is_ws (rev b @ rev t) = rev t"
  proof -
    have "dropWhile is_ws (rev b @ rev t) = dropWhile is_ws (rev t)"
      by (rule dropWhile_append2) (use assms(2) in \<open>simp add: list_all_iff\<close>)
    also have "\<dots> = rev t" using assms(3,4) by (cases t rule: rev_cases) (simp_all add: trimmed_def)
    finally show ?thesis .
  qed
  ultimately show ?thesis by (simp add: js_trim_def)
qed

definition cut_text :: "task_operator \<Rightarrow> string" where
  "cut_text oper = (case oper of AndOp \<Rightarrow> '' && '' | PlusOp \<Rightarrow> '' + '')"

lemma cut_step: "split_task oper 0 False False cur (js (cut_text oper) @ s) = rev (32 # cur) # split_task oper 0 False False [32] s"
  by (cases oper) (simp_all add: cut_text_def js_def)

definition piece :: "task_operator \<Rightarrow> jstr \<Rightarrow> bool" where
  "piece oper t \<longleftrightarrow> passes (\<lambda>c. c \<noteq> cut_char oper) 0 t \<and> trimmed t \<and> t \<noteq> []"

lemma cut_pieces:
  assumes "list_all (piece oper) ts" "ts \<noteq> []" "list_all is_ws cur"
  shows "map js_trim (split_task oper 0 False False cur (join (js (cut_text oper)) ts)) = ts"
  using assms
proof (induction ts arbitrary: cur rule: induct_list012)
  case (2 t)
  then have "split_task oper 0 False False cur (t @ []) = [rev cur @ t]"
    using cut_passes [of oper t cur "[]"] by (simp add: piece_def)
  then show ?case using 2 js_trim_pad [of "rev cur" "[]" t] by (simp add: piece_def)
next
  case (3 t u ts)
  have "split_task oper 0 False False cur (join (js (cut_text oper)) (t # u # ts)) =
      (rev cur @ t @ [32]) # split_task oper 0 False False [32] (join (js (cut_text oper)) (u # ts))"
    using 3 cut_passes [of oper t cur] by (simp add: piece_def cut_step)
  moreover have "js_trim (rev cur @ t @ [32]) = t"
    using 3 by (intro js_trim_pad) (auto simp: piece_def is_ws_def [of 32])
  moreover have "list_all is_ws [32]" by (simp add: is_ws_def)
  ultimately show ?case using "3.IH"(2) [of "[32]"] "3.prems" by simp
qed simp

lemma cut_top:
  assumes "list_all (piece oper) ts" "ts \<noteq> []"
  shows "splitTaskTopLevel (join (js (cut_text oper)) ts) oper = ts"
    "splitTaskTopLevel (32 # join (js (cut_text oper)) ts) oper = ts"
proof -
  have f: "filter (\<lambda>p. p \<noteq> []) ts = ts" using assms(1) by (auto simp: list_all_iff piece_def intro!: filter_True)
  have "split_task oper 0 False False [] (32 # s) = split_task oper 0 False False [32] s" for s
    by (cases oper) simp_all
  then show "splitTaskTopLevel (join (js (cut_text oper)) ts) oper = ts"
    "splitTaskTopLevel (32 # join (js (cut_text oper)) ts) oper = ts"
    using cut_pieces [OF assms, of "[]"] cut_pieces [OF assms, of "[32]"]
    by (simp_all add: splitTaskTopLevel_def f is_ws_def [of 32])
qed

end
