(* ===== verification/RuleEditing.thy ===== *)
theory RuleEditing
  imports RuleRoundtrip
begin

text \<open>
  What the visual editor does with a whole billing expression: \<open>combineBillingExpr\<close> puts the request
  rules behind the base expression, \<open>splitBillingExprAndRequestRules\<close> takes them apart again, and
  in some texts it finds no rule.  The last section follows a numeric comparison of a parameter through the builder and the parser.
\<close>

section \<open>Combining and splitting\<close>

fun nested :: "int \<Rightarrow> jstr \<Rightarrow> bool" where
  "nested d [] \<longleftrightarrow> d = 0"
| "nested d (c # s) \<longleftrightarrow> 0 \<le> paren_depth d c \<and> nested (paren_depth d c) s"

lemma paren_depth_shift: "paren_depth (d + 1) c = paren_depth d c + 1"
  by (simp add: paren_depth_def)

lemma nested_quiet: "nested d s \<Longrightarrow> quiet x (d + 1) (s @ [41])"
proof (induction s arbitrary: d)
  case (Cons c s)
  then have "quiet x (paren_depth d c + 1) (s @ [41])" "paren_depth d c + 1 \<noteq> 0" by auto
  then show ?case by (simp only: append_Cons quiet.simps Let_def paren_depth_shift) simp
qed (simp add: paren_depth_def)

lemma nested_full: "nested d s \<Longrightarrow> full_parens (d + 1) (s @ [41])"
proof (induction s arbitrary: d)
  case (Cons c s)
  then have "full_parens (paren_depth d c + 1) (s @ [41])" "paren_depth d c + 1 \<noteq> 0" by auto
  then show ?case by (simp only: append_Cons full_parens.simps Let_def paren_depth_shift) simp
qed (simp add: paren_depth_def)

definition wrapped :: "jstr \<Rightarrow> jstr" where
  "wrapped s = js ''('' @ s @ js '')''"

lemma wrapped_eq: "wrapped s = 40 # s @ [41]"
  by (simp add: wrapped_def js_def)

lemma wrapped_quiet: "nested 0 s \<Longrightarrow> quiet x 0 (wrapped s)"
  using nested_quiet [of 0 s x] by (simp add: wrapped_eq paren_depth_def)

lemma wrapped_split:
  assumes "nested 0 base" "list_all (separable 42) fs"
  shows "splitTopLevelMultiply (join (js '' * '') (wrapped base # fs)) = wrapped base # fs"
proof -
  have sep: "js '' * '' = 32 # 42 # js '' ''" by (simp add: js_def)
  have quiet: "quiet 42 0 p" if "separable 42 p" for p
    using that by (intro quiet_tame) (auto simp: separable_def trimmed_def is_ws_def)
  have "split_top (js '' * '') 0 [] (join (js '' * '') (wrapped base # fs)) = wrapped base # fs"
    by (rule split_join [OF sep]) (use assms quiet wrapped_quiet in \<open>auto simp: list_all_iff\<close>)
  moreover have "js_trim (wrapped base) = wrapped base" by (rule js_trim_id) (simp add: wrapped_eq trimmed_def is_ws_def)
  moreover have "map js_trim fs = fs" "filter (\<lambda>p. p \<noteq> []) fs = fs"
    using assms(2) by (auto simp: list_all_iff separable_def intro!: map_idI filter_True js_trim_id)
  ultimately show ?thesis by (simp add: splitTopLevelMultiply_def split_parts_def wrapped_eq)
qed

lemma unwrap_wrapped:
  assumes "nested 0 base" "js_trim base = base" "\<not> hasFullOuterParens base"
  shows "unwrapOuterParens (wrapped base) = base"
proof -
  have "hasFullOuterParens (wrapped base)"
    using nested_full [OF assms(1)] by (simp add: hasFullOuterParens_def wrapped_eq paren_depth_def)
  moreover have "butlast (tl (wrapped base)) = base" by (simp add: wrapped_eq)
  moreover have "js_trim (wrapped base) = wrapped base" by (rule js_trim_id) (simp add: wrapped_eq trimmed_def is_ws_def)
  ultimately show ?thesis using assms(2,3)
    by (simp add: unwrapOuterParens_def unwrap_loop.simps [of "wrapped base"] unwrap_loop.simps [of base])
qed

lemma sort_rules:
  assumes "list_all group_ok gs"
  shows "sort_parts (map buildRuleGroupFactor gs) = Got (map buildRuleGroupFactor gs, [])"
  using assms
proof (induction gs)
  case (Cons g gs)
  have f: "buildRuleGroupFactor g \<noteq> []" using Cons.prems factor_separable(1) [of g] by (simp add: separable_def)
  have "tryParseRequestRuleExpr (buildRuleGroupFactor g) = Got [g]"
    using built_rules_parse [of "[g]"] Cons.prems f by (simp add: buildRequestRuleExpr_def)
  then show ?case using Cons by simp
qed simp

lemma built_trimmed:
  assumes "list_all group_ok gs" "gs \<noteq> []"
  shows "buildRequestRuleExpr gs \<noteq> []" "\<not> is_ws (last (buildRequestRuleExpr gs))"
proof -
  have b: "js_trim (buildRequestRuleExpr gs) = buildRequestRuleExpr gs \<and> buildRequestRuleExpr gs \<noteq> []"
    by (rule build_rules(4) [OF assms])
  then show "buildRequestRuleExpr gs \<noteq> []" by simp
  have "trimmed (buildRequestRuleExpr gs)" using trimmed_js_trim [of "buildRequestRuleExpr gs"] b by simp
  then show "\<not> is_ws (last (buildRequestRuleExpr gs))" using b by (simp add: trimmed_def)
qed

lemma split_combined:
  assumes "nested 0 base" "base \<noteq> []" "js_trim base = base" "\<not> hasFullOuterParens base"
    and "rule_factor (js ''('' @ base @ js '')'') = None" and "gs \<noteq> []" "list_all group_ok gs"
  shows "splitBillingExprAndRequestRules (combineBillingExpr base (buildRequestRuleExpr gs)) =
    Got \<lparr>billingExpr = base, requestRuleExpr = buildRequestRuleExpr gs\<rparr>"
proof -
  let ?fs = "map buildRuleGroupFactor gs"
  have fs: "list_all (separable 42) ?fs" using assms(7) factor_separable(1) by (auto simp: list_all_iff)
  have rules: "buildRequestRuleExpr gs = join (js '' * '') ?fs" by (rule build_rules(1) [OF assms(7)])
  have c: "combineBillingExpr base (buildRequestRuleExpr gs) = join (js '' * '') (wrapped base # ?fs)"
    using build_rules(4) [OF assms(7,6)] assms(2,3,6) rules
    by (cases gs) (simp_all add: combineBillingExpr_def Let_def wrapped_def js_def)
  have trim: "js_trim (wrapped base @ js '' * '' @ buildRequestRuleExpr gs) = wrapped base @ js '' * '' @ buildRequestRuleExpr gs"
    using built_trimmed [OF assms(7,6)] by (intro js_trim_id) (simp add: wrapped_eq trimmed_def is_ws_def)
  have whole: "join (js '' * '') (wrapped base # ?fs) = wrapped base @ js '' * '' @ buildRequestRuleExpr gs"
    using assms(6) rules by (cases gs) simp_all
  have "tryParseRuleGroupFactor (wrapped base) = NoMatch"
    using assms(5) by (simp add: tryParseRuleGroupFactor_def wrapped_def)
  then have "tryParseRequestRuleExpr (wrapped base) = NoMatch"
    using wrapped_split [OF assms(1), of "[]"] js_trim_id [of "wrapped base"]
    by (simp add: tryParseRequestRuleExpr_def Let_def) (simp add: wrapped_eq trimmed_def is_ws_def)
  then have "sort_parts (wrapped base # ?fs) = Got (?fs, [wrapped base])" using sort_rules [OF assms(7)] by simp
  then show ?thesis
    using c whole trim wrapped_split [OF assms(1) fs] unwrap_wrapped [OF assms(1,3,4)] assms(6) rules
    by (simp add: splitBillingExprAndRequestRules_def Let_def) (simp add: wrapped_eq)
qed

text \<open>
  C13: Splitting undoes combining.  A balanced base expression that is trimmed, has no outer
  parentheses of its own and does not itself read as a rule, combined with the expression of one or
  more groups the editor can carry, is split into exactly that base and that rule expression.  (Groups
  with a comparison or a containment of a parameter are not among them.)
\<close>

theorem split_undoes_combine:
  assumes "nested 0 base" "base \<noteq> []" "js_trim base = base" "\<not> hasFullOuterParens base"
    and "rule_factor (js ''('' @ base @ js '')'') = None" and "gs \<noteq> []" "list_all group_ok gs"
  shows "splitBillingExprAndRequestRules (combineBillingExpr base (buildRequestRuleExpr gs)) =
    Got \<lparr>billingExpr = base, requestRuleExpr = buildRequestRuleExpr gs\<rparr>"
  by (rule split_combined [OF assms])

theorem split_undoes_combine_witness:
  "splitBillingExprAndRequestRules (js ''(tier(\"base\", p * 2 + c * 10)) * (header(\"x-mode\") == \"fast\" ? 1.5 : 1)'') =
    Got \<lparr>billingExpr = js ''tier(\"base\", p * 2 + c * 10)'', requestRuleExpr = js ''(header(\"x-mode\") == \"fast\" ? 1.5 : 1)''\<rparr>"
proof -
  let ?base = "js ''tier(\"base\", p * 2 + c * 10)''"
  let ?gs = "[\<lparr>conditions = [ParamCond \<lparr>ph_source = Header, ph_path = js ''x-mode'', ph_mode = MATCH_EQ, ph_value = js ''fast''\<rparr>],
    multiplier = js ''1.5''\<rparr>]"
  have "nested 0 ?base \<and> ?base \<noteq> [] \<and> js_trim ?base = ?base \<and> \<not> hasFullOuterParens ?base" by code_simp
  moreover have "rule_factor (js ''('' @ ?base @ js '')'') = None" by code_simp
  moreover have "list_all group_ok ?gs" by code_simp
  moreover have "buildRequestRuleExpr ?gs = js ''(header(\"x-mode\") == \"fast\" ? 1.5 : 1)''" by code_simp
  moreover have "combineBillingExpr ?base (js ''(header(\"x-mode\") == \"fast\" ? 1.5 : 1)'') =
      js ''(tier(\"base\", p * 2 + c * 10)) * (header(\"x-mode\") == \"fast\" ? 1.5 : 1)''" by code_simp
  ultimately show ?thesis using split_undoes_combine [of ?base ?gs] by simp
qed

section \<open>Texts that hold no rule\<close>

text \<open>No opening parenthesis stands at the front or behind a blank, where that of a rule stands.\<close>

definition bare :: "jstr \<Rightarrow> bool" where
  "bare s \<longleftrightarrow> (\<forall>u v. s = u @ 40 # v \<longrightarrow> u \<noteq> [] \<and> \<not> is_ws (last u))"

lemma bare_prefix: "bare (s @ t) \<Longrightarrow> bare s"
  unfolding bare_def by (metis append.assoc append_Cons)

lemma bare_suffix:
  assumes "bare (s @ t)" "s = [] \<or> is_ws (last s)"
  shows "bare t"
  unfolding bare_def
proof (intro allI impI)
  fix u v
  assume "t = u @ 40 # v"
  then have "s @ t = (s @ u) @ 40 # v" by simp
  then have "s @ u \<noteq> [] \<and> \<not> is_ws (last (s @ u))" using assms(1) unfolding bare_def by blast
  then show "u \<noteq> [] \<and> \<not> is_ws (last u)" using assms(2) by (cases "u = []") auto
qed

lemma bare_append:
  assumes "bare s" "bare t"
  shows "bare (s @ t)"
  unfolding bare_def
proof (intro allI impI)
  fix u v
  assume "s @ t = u @ 40 # v"
  then consider w where "s = u @ 40 # w" | w where "u = s @ w" "t = w @ 40 # v"
    by (auto simp: append_eq_append_conv2 append_eq_Cons_conv)
  then show "u \<noteq> [] \<and> \<not> is_ws (last u)" using assms by cases (auto simp: bare_def)
qed

lemma bare_trim: "bare s \<Longrightarrow> bare (js_trim s)"
proof -
  assume s: "bare s"
  have "takeWhile is_ws s = [] \<or> is_ws (last (takeWhile is_ws s))" by (metis last_in_set set_takeWhileD)
  then have d: "bare (dropWhile is_ws s)" using s bare_suffix [of "takeWhile is_ws s" "dropWhile is_ws s"] by simp
  have "dropWhile is_ws s = js_trim s @ rev (takeWhile is_ws (rev (dropWhile is_ws s)))"
    unfolding js_trim_def by (metis rev_append rev_rev_ident takeWhile_dropWhile_id)
  then show "bare (js_trim s)" using d bare_prefix by metis
qed

lemma bare_split: "bare (rev cur @ s) \<Longrightarrow> p \<in> set (split_top (js '' * '') d cur s) \<Longrightarrow> bare p"
proof (induction "js '' * ''" d cur s rule: split_top.induct)
  case (2 d cur c s)
  show ?case
  proof (cases "paren_depth d c = 0 \<and> starts_with (js '' * '') (c # s)")
    case True
    then obtain t where t: "c # s = js '' * '' @ t" by (auto simp: starts_with_iff)
    then have "drop (length (js '' * '') - 1) s = t" by (auto simp: js_def)
    moreover have "bare t" using 2(3) bare_suffix [of "rev cur @ js '' * ''" t] unfolding t by (simp add: js_def is_ws_def)
    ultimately show ?thesis using 2(1,3,4) True bare_prefix by (auto simp: Let_def)
  next
    case False
    then show ?thesis using 2(2-4) by (auto simp: Let_def)
  qed
qed simp

lemma bare_parts: "bare s \<Longrightarrow> p \<in> set (splitTopLevelMultiply s) \<Longrightarrow> bare p \<and> p \<noteq> []"
  using bare_split [of "[]" s] bare_trim by (auto simp: splitTopLevelMultiply_def split_parts_def)

lemma bare_no_factor: "bare p \<Longrightarrow> tryParseRuleGroupFactor p = NoMatch"
proof -
  assume "bare p"
  then have "rule_factor p = None" by (cases p) (auto simp: bare_def rule_factor_def lit_def js_def starts_with_def)
  then show ?thesis by (simp add: tryParseRuleGroupFactor_def)
qed

lemma bare_no_rules: "bare p \<Longrightarrow> tryParseRequestRuleExpr p \<in> {NoMatch, Got []}"
  using bare_parts [OF bare_trim, of p] bare_no_factor
  by (cases "splitTopLevelMultiply (js_trim p)") (auto simp: tryParseRequestRuleExpr_def Let_def)

lemma bare_sorted: "\<forall>p \<in> set ps. bare p \<Longrightarrow> sort_parts ps = Got ([], ps)"
proof (induction ps)
  case (Cons p ps)
  then show ?case using bare_no_rules [of p] by auto
qed simp

lemma split_bare:
  assumes "bare s" "js_trim s = s"
  shows "splitBillingExprAndRequestRules s = Got \<lparr>billingExpr = s, requestRuleExpr = []\<rparr>"
  using bare_sorted [of "splitTopLevelMultiply s"] bare_parts [OF assms(1)] assms(2)
  by (simp add: splitBillingExprAndRequestRules_def Let_def)

section \<open>Comparisons of a parameter\<close>

definition cmp_text :: "jstr \<Rightarrow> string" where
  "cmp_text mode = (if mode = MATCH_GT then '' > '' else if mode = MATCH_GTE then '' >= ''
     else if mode = MATCH_LT then '' < '' else '' <= '')"

definition cmp_condition :: "jstr \<Rightarrow> jstr \<Rightarrow> jstr \<Rightarrow> param_condition" where
  "cmp_condition path mode v = \<lparr>ph_source = Param, ph_path = path, ph_mode = mode, ph_value = v\<rparr>"

definition cmp_parts :: "jstr \<Rightarrow> jstr \<Rightarrow> jstr \<Rightarrow> jstr list" where
  "cmp_parts path mode v = [call_text ''param'' path @ js '' != nil'', call_text ''param'' path @ js (cmp_text mode) @ v]"

definition cmp_ok :: "jstr \<Rightarrow> jstr \<Rightarrow> jstr \<Rightarrow> bool" where
  "cmp_ok path mode v \<longleftrightarrow> safe_text path \<and> path \<noteq> [] \<and> mode \<in> {MATCH_GT, MATCH_GTE, MATCH_LT, MATCH_LTE} \<and> numeric_literal v"

lemma cmp_build:
  assumes "cmp_ok path mode v"
  shows "buildRequestConditionExpr (ParamCond (cmp_condition path mode v)) = join (js '' && '') (cmp_parts path mode v)"
proof -
  have modes: "mode \<noteq> MATCH_EXISTS" "mode \<noteq> MATCH_CONTAINS" "mode \<in> {MATCH_GT, MATCH_GTE, MATCH_LT, MATCH_LTE}"
    using assms by (auto simp: cmp_ok_def MATCH_EXISTS_def MATCH_CONTAINS_def MATCH_GT_def MATCH_GTE_def MATCH_LT_def MATCH_LTE_def js_inject)
  have ok: "safe_text path" "path \<noteq> []" "numeric_literal v" using assms by (auto simp: cmp_ok_def)
  have "normalizeCondition (condition_value (ParamCond (cmp_condition path mode v))) = ParamCond (cmp_condition path mode v)"
    using modes ok(2) by (auto simp: normalizeCondition_def js_inject or_text_def allowed_mode_def getRequestRuleMatchOptions_def
        text_field_def nullish_def cmp_condition_def)
  then show ?thesis using modes ok numeric_trim [OF ok(3)]
    by (simp add: buildRequestConditionExpr_def build_param_def cmp_condition_def cmp_parts_def cmp_text_def safe_text_def
        del: condition_value.simps) (simp add: js_def Let_def)
qed

lemma cmp_tame:
  assumes "cmp_ok path mode v"
  shows "list_all tame (cmp_parts path mode v)"
proof -
  have s: "source_name Param = ''param''" by (simp add: source_name_def)
  have p: "list_all safe_char path" and n: "num_ok v"
    using assms numeric_chars [of v] by (auto simp: cmp_ok_def safe_text_def num_ok_def)
  have "clean (js (cmp_text mode))" by (simp add: cmp_text_def clean_def js_def)
  then have "clean (call_text ''param'' path @ js '' != nil'')" "clean (call_text ''param'' path @ js (cmp_text mode) @ v)"
    using call_clean [OF names_clean(2) [of Param] p] num_clean [OF n] literals_clean by (auto simp: s intro!: clean_append)
  then show ?thesis using call_head(2) [of Param path] num_last [OF n]
    by (simp add: cmp_parts_def tame_def clean_def trimmed_def s) (simp add: js_def is_ws_def)
qed

lemma cmp_not_read:
  assumes "cmp_ok path mode v"
  shows "tryParseRequestCondition (call_text ''param'' path @ js (cmp_text mode) @ v) = NoMatch"
proof -
  let ?s = "call_text ''param'' path @ js (cmp_text mode) @ v"
  have p: "list_all safe_char path" "path \<noteq> []" using assms by (auto simp: cmp_ok_def safe_text_def)
  have s: "source_name Param = ''param''" by (simp add: source_name_def)
  have lits: "lit '' != nil && '' (js (cmp_text mode) @ v) = None" "lit '' == '' (js (cmp_text mode) @ v) = None"
    "js (cmp_text mode) @ v \<noteq> js '' != nil''" by (auto simp: cmp_text_def lit_eval)
  have call: "call_of ''param'' ?s = Some (path, js (cmp_text mode) @ v)" by (rule call_of_text [OF p])
  have "tryParseTimeCondition ?s = None" using no_time(1) [of Param] by (simp add: s)
  moreover have "has_call ''header'' ?s = None" using has_call_other [of _ Param] by (simp add: s)
  moreover have "nil_guard ?s = None" by (simp add: nil_guard_def call lits)
  moreover have "equality ?s = None" by (simp add: equality_def call lits)
  ultimately show ?thesis using call_of_other(1) call lits
    by (simp add: tryParseRequestCondition_def exists_call_def guarded_has_def guarded_comparison_def)
qed

lemma cmp_conditions_not_read:
  assumes "cmp_ok path mode v"
  shows "tryParseRequestConditions (join (js '' && '') (cmp_parts path mode v)) = NoMatch"
    "separable 42 (join (js '' && '') (cmp_parts path mode v))"
proof -
  let ?ps = "cmp_parts path mode v" and ?t = "join (js '' && '') (cmp_parts path mode v)"
  let ?x = "\<lparr>ph_source = Param, ph_path = path, ph_mode = MATCH_EXISTS, ph_value = []\<rparr>"
  have s: "source_name Param = ''param''" by (simp add: source_name_def)
  have tame: "list_all tame ?ps" "?ps \<noteq> []" using cmp_tame [OF assms] by (simp_all add: cmp_parts_def)
  have "list_all (separable 42) ?ps" using tame(1) by (auto simp: list_all_iff tame_def separable_def)
  then show sep: "separable 42 ?t" by (rule join_separable [OF _ tame(2)]) (simp_all add: js_def)
  have "js '' && '' = 32 # 38 # js ''& ''" by (simp add: js_def)
  then have split: "splitTopLevelAnd ?t = ?ps"
    using split_parts_join [of "'' && ''"] tame tame_separable by (simp add: splitTopLevelAnd_def)
  have time: "tryParseTimeCondition (call_text ''param'' path @ r) = None" for r using no_time(1) [of Param] by (simp add: s)
  have "param_ok ?x" using assms by (simp add: param_ok_def cmp_ok_def) (simp add: safe_text_def)
  then have "tryParseRequestCondition (hd ?ps) = Got (ParamCond ?x)"
    using parse_param [of ?x] by (simp add: param_text_def s cmp_parts_def)
  moreover have "map js_trim ?ps = ?ps" using tame(1) tame_trim by (auto simp: list_all_iff intro!: map_idI)
  ultimately have "parse_parts ?ps = NoMatch" using cmp_not_read [OF assms]
    by (simp add: cmp_parts_def tryParseTimeRangePair_def time) (simp add: call_text_def js_def)
  moreover have "tryParseTimeCondition ?t = None" using time by (simp add: cmp_parts_def)
  ultimately show "tryParseRequestConditions ?t = NoMatch"
    using split separable_trim [OF sep] by (simp add: tryParseRequestConditions_def)
qed

text \<open>
  C39: A numeric comparison does not survive the editor.  A group whose one condition compares a
  parameter with a number has an expression, and the parser returns no match for it: the expression is
  split at \<open>&&\<close> before the guarded pattern is tried, and neither half of
  \<open>param("x") != nil && param("x") > 5\<close> beyond the first is a condition of its own.
\<close>

theorem comparison_not_read_back:
  assumes "cmp_ok path mode v" "numeric_literal m"
  shows "let built = buildRequestRuleExpr [\<lparr>conditions = [ParamCond (cmp_condition path mode v)], multiplier = m\<rparr>]
    in built \<noteq> [] \<and> tryParseRequestRuleExpr built = NoMatch"
proof -
  let ?t = "join (js '' && '') (cmp_parts path mode v)"
  let ?e = "buildRequestRuleExpr [\<lparr>conditions = [ParamCond (cmp_condition path mode v)], multiplier = m\<rparr>]"
  note cs = cmp_conditions_not_read [OF assms(1)]
  have t: "?t \<noteq> []" using cs(2) by (simp add: separable_def)
  have m: "num_ok m" "js_trim m = m" using numeric_chars [OF assms(2)] numeric_trim [OF assms(2)] by (simp_all add: num_ok_def)
  have ne: "factor_text ?t m \<noteq> []" by (simp add: factor_text_def js_def)
  have "buildRuleGroupFactor \<lparr>conditions = [ParamCond (cmp_condition path mode v)], multiplier = m\<rparr> = factor_text ?t m"
    using cmp_build [OF assms(1)] t assms(2) m(2) by (simp add: buildRuleGroupFactor_def Let_def factor_text_def)
  then have e: "?e = factor_text ?t m" using ne by (simp add: buildRequestRuleExpr_def)
  have "separable 42 (factor_text ?t m)"
    using cs(2) num_clean [OF m(1)] unfolding factor_text_def
    by (simp add: separable_def clean_def trimmed_def js_def is_ws_def)
  then have "splitTopLevelMultiply (factor_text ?t m) = [factor_text ?t m]" "js_trim (factor_text ?t m) = factor_text ?t m"
    using split_parts_join [of "'' * ''" 42 "js '' ''" "[factor_text ?t m]"]
    by (simp_all add: splitTopLevelMultiply_def separable_trim) (simp add: js_def)
  then have "tryParseRequestRuleExpr (factor_text ?t m) = NoMatch"
    using rule_factor_text [OF t m(1)] cs(1) ne
    by (simp add: tryParseRequestRuleExpr_def tryParseRuleGroupFactor_def Let_def)
  then show ?thesis using ne by (simp add: e Let_def)
qed

theorem comparison_not_read_back_witness:
  "tryParseRequestRuleExpr (js ''(param(\"max_tokens\") != nil && param(\"max_tokens\") > 1000 ? 2 : 1)'') = NoMatch"
proof -
  have "cmp_ok (js ''max_tokens'') MATCH_GT (js ''1000'')" "numeric_literal (js ''2'')" by code_simp+
  moreover have "buildRequestRuleExpr [\<lparr>conditions = [ParamCond (cmp_condition (js ''max_tokens'') MATCH_GT (js ''1000''))],
      multiplier = js ''2''\<rparr>] = js ''(param(\"max_tokens\") != nil && param(\"max_tokens\") > 1000 ? 2 : 1)''" by code_simp
  ultimately show ?thesis
    using comparison_not_read_back [of "js ''max_tokens''" MATCH_GT "js ''1000''" "js ''2''"] by (simp add: Let_def)
qed

end
