(* ===== verification/TaskRoundtrip.thy ===== *)
theory TaskRoundtrip
  imports TaskScanning RuleEditing
begin

text \<open>
  Task expressions written by \<open>generateTaskExprFromConfig\<close> are read back by \<open>parseTaskTiersFromExpr\<close>:
  first the terms of a tier, then a tier, then the chain, then the whole expression with its version
  and its request rules.
\<close>

section \<open>Usable configurations\<close>

text \<open>
  A price that is printed as a numeral and read back, which \<open>String\<close> and \<open>Number\<close> promise for every
  finite number; from \<open>1e21\<close> on the numeral has a \<open>+\<close>.
\<close>

definition price_ok :: "jsnum \<Rightarrow> bool" where
  "price_ok x \<longleftrightarrow> \<not> bad_price x \<and> numeric_literal (String x) \<and> 43 \<notin> set (String x) \<and> Number (String x) = x"

text \<open>Names and values the editor can carry.\<close>

definition name_ok :: "jstr \<Rightarrow> bool" where
  "name_ok f \<longleftrightarrow> list_all safe_char f \<and> f \<notin> set object_members"

definition priced_field :: "usage_schema \<Rightarrow> jstr \<times> usage_field \<Rightarrow> bool" where
  "priced_field schema entry \<longleftrightarrow> name_ok (fst entry) \<and> map_of schema (fst entry) = Some (snd entry) \<and>
     field_type (snd entry) = Some NumberType \<and> field_unit (snd entry) \<noteq> None"

definition condition_ok :: "usage_schema \<Rightarrow> task_condition \<Rightarrow> bool" where
  "condition_ok schema c \<longleftrightarrow> list_all safe_char (tc_field c) \<and> list_all safe_char (tc_value c) \<and>
     (case map_of schema (tc_field c) of Some d \<Rightarrow> tc_value c \<in> set (enum_values d) | None \<Rightarrow> False)"

definition tier_ok :: "usage_schema \<Rightarrow> usage_schema \<Rightarrow> task_tier \<Rightarrow> bool" where
  "tier_ok schema nfs t \<longleftrightarrow> list_all safe_char (tier_label t) \<and> list_all (condition_ok schema) (tier_conditions t) \<and>
     price_ok (tier_constant t) \<and> list_all (\<lambda>entry. price_ok (price_or_zero (tier_prices t) (fst entry))) nfs"

section \<open>Terms\<close>

lemma skip_space_id: "s = [] \<or> \<not> is_ws (hd s) \<Longrightarrow> skip_space s = s"
  by (cases s) (auto simp: skip_space_def)

lemma ws_chars: "is_ws 32" "\<not> is_ws 34" "\<not> is_ws 41" "\<not> is_ws 42" "\<not> is_ws 43" "\<not> is_ws 47" "\<not> is_ws 49" "\<not> is_ws 61" "\<not> is_ws 117" "\<not> is_ws 116"
  by (simp_all add: is_ws_def)

lemma usage_call_text:
  assumes "list_all safe_char f"
  shows "usage_call (usage_text f @ r) = Some (json_quote f, skip_space r)"
proof -
  have "lit ''u('' (usage_text f @ r) = Some (json_quote f @ 41 # r)" by (simp add: usage_text_def lit_eval)
  moreover have "skip_space (json_quote f @ 41 # r) = json_quote f @ 41 # r"
    by (rule skip_space_id) (simp add: quote_safe [OF assms] ws_chars)
  moreover have "lit '')'' (skip_space (41 # r)) = Some r" by (simp add: skip_space_id ws_chars lit_eval)
  ultimately show ?thesis using string_literal_quote [OF assms, of "41 # r"] by (simp add: usage_call_def)
qed

lemma parse_literal_quote: "list_all safe_char f \<Longrightarrow> parse_literal (json_quote f) = Some f"
  by (simp add: parse_literal_def parse_quote)

definition equality_text :: "task_condition \<Rightarrow> jstr" where
  "equality_text c = usage_text (tc_field c) @ js '' == '' @ json_quote (tc_value c)"

lemma task_equality_text:
  assumes "list_all safe_char (tc_field c)" "list_all safe_char (tc_value c)"
  shows "task_equality (equality_text c) = Some (json_quote (tc_field c), json_quote (tc_value c))"
proof -
  have "skip_space (js '' == '' @ json_quote (tc_value c)) = js ''== '' @ json_quote (tc_value c)"
    by (simp add: skip_space_def js_def ws_chars)
  moreover have "lit ''=='' (js ''== '' @ json_quote (tc_value c)) = Some (32 # json_quote (tc_value c))" by (simp add: lit_eval)
  moreover have "skip_space (32 # json_quote (tc_value c)) = json_quote (tc_value c)"
    by (simp add: skip_space_def ws_chars quote_safe [OF assms(2)])
  ultimately show ?thesis using string_literal_quote [OF assms(2), of "[]"]
    by (simp add: task_equality_def equality_text_def usage_call_text [OF assms(1)])
qed

lemma task_conditions_text:
  "list_all (condition_ok schema) cs \<Longrightarrow> task_conditions schema (map equality_text cs) = Some cs"
proof (induction cs)
  case (Cons c cs)
  then obtain d where d: "map_of schema (tc_field c) = Some d" "tc_value c \<in> set (enum_values d)"
    and s: "list_all safe_char (tc_field c)" "list_all safe_char (tc_value c)"
    by (auto simp: condition_ok_def split: option.splits)
  then obtain vs where "field_enum d = Some vs" "tc_value c \<in> set vs" by (cases "field_enum d") (simp_all add: enum_values_def)
  then show ?case using Cons d by (simp add: task_equality_text [OF s] parse_literal_quote [OF s(1)] parse_literal_quote [OF s(2)])
qed simp

lemma usage_passes: "list_all safe_char f \<Longrightarrow> d \<noteq> 0 \<or> p 117 \<Longrightarrow> 0 \<le> d \<Longrightarrow> passes p d (usage_text f)"
proof -
  assume f: "list_all safe_char f" and p: "d \<noteq> 0 \<or> p 117" "0 \<le> d"
  have "passes p d [117]" by (rule passes_flat) (use p in simp)
  moreover have "passes p d (40 # json_quote f @ [41])" by (rule passes_paren [OF p(2) passes_quote [OF f]])
  ultimately have "passes p d ([117] @ 40 # json_quote f @ [41])" by (rule passes_append)
  moreover have "usage_text f = [117] @ 40 # json_quote f @ [41]" by (simp add: usage_text_def js_def)
  ultimately show ?thesis by simp
qed

lemma equality_passes:
  assumes "list_all safe_char (tc_field c)" "list_all safe_char (tc_value c)" "p 117" "p 32" "p 61"
  shows "passes p 0 (equality_text c)"
proof -
  have "passes p 0 (js '' == '')" by (rule passes_flat) (use assms in \<open>simp add: js_def\<close>)
  then show ?thesis using assms unfolding equality_text_def by (intro passes_append usage_passes passes_quote) simp_all
qed

lemma equality_edges: "list_all safe_char (tc_value c) \<Longrightarrow> trimmed (equality_text c) \<and> equality_text c \<noteq> []"
  by (simp add: equality_text_def usage_text_def js_def trimmed_def quote_safe ws_chars)

lemma condition_pieces: "list_all (condition_ok schema) cs \<Longrightarrow> list_all (piece AndOp) (map equality_text cs)"
  by (induction cs) (auto simp: condition_ok_def piece_def cut_char_def equality_edges intro!: equality_passes)

lemma generateTaskCondition_eq: "generateTaskCondition cs = join (js '' && '') (map equality_text cs)"
  by (simp add: generateTaskCondition_def equality_text_def [abs_def])

lemma conditions_read:
  assumes "list_all (condition_ok schema) cs" "cs \<noteq> []"
  shows "parseTaskConditions (generateTaskCondition cs) schema = Some cs"
proof -
  have "splitTaskTopLevel (generateTaskCondition cs) AndOp = map equality_text cs"
    using cut_top(1) [OF condition_pieces [OF assms(1)]] assms(2) by (simp add: generateTaskCondition_eq cut_text_def)
  then show ?thesis using task_conditions_text [OF assms(1)] assms(2)
    by (cases cs) (simp_all add: parseTaskConditions_def)
qed

section \<open>Prices\<close>

lemma price_ok_num: "price_ok x \<Longrightarrow> num_ok (String x)"
  by (simp add: price_ok_def num_ok_def numeric_chars)

lemma scale_text: "String TASK_TOKEN_PRICE_SCALE = js ''1000000''"
  by (simp add: TASK_TOKEN_PRICE_SCALE_def) code_simp

lemma price_term_text:
  assumes "name_ok (fst entry)" "price_ok (price_or_zero prices (fst entry))"
  shows "price_term (price_text prices entry) =
    Some (json_quote (fst entry), String (price_or_zero prices (fst entry)), field_unit (snd entry) = Some Token)"
proof -
  let ?x = "String (price_or_zero prices (fst entry))"
  have f: "list_all safe_char (fst entry)" using assms(1) by (simp add: name_ok_def)
  have n: "num_ok ?x" "numeric_literal ?x" using assms(2) by (simp_all add: price_ok_num price_ok_def)
  have star: "skip_space (js '' * '' @ s) = js ''* '' @ s" for s by (simp add: skip_space_def js_def ws_chars)
  have lits: "lit ''*'' (js ''* '' @ s) = Some (32 # s)" for s by (simp add: lit_eval)
  have hd: "?x \<noteq> []" "\<not> is_ws (hd ?x)" using n(1) num_char_ws by (auto simp: num_ok_def list_all_iff)
  have sp: "skip_space (32 # ?x @ s) = ?x @ s" for s using hd by (cases ?x) (simp_all add: skip_space_def ws_chars)
  have run: "run1 is_num_char (?x @ s) = Some (?x, s)" if "num_end s" for s by (rule run1_num [OF n(1) that])
  have e: "num_end []" "num_end (js '' / '' @ s)" for s by (simp_all add: js_def)
  have tail: "skip_space (js '' / '' @ js ''1000000'') = js ''/ '' @ js ''1000000''" "lit ''/'' (js ''/ '' @ js ''1000000'') = Some (32 # js ''1000000'')"
    "skip_space (32 # js ''1000000'') = js ''1000000''" "js '' / '' @ js ''1000000'' \<noteq> []"
    by (simp_all add: skip_space_def js_def ws_chars lit_rec)
  show ?thesis
  proof (cases "field_unit (snd entry) = Some Token")
    case True
    then show ?thesis using sp [of "js '' / '' @ js ''1000000''"] run [OF e(2), of "js ''1000000''"] n(2) tail
      by (simp add: price_text_def price_term_def usage_call_text [OF f] star lits scale_text Let_def)
  next
    case False
    then show ?thesis using sp [of "[]"] run [OF e(1)] n(2)
      by (simp add: price_text_def price_term_def usage_call_text [OF f] star lits Let_def)
  qed
qed

lemma num_text_flat: "num_ok s \<Longrightarrow> 43 \<notin> set s \<Longrightarrow> passes (\<lambda>c. c \<noteq> 43) 0 s"
  by (rule passes_flat) (auto simp: num_ok_def list_all_iff is_num_char_def is_digit_def)

lemma num_text_inside: "num_ok s \<Longrightarrow> passes p 1 s"
  by (rule passes_flat) (auto simp: num_ok_def list_all_iff is_num_char_def is_digit_def)

lemma flat_literals:
  "passes p 1 (js '' * '')" "passes p 1 (js '' / 1000000'')" "passes p 1 (js '' + '')" "passes p 1 (js '', '')"
  "passes (\<lambda>c. c \<noteq> 43) 0 (js '' * '')" "passes (\<lambda>c. c \<noteq> 43) 0 (js '' / 1000000'')"
  by (rule passes_flat; simp add: js_def)+

lemma price_text_eq: "price_text prices entry = usage_text (fst entry) @ js '' * '' @ String (price_or_zero prices (fst entry)) @
    (if field_unit (snd entry) = Some Token then js '' / 1000000'' else [])"
  by (simp add: price_text_def Let_def scale_text) (simp add: js_def)

lemma price_pieces:
  assumes "name_ok (fst entry)" "price_ok (price_or_zero prices (fst entry))"
  shows "piece PlusOp (price_text prices entry)" "passes p 1 (price_text prices entry)"
proof -
  let ?x = "String (price_or_zero prices (fst entry))"
  have f: "list_all safe_char (fst entry)" using assms(1) by (simp add: name_ok_def)
  have n: "num_ok ?x" "43 \<notin> set ?x" using assms(2) by (simp_all add: price_ok_num price_ok_def)
  have empty: "passes p d []" for p d by (simp add: passes_def)
  show "passes p 1 (price_text prices entry)"
    unfolding price_text_eq using usage_passes [OF f, of 1 p] num_text_inside [OF n(1)] flat_literals empty
    by (intro passes_append) auto
  have "passes (\<lambda>c. c \<noteq> 43) 0 (price_text prices entry)"
    unfolding price_text_eq using usage_passes [OF f, of 0 "\<lambda>c. c \<noteq> 43"] num_text_flat [OF n] flat_literals empty
    by (intro passes_append) auto
  moreover have "trimmed (price_text prices entry)"
    unfolding price_text_eq using num_last [OF n(1)]
    by (auto simp: trimmed_def usage_text_def js_def ws_chars) (simp add: is_ws_def)
  moreover have "price_text prices entry \<noteq> []" by (simp add: price_text_eq usage_text_def js_def)
  ultimately show "piece PlusOp (price_text prices entry)" by (simp add: piece_def cut_char_def)
qed

lemma not_numeric: "\<not> numeric_literal (price_text prices entry)"
proof
  assume "numeric_literal (price_text prices entry)"
  then have "list_all is_num_char (price_text prices entry)" by (rule numeric_chars)
  then show False by (simp add: price_text_eq usage_text_def js_def is_num_char_def is_digit_def)
qed

declare keys_obj_put [simp]

lemma price_terms_read:
  assumes "list_all (priced_field schema) nfs" "distinct (map fst nfs)"
    "list_all (\<lambda>entry. price_ok (price_or_zero prices (fst entry))) nfs" "fst ` set (sum_prices acc) \<inter> fst ` set nfs = {}"
  shows "tier_terms schema acc (map (price_text prices) nfs) =
    Some (acc\<lparr>sum_prices := foldl (\<lambda>ps p. obj_put (fst p) (price_or_zero prices (fst p)) ps) (sum_prices acc) nfs\<rparr>)"
  using assms
proof (induction nfs arbitrary: acc)
  case (Cons entry nfs)
  let ?f = "fst entry" and ?x = "price_or_zero prices (fst entry)"
  have ok: "name_ok ?f" "price_ok ?x" "map_of schema ?f = Some (snd entry)" "field_type (snd entry) = Some NumberType"
    using Cons.prems by (auto simp: priced_field_def)
  obtain u where u: "field_unit (snd entry) = Some u" using Cons.prems(1) by (auto simp: priced_field_def)
  have x: "Number (String ?x) = ?x" "\<not> bad_price ?x" using ok(2) by (auto simp: price_ok_def)
  have "list_all safe_char ?f" "?f \<notin> set object_members" using ok(1) by (auto simp: name_ok_def)
  then have "tier_term schema acc (price_text prices entry) = Some (acc\<lparr>sum_prices := obj_put ?f ?x (sum_prices acc)\<rparr>)"
    using ok u x Cons.prems(4) price_term_text [OF ok(1,2)]
    by (simp add: tier_term_def not_numeric parse_literal_quote)
  then show ?case using Cons.prems Cons.IH [of "acc\<lparr>sum_prices := obj_put ?f ?x (sum_prices acc)\<rparr>"] by auto
qed simp

lemma filled_prices_eq: "filled_prices nfs prices = foldl (\<lambda>ps p. obj_put (fst p) (price_or_zero prices (fst p)) ps) [] nfs"
proof -
  have "foldl (\<lambda>acc (k, v). obj_put k v acc) ps (map (\<lambda>(f, _). (f, price_or_zero prices f)) nfs) =
      foldl (\<lambda>ps p. obj_put (fst p) (price_or_zero prices (fst p)) ps) ps nfs" for ps
    by (induction nfs arbitrary: ps) auto
  then show ?thesis by (simp add: filled_prices_def obj_of_def)
qed

section \<open>Tiers\<close>

definition fields_ok :: "usage_schema \<Rightarrow> usage_schema \<Rightarrow> bool" where
  "fields_ok schema nfs \<longleftrightarrow> list_all (priced_field schema) nfs \<and> distinct (map fst nfs) \<and> nfs \<noteq> []"

definition constant_terms :: "task_tier \<Rightarrow> jstr list" where
  "constant_terms t = (if num_lt (Fin 0) (tier_constant t) then [String (tier_constant t)] else [])"

lemma body_pieces:
  assumes "tier_ok schema nfs t" "fields_ok schema nfs"
  shows "list_all (piece PlusOp) (constant_terms t @ map (price_text (tier_prices t)) nfs)"
    "list_all (passes p 1) (constant_terms t @ map (price_text (tier_prices t)) nfs)"
proof -
  have c: "num_ok (String (tier_constant t))" "43 \<notin> set (String (tier_constant t))"
    using assms(1) by (auto simp: tier_ok_def price_ok_num price_ok_def)
  have "trimmed (String (tier_constant t))" using c(1) num_char_ws by (intro trimmed_no_ws) (auto simp: num_ok_def list_all_iff)
  then have "piece PlusOp (String (tier_constant t))"
    using c num_text_flat [OF c] by (simp add: piece_def cut_char_def num_ok_def)
  moreover have "list_all (piece PlusOp) (map (price_text (tier_prices t)) nfs)" "list_all (passes p 1) (map (price_text (tier_prices t)) nfs)"
    using assms price_pieces by (auto simp: list_all_iff fields_ok_def priced_field_def tier_ok_def)
  ultimately show "list_all (piece PlusOp) (constant_terms t @ map (price_text (tier_prices t)) nfs)"
    "list_all (passes p 1) (constant_terms t @ map (price_text (tier_prices t)) nfs)"
    using num_text_inside [OF c(1)] by (simp_all add: constant_terms_def)
qed

lemma terms_read:
  assumes "tier_ok schema nfs t" "fields_ok schema nfs"
  shows "\<exists>h. tier_terms schema empty_sum (constant_terms t @ map (price_text (tier_prices t)) nfs) =
    Some \<lparr>sum_constant = tier_constant t, has_constant = h, sum_prices = filled_prices nfs (tier_prices t)\<rparr>"
proof -
  have c: "price_ok (tier_constant t)" using assms(1) by (simp add: tier_ok_def)
  have prices: "tier_terms schema acc (map (price_text (tier_prices t)) nfs) = Some (acc\<lparr>sum_prices := filled_prices nfs (tier_prices t)\<rparr>)"
    if "sum_prices acc = []" for acc
    using price_terms_read [of schema nfs "tier_prices t" acc] assms that
    by (simp add: tier_ok_def fields_ok_def filled_prices_eq)
  show ?thesis
  proof (cases "num_lt (Fin 0) (tier_constant t)")
    case True
    then show ?thesis using c prices [of "empty_sum\<lparr>sum_constant := tier_constant t, has_constant := True\<rparr>"]
      by (intro exI [of _ True]) (simp add: constant_terms_def tier_term_def price_ok_def empty_sum_def)
  next
    case False
    then have "tier_constant t = Fin 0" using c by (cases "tier_constant t") (auto simp: price_ok_def bad_price_def)
    then show ?thesis using prices [of empty_sum] by (intro exI [of _ False]) (simp add: constant_terms_def empty_sum_def)
  qed
qed

definition inner_text :: "task_tier \<Rightarrow> usage_schema \<Rightarrow> jstr" where
  "inner_text t nfs = json_quote (tier_label t) @ 44 # 32 # generateTaskTierBody t nfs"

lemma call_text_eq: "generateTaskTierCall t nfs = js ''tier'' @ 40 # inner_text t nfs @ [41]"
  by (simp add: generateTaskTierCall_def inner_text_def js_def)

lemma body_eq: "generateTaskTierBody t nfs = join (js '' + '') (constant_terms t @ map (price_text (tier_prices t)) nfs)"
  by (simp add: generateTaskTierBody_def constant_terms_def)

lemma filled_nonempty: "nfs \<noteq> [] \<Longrightarrow> filled_prices nfs prices \<noteq> []"
proof -
  have "foldl (\<lambda>ps p. obj_put (fst p) (price_or_zero prices (fst p)) ps) ps nfs \<noteq> []" if "nfs \<noteq> [] \<or> ps \<noteq> []"
    for ps and nfs :: usage_schema
    using that
  proof (induction nfs arbitrary: ps)
    case (Cons p nfs)
    have "obj_put (fst p) (price_or_zero prices (fst p)) ps \<noteq> []"
      by (metis empty_iff image_empty insert_not_empty keys_obj_put list.set(1))
    then show ?case using Cons.IH by simp
  qed simp
  then show "nfs \<noteq> [] \<Longrightarrow> filled_prices nfs prices \<noteq> []" by (simp add: filled_prices_eq)
qed

lemma call_edges: "trimmed (generateTaskTierCall t nfs)" "generateTaskTierCall t nfs \<noteq> []"
  by (simp_all add: call_text_eq js_def trimmed_def ws_chars)

lemma call_read:
  assumes "tier_ok schema nfs t" "fields_ok schema nfs"
  shows "parseTaskTierCall (generateTaskTierCall t nfs) cs schema =
    Some \<lparr>tier_label = tier_label t, tier_conditions = cs, tier_constant = tier_constant t, tier_prices = filled_prices nfs (tier_prices t)\<rparr>"
proof -
  let ?q = "json_quote (tier_label t)" and ?in = "inner_text t nfs"
  have l: "list_all safe_char (tier_label t)" using assms(1) by (simp add: tier_ok_def)
  have "starts_with (js ''tier('') (generateTaskTierCall t nfs)" "butlast (drop 5 (generateTaskTierCall t nfs)) = ?in"
    "last (generateTaskTierCall t nfs) = 41"
    by (simp_all add: call_text_eq js_def starts_with_def)
  moreover have "findTaskTopLevelCharacter ?in 44 0 = Some (length ?q)"
    using find_passes [OF passes_quote [OF l], of 44 0 "44 # 32 # generateTaskTierBody t nfs"]
    by (simp add: findTaskTopLevelCharacter_def inner_text_def)
  moreover have "json_parse (js_trim (take (length ?q) ?in)) = Some (JStr (tier_label t))"
    using parse_quote [OF l] js_trim_id [of ?q] by (simp add: inner_text_def) (simp add: quote_safe [OF l] trimmed_def ws_chars)
  moreover have "splitTaskTopLevel (drop (Suc (length ?q)) ?in) PlusOp = constant_terms t @ map (price_text (tier_prices t)) nfs"
    using cut_top(2) [OF body_pieces(1) [OF assms]] assms(2) by (simp add: inner_text_def body_eq cut_text_def fields_ok_def)
  ultimately show ?thesis
    using terms_read [OF assms] filled_nonempty [of nfs] assms(2) js_trim_id [OF call_edges(1)] call_edges(2)
    by (auto simp: parseTaskTierCall_def fields_ok_def)
qed

lemma call_passes:
  assumes "tier_ok schema nfs t" "fields_ok schema nfs" "p 116" "p 105" "p 101" "p 114"
  shows "passes p 0 (generateTaskTierCall t nfs)"
proof -
  have "passes p 1 (generateTaskTierBody t nfs)"
    unfolding body_eq by (rule passes_join [OF flat_literals(3) body_pieces(2) [OF assms(1,2)]])
  moreover have "list_all safe_char (tier_label t)" using assms(1) by (simp add: tier_ok_def)
  moreover have "inner_text t nfs = json_quote (tier_label t) @ js '', '' @ generateTaskTierBody t nfs" by (simp add: inner_text_def js_def)
  ultimately have "passes p 1 (inner_text t nfs)" using flat_literals(4) by (auto intro!: passes_append passes_quote)
  then have "passes p 0 (40 # inner_text t nfs @ [41])" by (intro passes_paren) simp_all
  moreover have "passes p 0 (js ''tier'')" by (rule passes_flat) (use assms in \<open>simp add: js_def\<close>)
  ultimately show ?thesis unfolding call_text_eq by (rule passes_append [rotated])
qed

section \<open>Chains\<close>

fun chain_text :: "usage_schema \<Rightarrow> task_tier list \<Rightarrow> jstr" where
  "chain_text nfs [] = []"
| "chain_text nfs [t] = generateTaskTierCall t nfs"
| "chain_text nfs (t # ts) = generateTaskCondition (tier_conditions t) @ js '' ? '' @ generateTaskTierCall t nfs @ js '' : '' @ chain_text nfs ts"

fun chain_ok :: "task_tier list \<Rightarrow> bool" where
  "chain_ok [] \<longleftrightarrow> False"
| "chain_ok [t] \<longleftrightarrow> tier_conditions t = []"
| "chain_ok (t # ts) \<longleftrightarrow> tier_conditions t \<noteq> [] \<and> chain_ok ts"

definition read_tier :: "usage_schema \<Rightarrow> task_tier \<Rightarrow> task_tier" where
  "read_tier nfs t = \<lparr>tier_label = tier_label t, tier_conditions = tier_conditions t, tier_constant = tier_constant t,
     tier_prices = filled_prices nfs (tier_prices t)\<rparr>"

lemma condition_text_facts:
  assumes "list_all (condition_ok schema) cs" "cs \<noteq> []"
  shows "passes (\<lambda>c. c \<noteq> 63) 0 (generateTaskCondition cs)" "trimmed (generateTaskCondition cs)"
    "generateTaskCondition cs \<noteq> []" "hd (generateTaskCondition cs) = 117"
proof -
  let ?ts = "map equality_text cs"
  have ok: "list_all (\<lambda>t. passes (\<lambda>c. c \<noteq> 63) 0 t \<and> trimmed t \<and> t \<noteq> [] \<and> hd t = 117) ?ts"
    using assms(1) by (auto simp: list_all_iff condition_ok_def equality_edges intro!: equality_passes)
      (simp add: equality_text_def usage_text_def js_def)
  have "passes (\<lambda>c. c \<noteq> 63) 0 (js '' && '')" by (rule passes_flat) (simp add: js_def)
  then show "passes (\<lambda>c. c \<noteq> 63) 0 (generateTaskCondition cs)"
    using ok unfolding generateTaskCondition_eq by (intro passes_join) (auto simp: list_all_iff)
  have "join sep ts \<noteq> [] \<and> hd (join sep ts) = 117 \<and> trimmed (join sep ts)"
    if "list_all (\<lambda>t. trimmed t \<and> t \<noteq> [] \<and> hd t = 117) ts" "ts \<noteq> []" for sep ts
    using that by (induction ts rule: induct_list012) (auto simp: trimmed_def)
  then have "join (js '' && '') ?ts \<noteq> [] \<and> hd (join (js '' && '') ?ts) = 117 \<and> trimmed (join (js '' && '') ?ts)"
    using ok assms(2) by (auto simp: list_all_iff)
  then show "trimmed (generateTaskCondition cs)" "generateTaskCondition cs \<noteq> []" "hd (generateTaskCondition cs) = 117"
    by (simp_all add: generateTaskCondition_eq)
qed

lemma chain_edges:
  assumes "list_all (tier_ok schema nfs) ts" "chain_ok ts"
  shows "trimmed (chain_text nfs ts) \<and> chain_text nfs ts \<noteq> [] \<and> hd (chain_text nfs ts) \<in> {116, 117}"
  using assms
proof (induction nfs ts rule: chain_text.induct)
  case (2 nfs t)
  then show ?case using call_edges [of t nfs] by (simp add: call_text_eq js_def)
next
  case (3 nfs t u us)
  have "list_all (condition_ok schema) (tier_conditions t)" "tier_conditions t \<noteq> []" using 3 by (auto simp: tier_ok_def)
  from condition_text_facts [OF this] show ?case using 3 by (auto simp: trimmed_def ws_chars)
qed simp

text \<open>One round of the loop on \<open>condition ? call : rest\<close>.\<close>

lemma chain_step:
  assumes "passes (\<lambda>c. c \<noteq> 63) 0 cond" "trimmed cond" "cond \<noteq> []"
    and "passes (\<lambda>c. c \<noteq> 63 \<and> c \<noteq> 58) 0 call" "trimmed call" "call \<noteq> []" and "trimmed rest" "rest \<noteq> []"
  shows "task_chain schema (cond @ js '' ? '' @ call @ js '' : '' @ rest) = do {
      cs \<leftarrow> parseTaskConditions cond schema;
      t \<leftarrow> parseTaskTierCall call cs schema;
      map_option ((#) t) (task_chain schema rest) }"
proof -
  let ?s = "cond @ js '' ? '' @ call @ js '' : '' @ rest"
  let ?k = "Suc (length cond)" and ?m = "length cond + length call + 4"
  have sep: "js '' ? '' = [32, 63, 32]" "js '' : '' = [32, 58, 32]" by (simp_all add: js_def)
  have q: "findTaskTopLevelCharacter ?s 63 0 = Some ?k"
    using find_passes [OF assms(1), of 0] by (simp add: findTaskTopLevelCharacter_def sep)
  have "find_colon 0 False False 0 (Suc ?k) (32 # call @ [32, 58, 32] @ rest) = Some ?m"
    using colon_passes [OF assms(4), of 0 "Suc (Suc ?k)"] by simp
  then have c: "findTaskTernaryColon ?s ?k = Some ?m" by (simp add: findTaskTernaryColon_def sep)
  have pad: "list_all is_ws [32]" by (simp add: ws_chars)
  have "take ?k ?s = cond @ [32]" "slice (Suc ?k) ?m ?s = 32 # call @ [32]" "drop (Suc ?m) ?s = 32 # rest"
    by (simp_all add: sep slice_def drop_Cons')
  then have "js_trim (take ?k ?s) = cond" "js_trim (slice (Suc ?k) ?m ?s) = call" "js_trim (drop (Suc ?m) ?s) = rest"
    using js_trim_pad [of "[]" "[32]" cond] js_trim_pad [of "[32]" "[32]" call] js_trim_pad [of "[32]" "[]" rest] assms pad by simp_all
  then show ?thesis using assms(3) q c by (subst task_chain.simps) simp
qed

lemma chain_read:
  assumes "list_all (tier_ok schema nfs) ts" "chain_ok ts" "fields_ok schema nfs"
  shows "task_chain schema (chain_text nfs ts) = Some (map (read_tier nfs) ts)"
  using assms(1,2)
proof (induction ts rule: chain_ok.induct)
  case (2 t)
  then have t: "tier_ok schema nfs t" "tier_conditions t = []" by simp_all
  have "passes (\<lambda>c. c \<noteq> 63) 0 (generateTaskTierCall t nfs)" by (rule call_passes [OF t(1) assms(3)]) simp_all
  from find_passes [OF this, of 0 "[]"]
  have "findTaskTopLevelCharacter (generateTaskTierCall t nfs) 63 0 = None" by (simp add: findTaskTopLevelCharacter_def)
  then show ?case using call_read [OF t(1) assms(3), of "[]"] call_edges(2) t(2)
    by (simp add: task_chain.simps [of schema "generateTaskTierCall t nfs"] read_tier_def)
next
  case (3 t u us)
  then have t: "tier_ok schema nfs t" and cs: "list_all (condition_ok schema) (tier_conditions t)" "tier_conditions t \<noteq> []"
    by (auto simp: tier_ok_def)
  note facts = condition_text_facts [OF cs]
  have "passes (\<lambda>c. c \<noteq> 63 \<and> c \<noteq> 58) 0 (generateTaskTierCall t nfs)" by (rule call_passes [OF t assms(3)]) simp_all
  moreover have "trimmed (chain_text nfs (u # us))" "chain_text nfs (u # us) \<noteq> []"
    using chain_edges [of schema nfs "u # us"] 3 by auto
  ultimately show ?case
    using chain_step [OF facts(1-3)] call_edges [of t nfs] conditions_read [OF cs] call_read [OF t assms(3)] 3
    by (simp add: read_tier_def)
qed simp

section \<open>Expressions\<close>

lemma quiet_append: "quiet x d a \<Longrightarrow> quiet x 0 b \<Longrightarrow> quiet x d (a @ b)"
proof (induction a arbitrary: d)
  case (Cons c a)
  then show ?case by (cases a) (auto simp: Let_def)
qed simp

lemma nested_append: "nested d a \<Longrightarrow> nested 0 b \<Longrightarrow> nested d (a @ b)"
  by (induction a arbitrary: d) auto

lemma nested_flat: "40 \<notin> set s \<Longrightarrow> 41 \<notin> set s \<Longrightarrow> nested 0 s"
  by (induction s) (auto simp: paren_depth_def)

lemma nested_paren: "nested 0 s \<Longrightarrow> nested 0 (40 # s @ [41])"
proof -
  have "nested (d + 1) (s @ [41])" if "nested d s" for d
    using that
  proof (induction s arbitrary: d)
    case (Cons c s)
    then show ?case by (simp only: append_Cons nested.simps paren_depth_shift) auto
  qed (simp add: paren_depth_def)
  from this [of 0] show "nested 0 s \<Longrightarrow> nested 0 (40 # s @ [41])" by (simp add: paren_depth_def)
qed

lemma nested_join: "nested 0 sep \<Longrightarrow> list_all (nested 0) ts \<Longrightarrow> nested 0 (join sep ts)"
  by (induction ts rule: induct_list012) (simp_all add: nested_append)

lemma nested_quote: "list_all safe_char s \<Longrightarrow> nested 0 (json_quote s)"
  by (rule nested_flat) (auto simp: quote_safe list_all_iff safe_char_def)

lemma nested_num: "num_ok s \<Longrightarrow> nested 0 s"
  by (rule nested_flat) (auto simp: num_ok_def list_all_iff is_num_char_def is_digit_def)

lemma nested_usage: "list_all safe_char f \<Longrightarrow> nested 0 (usage_text f)"
  using nested_append [OF nested_flat [of "[117]"] nested_paren [OF nested_quote]] by (simp add: usage_text_def js_def)

lemma nested_literals: "nested 0 (js '' * '')" "nested 0 (js '' / 1000000'')" "nested 0 (js '' + '')" "nested 0 (js '', '')" "nested 0 (js ''tier'')"
  by (rule nested_flat; simp add: js_def)+

lemma nested_inner:
  assumes "tier_ok schema nfs t" "fields_ok schema nfs"
  shows "nested 0 (inner_text t nfs)"
proof -
  have "nested 0 (price_text (tier_prices t) entry)" if "entry \<in> set nfs" for entry
  proof -
    have "list_all safe_char (fst entry)" "num_ok (String (price_or_zero (tier_prices t) (fst entry)))"
      using assms that by (auto simp: list_all_iff fields_ok_def priced_field_def name_ok_def tier_ok_def price_ok_num)
    then show ?thesis unfolding price_text_eq using nested_literals nested_usage nested_num
      by (intro nested_append) auto
  qed
  moreover have "list_all (nested 0) (constant_terms t)"
    using assms(1) by (simp add: constant_terms_def tier_ok_def price_ok_num nested_num)
  ultimately have "nested 0 (generateTaskTierBody t nfs)"
    unfolding body_eq by (intro nested_join nested_literals) (auto simp: list_all_iff)
  moreover have "inner_text t nfs = json_quote (tier_label t) @ js '', '' @ generateTaskTierBody t nfs" by (simp add: inner_text_def js_def)
  ultimately show ?thesis using assms(1) nested_literals
    by (simp add: nested_append nested_quote tier_ok_def)
qed

lemma call_quiet:
  assumes "tier_ok schema nfs t" "fields_ok schema nfs"
  shows "quiet x 0 (generateTaskTierCall t nfs)"
proof -
  have "quiet x 1 (inner_text t nfs @ [41])" using nested_quiet [OF nested_inner [OF assms], of x] by simp
  then show ?thesis by (simp add: call_text_eq js_def paren_depth_def)
qed

lemma condition_quiet:
  assumes "list_all (condition_ok schema) cs" "cs \<noteq> []"
  shows "quiet 42 0 (generateTaskCondition cs)"
proof -
  have sep: "separable 42 (equality_text c)" if "condition_ok schema c" for c
  proof -
    have "usage_text (tc_field c) = call_text ''u'' (tc_field c)" by (simp add: usage_text_def call_text_def) (simp add: js_def)
    moreover have "clean (js ''u'')" by (simp add: clean_def js_def)
    ultimately have "clean (equality_text c)"
      using that unfolding equality_text_def
      by (auto simp: condition_ok_def intro!: clean_append call_clean quote_clean literals_clean)
    moreover have "trimmed (equality_text c) \<and> equality_text c \<noteq> []" using that equality_edges by (simp add: condition_ok_def)
    ultimately show ?thesis by (simp add: separable_def clean_def)
  qed
  have "separable 42 (join (js '' && '') (map equality_text cs))"
    by (rule join_separable) (use assms sep in \<open>auto simp: list_all_iff js_def\<close>)
  then show ?thesis unfolding generateTaskCondition_eq
    by (intro quiet_tame) (auto simp: separable_def trimmed_def is_ws_def)
qed

lemma chain_quiet:
  assumes "list_all (tier_ok schema nfs) ts" "chain_ok ts" "fields_ok schema nfs"
  shows "quiet 42 0 (chain_text nfs ts)"
  using assms(1,2)
proof (induction ts rule: chain_ok.induct)
  case (2 t)
  then show ?case using call_quiet [OF _ assms(3)] by simp
next
  case (3 t u us)
  have t: "tier_ok schema nfs t" and cs: "list_all (condition_ok schema) (tier_conditions t)" "tier_conditions t \<noteq> []"
    using 3 by (auto simp: tier_ok_def)
  have sep: "quiet 42 0 (js '' ? '' @ s)" "quiet 42 0 (js '' : '' @ s)" if "quiet 42 0 s" "s \<noteq> []" "hd s \<noteq> 42" for s
    using that by (auto simp: js_def paren_depth_def Let_def)
  have rest: "quiet 42 0 (js '' : '' @ chain_text nfs (u # us))"
    by (rule sep(2)) (use 3 chain_edges [of schema nfs "u # us"] in auto)
  have "quiet 42 0 (js '' ? '' @ generateTaskTierCall t nfs @ js '' : '' @ chain_text nfs (u # us))"
    by (rule sep(1)) (use quiet_append [OF call_quiet [OF t assms(3)] rest] in \<open>simp_all add: call_text_eq js_def\<close>)
  then show ?case using quiet_append [OF condition_quiet [OF cs]] by simp
qed simp

lemma tiers_read:
  assumes "list_all (tier_ok schema nfs) ts" "chain_ok ts" "fields_ok schema nfs"
  shows "parseTaskTiersFromExpr (chain_text nfs ts) (Some schema) = map (read_tier nfs) ts"
proof -
  let ?s = "chain_text nfs ts"
  have e: "trimmed ?s" "?s \<noteq> []" "hd ?s \<in> {116, 117}" using chain_edges [OF assms(1,2)] by auto
  have sep: "js '' * '' = 32 # 42 # js '' ''" by (simp add: js_def)
  have "split_top (js '' * '') 0 [] (join (js '' * '') [?s]) = [?s]"
    by (rule split_join [OF sep]) (use chain_quiet [OF assms] in auto)
  then have "splitTopLevelMultiply ?s = [?s]" using e by (simp add: splitTopLevelMultiply_def split_parts_def js_trim_id)
  then have "splitBillingExprAndRequestRules ?s = Got \<lparr>billingExpr = ?s, requestRuleExpr = []\<rparr>"
    using e by (simp add: splitBillingExprAndRequestRules_def js_trim_id)
  moreover have "snd (stripExprVersion ?s) = ?s" using e by (auto simp: stripExprVersion_def split: list.split)
  moreover have "schema \<noteq> []" using assms(3) by (cases nfs) (auto simp: fields_ok_def priced_field_def)
  ultimately show ?thesis using chain_read [OF assms] e by (simp add: parseTaskTiersFromExpr_def js_trim_id)
qed

section \<open>Schemas and normal configurations\<close>

definition schema_ok :: "usage_schema \<Rightarrow> bool" where
  "schema_ok schema \<longleftrightarrow> distinct (map fst schema) \<and>
     list_all (\<lambda>entry. name_ok (fst entry) \<and> list_all (list_all safe_char) (enum_values (snd entry))) schema"

lemma map_of_obj_of: "map_of (obj_of ps) = map_of (rev ps)"
proof (induction ps rule: rev_induct)
  case (snoc p ps)
  have "obj_of (ps @ [p]) = obj_put (fst p) (snd p) (obj_of ps)" by (simp add: obj_of_def split_def)
  then show ?case using snoc by (cases p) simp
qed (simp add: obj_of_def)

lemma map_of_rev_distinct: "distinct (map fst ps) \<Longrightarrow> map_of (rev ps) = map_of ps"
  by (subst map_of_inject_set) (simp_all add: rev_map [symmetric])

lemma map_of_fields: "distinct (map fst nfs) \<Longrightarrow> p \<in> set nfs \<Longrightarrow>
    map_of (obj_of (map (\<lambda>(f, _). (f, g f)) nfs)) (fst p) = Some (g (fst p))"
proof -
  assume d: "distinct (map fst nfs)" and p: "p \<in> set nfs"
  have k: "map fst (map (\<lambda>(f, _). (f, g f)) nfs) = map fst nfs" by (simp add: split_def comp_def)
  have "(fst p, g (fst p)) \<in> set (map (\<lambda>(f, _). (f, g f)) nfs)"
    using p by (auto simp: split_def intro!: image_eqI [of _ _ p])
  moreover have "distinct (map fst (map (\<lambda>(f, _). (f, g f)) nfs))" using d by (simp only: k)
  ultimately have "map_of (map (\<lambda>(f, _). (f, g f)) nfs) (fst p) = Some (g (fst p))"
    "map_of (rev (map (\<lambda>(f, _). (f, g f)) nfs)) = map_of (map (\<lambda>(f, _). (f, g f)) nfs)"
    by (simp_all only: map_of_is_SomeI map_of_rev_distinct)
  then show ?thesis by (simp only: map_of_obj_of)
qed

lemma sorted_fields:
  assumes "distinct (map fst schema)"
  shows "distinct (map fst (js_sort cmp (filter p schema)))"
proof -
  have "mset (map fst (js_sort cmp (filter p schema))) = mset (map fst (filter p schema))" by simp
  moreover have "distinct (map fst (filter p schema))" using assms by (simp add: distinct_map_filter)
  ultimately show ?thesis using mset_eq_imp_distinct_iff by blast
qed

lemma number_fields:
  assumes "schema_ok schema" "getTaskNumberFields cmp (Some schema) \<noteq> []"
  shows "fields_ok schema (getTaskNumberFields cmp (Some schema))"
proof -
  have d: "distinct (map fst schema)" using assms(1) by (simp add: schema_ok_def)
  have "priced_field schema entry" if "entry \<in> set (getTaskNumberFields cmp (Some schema))" for entry
    using that assms(1) map_of_is_SomeI [OF d, of "fst entry" "snd entry"]
    by (auto simp: getTaskNumberFields_def priced_field_def schema_ok_def list_all_iff)
  then show ?thesis using assms(2) sorted_fields [OF d]
    by (simp add: fields_ok_def list_all_iff) (simp add: getTaskNumberFields_def)
qed

lemma enum_fields:
  assumes "schema_ok schema"
  shows "distinct (map fst (getTaskEnumFields cmp (Some schema)))"
    "entry \<in> set (getTaskEnumFields cmp (Some schema)) \<Longrightarrow>
       map_of schema (fst entry) = Some (snd entry) \<and> name_ok (fst entry) \<and> list_all (list_all safe_char) (enum_values (snd entry))"
proof -
  have d: "distinct (map fst schema)" using assms(1) by (simp add: schema_ok_def)
  show "distinct (map fst (getTaskEnumFields cmp (Some schema)))" using sorted_fields [OF d] by (simp add: getTaskEnumFields_def)
  show "entry \<in> set (getTaskEnumFields cmp (Some schema)) \<Longrightarrow>
       map_of schema (fst entry) = Some (snd entry) \<and> name_ok (fst entry) \<and> list_all (list_all safe_char) (enum_values (snd entry))"
    using assms map_of_is_SomeI [OF d, of "fst entry" "snd entry"]
    by (auto simp: getTaskEnumFields_def schema_ok_def list_all_iff)
qed

text \<open>What the configuration itself must satisfy: texts without quotes and operators, readable prices.\<close>

definition tier_texts_ok :: "task_tier \<Rightarrow> bool" where
  "tier_texts_ok t \<longleftrightarrow> list_all safe_char (tier_label t) \<and> price_ok (tier_constant t) \<and>
     list_all (\<lambda>p. price_ok (snd p)) (tier_prices t)"

lemma normal_tier_ok:
  assumes "schema_ok schema" "nfs = getTaskNumberFields cmp (Some schema)" "nfs \<noteq> []"
    "t' = normal_tier nfs (getTaskEnumFields cmp (Some schema)) i t" "tier_texts_ok t'"
  shows "tier_ok schema nfs t'" "read_tier nfs t' = t'"
proof -
  have d: "distinct (map fst nfs)" using number_fields [OF assms(1)] assms(2,3) by (simp add: fields_ok_def)
  let ?g = "\<lambda>f. usable_price (case map_of (tier_prices t) f of Some v \<Rightarrow> v | None \<Rightarrow> NaN)"
  have p: "tier_prices t' = obj_of (map (\<lambda>(f, _). (f, ?g f)) nfs)" by (simp add: assms(4) normal_tier_def)
  have g: "map_of (tier_prices t') (fst entry) = Some (?g (fst entry))" if "entry \<in> set nfs" for entry
    unfolding p by (rule map_of_fields [OF d that])
  have z: "price_or_zero (tier_prices t') (fst entry) = ?g (fst entry)" if "entry \<in> set nfs" for entry
    by (simp add: price_or_zero_def g [OF that])
  have "map (\<lambda>(f, _). (f, price_or_zero (tier_prices t') f)) nfs = map (\<lambda>(f, _). (f, ?g f)) nfs"
    using z by (auto simp: split_def)
  then have "filled_prices nfs (tier_prices t') = tier_prices t'" by (simp only: filled_prices_def p [symmetric])
  then show "read_tier nfs t' = t'" by (simp add: read_tier_def)
  have "price_ok (price_or_zero (tier_prices t') (fst entry))" if "entry \<in> set nfs" for entry
    using map_of_SomeD [OF g [OF that]] assms(5) z [OF that] by (auto simp: tier_texts_ok_def list_all_iff)
  moreover have "condition_ok schema c" if c: "c \<in> set (tier_conditions t')" for c
  proof -
    obtain e where e: "map_of (getTaskEnumFields cmp (Some schema)) (tc_field c) = Some e" "tc_value c \<in> set (enum_values e)"
      using c by (auto simp: assms(4) normal_tier_def split: option.splits)
    from enum_fields(2) [OF assms(1) map_of_SomeD [OF e(1)]] show ?thesis
      using e(2) by (auto simp: condition_ok_def name_ok_def list_all_iff)
  qed
  ultimately show "tier_ok schema nfs t'" using assms(5) by (simp add: tier_ok_def tier_texts_ok_def list_all_iff)
qed

lemma chain_parts_text:
  "chain_ok ts \<Longrightarrow> list_all (\<lambda>t. tier_conditions t \<noteq> [] \<longrightarrow> generateTaskCondition (tier_conditions t) \<noteq> []) ts \<Longrightarrow>
   \<exists>parts. chain_parts nfs ts = Some parts \<and> parts \<noteq> [] \<and> join (js '' : '') parts = chain_text nfs ts"
proof (induction ts rule: chain_ok.induct)
  case (3 t u us)
  then obtain parts where "chain_parts nfs (u # us) = Some parts" "parts \<noteq> []" "join (js '' : '') parts = chain_text nfs (u # us)" by auto
  then show ?case using 3 by (cases parts) (simp_all add: Let_def)
qed simp_all

lemma generated_text:
  assumes "getTaskNumberFields cmp (Some schema) = nfs" "nfs \<noteq> []"
    "config_tiers (normalizeTaskVisualConfig cmp config schema) = ts" "chain_ok ts" "list_all (tier_ok schema nfs) ts"
  shows "generateTaskExprFromConfig cmp config schema = chain_text nfs ts"
proof (cases "length ts = 1")
  case True
  then obtain t where "ts = [t]" by (auto simp: length_Suc_conv)
  then show ?thesis using assms by (simp add: generateTaskExprFromConfig_def Let_def)
next
  case False
  have "list_all (\<lambda>t. tier_conditions t \<noteq> [] \<longrightarrow> generateTaskCondition (tier_conditions t) \<noteq> []) ts"
    using assms(5) condition_text_facts(3) by (auto simp: list_all_iff tier_ok_def)
  from chain_parts_text [OF assms(4) this, of nfs] show ?thesis
    using assms False by (auto simp: generateTaskExprFromConfig_def Let_def)
qed

lemma map_indexed_set: "x \<in> set (map_indexed f i xs) \<Longrightarrow> \<exists>j y. x = f j y"
  by (induction f i xs rule: map_indexed.induct) auto

lemma generated_read:
  assumes "schema_ok schema" "getTaskNumberFields cmp (Some schema) \<noteq> []" "config_tiers cfg \<noteq> []"
    and "config_tiers (normalizeTaskVisualConfig cmp (Some cfg) schema) = ts" "chain_ok ts" "list_all tier_texts_ok ts"
  shows "parseTaskTiersFromExpr (generateTaskExprFromConfig cmp (Some cfg) schema) (Some schema) = ts"
proof -
  let ?n = "getTaskNumberFields cmp (Some schema)"
  have ts: "ts = map_indexed (normal_tier ?n (getTaskEnumFields cmp (Some schema))) 0 (config_tiers cfg)"
    using assms(3,4) by (simp add: normalizeTaskVisualConfig_def)
  have each: "tier_ok schema ?n t \<and> read_tier ?n t = t" if t: "t \<in> set ts" for t
  proof -
    obtain i t' where "t = normal_tier ?n (getTaskEnumFields cmp (Some schema)) i t'" using map_indexed_set [OF t [unfolded ts]] by blast
    then show ?thesis using normal_tier_ok [OF assms(1) refl assms(2)] assms(6) t by (auto simp: list_all_iff)
  qed
  then have ok: "list_all (tier_ok schema ?n) ts" and r: "map (read_tier ?n) ts = ts" by (auto simp: list_all_iff intro!: map_idI)
  show ?thesis
    using generated_text [OF refl assms(2,4,5) ok] tiers_read [OF ok assms(5) number_fields [OF assms(1,2)]] r by simp
qed

lemma normal_tier_again:
  assumes "distinct (map fst nfs)"
  shows "normal_tier nfs efs j (normal_tier nfs efs i t) = normal_tier nfs efs i t"
proof -
  let ?g = "\<lambda>f. usable_price (case map_of (tier_prices t) f of Some v \<Rightarrow> v | None \<Rightarrow> NaN)"
  have u: "usable_price (usable_price v) = usable_price v" for v by (simp add: usable_price_def bad_price_def)
  have "map_of (obj_of (map (\<lambda>(f, _). (f, ?g f)) nfs)) (fst p) = Some (?g (fst p))" if "p \<in> set nfs" for p
    by (rule map_of_fields [OF assms that])
  then have "map (\<lambda>(f, _). (f, usable_price (case map_of (obj_of (map (\<lambda>(f, _). (f, ?g f)) nfs)) f of Some v \<Rightarrow> v | None \<Rightarrow> NaN))) nfs
      = map (\<lambda>(f, _). (f, ?g f)) nfs"
    by (auto simp: split_def u)
  then show ?thesis by (simp add: normal_tier_def u default_label_def js_def del: map_eq_conv)
qed

lemma normalize_again:
  assumes "schema_ok schema" "getTaskNumberFields cmp (Some schema) \<noteq> []" "config_tiers cfg \<noteq> []"
  shows "normalizeTaskVisualConfig cmp (Some \<lparr>config_tiers = config_tiers (normalizeTaskVisualConfig cmp (Some cfg) schema)\<rparr>) schema =
    normalizeTaskVisualConfig cmp (Some cfg) schema"
proof -
  let ?f = "normal_tier (getTaskNumberFields cmp (Some schema)) (getTaskEnumFields cmp (Some schema))"
  have "distinct (map fst (getTaskNumberFields cmp (Some schema)))" using number_fields [OF assms(1,2)] by (simp add: fields_ok_def)
  then have "map_indexed ?f j (map_indexed ?f i xs) = map_indexed ?f i xs" for i j xs
    by (induction ?f i xs arbitrary: j rule: map_indexed.induct) (simp_all add: normal_tier_again)
  moreover have "map_indexed ?f 0 (config_tiers cfg) \<noteq> []" using assms(3) by (cases "config_tiers cfg") simp_all
  ultimately show ?thesis using assms(3) by (simp add: normalizeTaskVisualConfig_def)
qed

text \<open>
  C17: A task configuration survives saving.  For a schema with plain names and values and a
  configuration that is a chain after normalising (every tier but the last has a condition) with plain
  labels and readable prices, the expression written for it is parsed into exactly the normalised tiers,
  and opening the visual editor on it shows the normalised configuration, whatever order
  \<open>localeCompare\<close> puts the fields in.
\<close>

theorem task_expr_roundtrip:
  assumes "schema_ok schema" "getTaskNumberFields cmp (Some schema) \<noteq> []" "config_tiers cfg \<noteq> []"
    and "chain_ok (config_tiers (normalizeTaskVisualConfig cmp (Some cfg) schema))"
    and "list_all tier_texts_ok (config_tiers (normalizeTaskVisualConfig cmp (Some cfg) schema))"
  shows "let saved = generateTaskExprFromConfig cmp (Some cfg) schema; shown = normalizeTaskVisualConfig cmp (Some cfg) schema
    in parseTaskTiersFromExpr saved (Some schema) = config_tiers shown \<and> tryParseTaskVisualConfig cmp (Some saved) schema = Some shown"
proof -
  let ?saved = "generateTaskExprFromConfig cmp (Some cfg) schema" and ?shown = "normalizeTaskVisualConfig cmp (Some cfg) schema"
  have p: "parseTaskTiersFromExpr ?saved (Some schema) = config_tiers ?shown"
    by (rule generated_read [OF assms(1-3) refl assms(4,5)])
  moreover have ne: "config_tiers ?shown \<noteq> []" using assms(4) by auto
  then have "?saved \<noteq> []" using p by (auto simp: parseTaskTiersFromExpr_def)
  ultimately show ?thesis using ne normalize_again [OF assms(1-3)] by (simp add: tryParseTaskVisualConfig_def Let_def)
qed

lemma price_ok_int:
  assumes "0 \<le> n" "n \<le> 2 ^ 53"
  shows "price_ok (of_i n)"
proof -
  have t: "String (of_i n) = show_nat (nat n)" using assms String_of_i [of n] by simp
  have d: "list_all is_digit (show_nat (nat n))" using show_nat_digits by (auto simp: list_all_iff)
  then have "(case show_nat (nat n) of [] \<Rightarrow> [] | c # r \<Rightarrow> if c = 45 then r else show_nat (nat n)) = show_nat (nat n)"
    by (cases "show_nat (nat n)") (auto simp: is_digit_def)
  then have "numeric_literal (show_nat (nat n))" by (simp add: numeric_literal_def unsigned_literal_def exponent_ok_def)
  moreover have "43 \<notin> set (show_nat (nat n))" using d by (auto simp: list_all_iff is_digit_def)
  moreover have "\<not> bad_price (of_i n)" using assms by (simp add: bad_price_def of_i_def)
  ultimately show ?thesis using assms Number_String_int [of n] by (simp add: price_ok_def t)
qed

section \<open>An example\<close>

definition sample_schema :: usage_schema where
  "sample_schema = [(js ''quality'', \<lparr>field_type = None, field_unit = None, field_enum = Some [js ''hd'', js ''sd'']\<rparr>),
     (js ''seconds'', \<lparr>field_type = Some NumberType, field_unit = Some Second, field_enum = None\<rparr>),
     (js ''tokens'', \<lparr>field_type = Some NumberType, field_unit = Some Token, field_enum = None\<rparr>)]"

definition sample_config :: task_config where
  "sample_config = \<lparr>config_tiers = [
     \<lparr>tier_label = js ''hd'', tier_conditions = [\<lparr>tc_field = js ''quality'', tc_value = js ''hd''\<rparr>], tier_constant = of_i 1,
       tier_prices = [(js ''seconds'', of_i 3)]\<rparr>,
     \<lparr>tier_label = [], tier_conditions = [], tier_constant = of_i 0, tier_prices = [(js ''seconds'', of_i 2), (js ''tokens'', of_i 5)]\<rparr>]\<rparr>"

text \<open>Comparison by code units, one of the orders \<open>localeCompare\<close> may stand for.\<close>

fun unit_order :: collation where
  "unit_order [] [] = 0"
| "unit_order [] (_ # _) = - 1"
| "unit_order (_ # _) [] = 1"
| "unit_order (a # s) (b # t) = (if a < b then - 1 else if b < a then 1 else unit_order s t)"

theorem task_expr_roundtrip_witness:
  "tryParseTaskVisualConfig unit_order (Some (js ''u(\"quality\") == \"hd\" ? tier(\"hd\", 1 + u(\"seconds\") * 3 + u(\"tokens\") * 0 / 1000000) : tier(\"tier_2\", u(\"seconds\") * 2 + u(\"tokens\") * 5 / 1000000)'')) sample_schema
     = Some (normalizeTaskVisualConfig unit_order (Some sample_config) sample_schema)"
proof -
  let ?n = "normalizeTaskVisualConfig unit_order (Some sample_config) sample_schema"
  have "schema_ok sample_schema \<and> getTaskNumberFields unit_order (Some sample_schema) \<noteq> [] \<and> config_tiers sample_config \<noteq> []" by code_simp
  moreover have "chain_ok (config_tiers ?n) \<and> list_all tier_texts_ok (config_tiers ?n)" by code_simp
  moreover have "generateTaskExprFromConfig unit_order (Some sample_config) sample_schema =
      js ''u(\"quality\") == \"hd\" ? tier(\"hd\", 1 + u(\"seconds\") * 3 + u(\"tokens\") * 0 / 1000000) : tier(\"tier_2\", u(\"seconds\") * 2 + u(\"tokens\") * 5 / 1000000)''"
    by code_simp
  ultimately show ?thesis using task_expr_roundtrip [of sample_schema unit_order sample_config] by (simp add: Let_def)
qed

end
