(* ===== verification/TaskMatrix.thy ===== *)
theory TaskMatrix
  imports TaskRoundtrip
begin

text \<open>
  The price matrix: one row for every combination of enum values.  The combinations are complete and
  distinct; the tiers written for a matrix price every usage sample by the row of its own
  combination; and a saved matrix is read back row by row.
\<close>

section \<open>Combinations\<close>

definition enums_distinct :: "usage_schema \<Rightarrow> bool" where
  "enums_distinct schema \<longleftrightarrow> list_all (\<lambda>entry. distinct (enum_values (snd entry))) schema"

definition assignment :: "usage_schema \<Rightarrow> (jstr \<rightharpoonup> jstr) \<Rightarrow> bool" where
  "assignment efs m \<longleftrightarrow> dom m = fst ` set efs \<and> (\<forall>e \<in> set efs. m (fst e) \<in> Some ` set (enum_values (snd e)))"

lemma combinations_snoc: "foldl extend_combinations acc (efs @ [e]) = extend_combinations (foldl extend_combinations acc efs) e"
  by simp

lemma assignment_snoc:
  assumes "fst e \<notin> fst ` set efs"
  shows "assignment (efs @ [e]) m \<longleftrightarrow> (\<exists>m' v. assignment efs m' \<and> v \<in> set (enum_values (snd e)) \<and> m = m'(fst e \<mapsto> v))"
proof
  have ne: "fst e' \<noteq> fst e" if "e' \<in> set efs" for e' using assms that by (metis image_eqI)
  {
    assume a: "assignment (efs @ [e]) m"
    then obtain v where v: "v \<in> set (enum_values (snd e))" "m (fst e) = Some v" by (auto simp: assignment_def)
    have "dom (m(fst e := None)) = fst ` set efs" using a assms by (auto simp: assignment_def)
    moreover have "(m(fst e := None)) (fst e') \<in> Some ` set (enum_values (snd e'))" if "e' \<in> set efs" for e'
      using a ne [OF that] that by (simp add: assignment_def)
    ultimately have "assignment efs (m(fst e := None))" by (simp add: assignment_def)
    moreover have "m = (m(fst e := None))(fst e \<mapsto> v)" using v(2) by auto
    ultimately show "\<exists>m' v. assignment efs m' \<and> v \<in> set (enum_values (snd e)) \<and> m = m'(fst e \<mapsto> v)" using v(1) by blast
  next
    assume "\<exists>m' v. assignment efs m' \<and> v \<in> set (enum_values (snd e)) \<and> m = m'(fst e \<mapsto> v)"
    then obtain m' v where m: "assignment efs m'" "v \<in> set (enum_values (snd e))" "m = m'(fst e \<mapsto> v)" by blast
    have "m (fst e') \<in> Some ` set (enum_values (snd e'))" if "e' \<in> set efs" for e'
      using m ne [OF that] that by (simp add: assignment_def)
    then show "assignment (efs @ [e]) m" using m by (simp add: assignment_def)
  }
qed

lemma distinct_products:
  assumes "distinct ms" "distinct vs" "\<And>m m' v w. m \<in> set ms \<Longrightarrow> m' \<in> set ms \<Longrightarrow> g m v = g m' w \<Longrightarrow> m = m' \<and> v = w"
  shows "distinct (concat (map (\<lambda>m. map (g m) vs) ms))"
  using assms(1,3)
proof (induction ms)
  case (Cons m ms)
  have "inj_on (g m) (set vs)" using Cons.prems(2) [of m m] by (auto simp: inj_on_def)
  moreover have "g m v \<noteq> g m' w" if "m' \<in> set ms" for m' v w using Cons.prems(2) [of m m' v w] Cons.prems(1) that by auto
  moreover have "distinct (concat (map (\<lambda>m. map (g m) vs) ms))" by (rule Cons.IH) (use Cons.prems in auto)
  ultimately show ?case using assms(2) by (auto simp: distinct_map)
qed simp

lemma combinations_maps:
  "distinct (map fst efs) \<Longrightarrow> map_of ` set (foldl extend_combinations [[]] efs) = Collect (assignment efs)"
proof (induction efs rule: rev_induct)
  case (snoc e efs)
  have "map_of ` set (foldl extend_combinations [[]] (efs @ [e])) =
      {m(fst e \<mapsto> v) | m v. m \<in> map_of ` set (foldl extend_combinations [[]] efs) \<and> v \<in> set (enum_values (snd e))}"
    by (auto simp: extend_combinations_def image_iff) (metis map_of_obj_put)+
  then show ?case using snoc assignment_snoc [of e efs] by auto
qed (auto simp: assignment_def)

lemma combinations_distinct:
  "distinct (map fst efs) \<Longrightarrow> list_all (\<lambda>e. distinct (enum_values (snd e))) efs \<Longrightarrow>
   distinct (map map_of (foldl extend_combinations [[]] efs))"
proof (induction efs rule: rev_induct)
  case (snoc e efs)
  let ?cs = "foldl extend_combinations [[]] efs" and ?vs = "enum_values (snd e)"
  have "map map_of (extend_combinations ?cs e) = concat (map (\<lambda>m. map (\<lambda>v. m(fst e \<mapsto> v)) ?vs) (map map_of ?cs))"
    by (simp add: extend_combinations_def map_concat comp_def)
  moreover have "distinct (concat (map (\<lambda>m. map (\<lambda>v. m(fst e \<mapsto> v)) ?vs) (map map_of ?cs)))"
  proof (rule distinct_products)
    show "distinct (map map_of ?cs)" "distinct ?vs" using snoc by simp_all
    have none: "m (fst e) = None" if "m \<in> set (map map_of ?cs)" for m
      using that combinations_maps [of efs] snoc.prems by (auto simp: assignment_def)
    fix m m' v w assume m: "m \<in> set (map map_of ?cs)" "m' \<in> set (map map_of ?cs)" and eq: "m(fst e \<mapsto> v) = m'(fst e \<mapsto> w)"
    have "m k = m' k" for k using none [OF m(1)] none [OF m(2)] fun_cong [OF eq, of k] by (cases "k = fst e") auto
    then show "m = m' \<and> v = w" using fun_cong [OF eq, of "fst e"] by auto
  qed
  ultimately show ?case by simp
qed simp

lemma combinations_length:
  "length (foldl extend_combinations acc efs) = length acc * prod_list (map (\<lambda>e. length (enum_values (snd e))) efs)"
proof (induction efs arbitrary: acc)
  case (Cons e efs)
  have "length (extend_combinations acc e) = length acc * length (enum_values (snd e))"
    by (simp add: extend_combinations_def length_concat comp_def sum_list_triv)
  then show ?case using Cons by simp
qed simp

lemma enum_fields_distinct: "enums_distinct schema \<Longrightarrow> list_all (\<lambda>e. distinct (enum_values (snd e))) (getTaskEnumFields cmp (Some schema))"
  by (auto simp: getTaskEnumFields_def enums_distinct_def list_all_iff)

text \<open>
  The matrix is complete.  For a schema without repeated fields or enum values the combinations
  are pairwise different, as many as the product of the numbers of values, and they are exactly the
  assignments of a declared value to every enum field.
\<close>

theorem combinations_exact:
  assumes "schema_ok schema" "enums_distinct schema"
  shows "let cs = getTaskEnumCombinations cmp (Some schema); efs = getTaskEnumFields cmp (Some schema)
    in distinct (map map_of cs) \<and> length cs = prod_list (map (\<lambda>e. length (enum_values (snd e))) efs) \<and>
       map_of ` set cs = {m. assignment efs m}"
  using combinations_maps [OF enum_fields(1) [OF assms(1)], of cmp] combinations_length [of "[[]]"]
    combinations_distinct [OF enum_fields(1) [OF assms(1)] enum_fields_distinct [OF assms(2)], of cmp]
  by (simp add: getTaskEnumCombinations_def Let_def)

lemma combination_keys:
  assumes "schema_ok schema" "c \<in> set (getTaskEnumCombinations cmp (Some schema))"
  shows "distinct (map fst c)" "assignment (getTaskEnumFields cmp (Some schema)) (map_of c)"
    "length c = length (getTaskEnumFields cmp (Some schema))"
proof -
  let ?efs = "getTaskEnumFields cmp (Some schema)"
  have d: "distinct (map fst ?efs)" by (rule enum_fields(1) [OF assms(1)])
  have "\<forall>c \<in> set (foldl extend_combinations acc efs). distinct (map fst c)" if "\<forall>c \<in> set acc. distinct (map fst c)" for acc efs
    using that
  proof (induction efs arbitrary: acc)
    case (Cons e efs)
    have "\<forall>c \<in> set (extend_combinations acc e). distinct (map fst c)" using Cons.prems by (auto simp: extend_combinations_def distinct_obj_put)
    then show ?case using Cons.IH by simp
  qed simp
  from this [of "[[]]" ?efs] show dc: "distinct (map fst c)" using assms(2) by (simp add: getTaskEnumCombinations_def)
  show a: "assignment ?efs (map_of c)" using assms(2) combinations_maps [OF d] by (auto simp: getTaskEnumCombinations_def)
  then have "fst ` set c = fst ` set ?efs" by (simp add: assignment_def dom_map_of_conv_image_fst)
  then show "length c = length ?efs" using distinct_card [OF dc] distinct_card [OF d] by simp
qed

section \<open>Prices of a matrix\<close>

definition matrix_ok :: "collation \<Rightarrow> usage_schema \<Rightarrow> task_matrix \<Rightarrow> bool" where
  "matrix_ok cmp schema cfg \<longleftrightarrow> map row_combination (matrix_rows cfg) = getTaskEnumCombinations cmp (Some schema)"

definition agrees :: "jsobj \<Rightarrow> task_row \<Rightarrow> bool" where
  "agrees sample r \<longleftrightarrow> list_all (\<lambda>p. obj_get sample (fst p) = JStr (snd p)) (row_combination r)"

text \<open>The tier that charges exactly what a row says.\<close>

definition row_tier :: "usage_schema \<Rightarrow> task_row \<Rightarrow> task_tier" where
  "row_tier nfs r = \<lparr>tier_label = [], tier_conditions = [], tier_constant = row_constant r, tier_prices = filled_prices nfs (row_prices r)\<rparr>"

definition bill :: "task_preview option \<Rightarrow> (jsnum \<times> preview_part list) option" where
  "bill p = map_option (\<lambda>p. (preview_total p, preview_parts p)) p"

definition same_charge :: "task_tier \<Rightarrow> task_tier \<Rightarrow> bool" where
  "same_charge t u \<longleftrightarrow> tier_constant t = tier_constant u \<and> tier_prices t = tier_prices u"

lemma bill_same_charge: "same_charge t u \<Longrightarrow> bill (price_tier schema sample t) = bill (price_tier schema sample u)"
  by (auto simp: bill_def same_charge_def price_tier_def Let_def split: option.split)

lemma agrees_same:
  assumes "schema_ok schema" "row_combination r \<in> set (getTaskEnumCombinations cmp (Some schema))"
    "row_combination r' \<in> set (getTaskEnumCombinations cmp (Some schema))" "agrees sample r" "agrees sample r'"
  shows "map_of (row_combination r) = map_of (row_combination r')"
proof
  fix f
  note k = combination_keys [OF assms(1,2)] and k' = combination_keys [OF assms(1,3)]
  have dom: "dom (map_of (row_combination r)) = dom (map_of (row_combination r'))" using k(2) k'(2) by (simp add: assignment_def)
  have v: "obj_get sample f = JStr v" if "map_of (row_combination s) f = Some v" "agrees sample s" for s v
    using map_of_SomeD [OF that(1)] that(2) by (auto simp: agrees_def list_all_iff)
  show "map_of (row_combination r) f = map_of (row_combination r') f"
  proof (cases "map_of (row_combination r) f")
    case None
    then show ?thesis using dom by (metis domIff)
  next
    case (Some a)
    then obtain b where b: "map_of (row_combination r') f = Some b" using dom by (metis domD domI)
    then show ?thesis using v [OF Some assms(4)] v [OF b assms(5)] Some by simp
  qed
qed

lemma row_tier_matches: "tier_conditions t = row_conditions cmp r \<Longrightarrow> tier_matches sample t \<longleftrightarrow> agrees sample r"
  by (auto simp: tier_matches_def row_conditions_def agrees_def list_all_iff split_def)

lemma row_tiers_nonempty: "row_tiers cmp nfs rows = [] \<longleftrightarrow> rows = []"
  by (cases rows) simp_all

lemma matched_tier_Cons: "ts \<noteq> [] \<Longrightarrow> matched_tier sample (t # ts) = (if tier_matches sample t then t else matched_tier sample ts)"
  by (simp add: matched_tier_def split: option.split)

lemma matched_row:
  assumes "r \<in> set rows" "agrees sample r" "\<And>s. s \<in> set rows \<Longrightarrow> agrees sample s \<Longrightarrow> s = r"
  shows "same_charge (matched_tier sample (row_tiers cmp nfs rows)) (row_tier nfs r)"
  using assms
proof (induction rows)
  case (Cons s rows)
  show ?case
  proof (cases rows)
    case Nil
    then show ?thesis using Cons.prems by (simp add: matched_tier_def same_charge_def row_tier_def)
  next
    case (Cons s' rows')
    have ne: "row_tiers cmp nfs rows \<noteq> []" using Cons by (simp add: row_tiers_nonempty)
    let ?t = "hd (row_tiers cmp nfs (s # rows))"
    have m: "tier_matches sample ?t \<longleftrightarrow> agrees sample s" by (rule row_tier_matches [of _ cmp]) (simp add: Cons)
    show ?thesis
    proof (cases "agrees sample s")
      case True
      then have "s = r" using Cons.prems(3) by simp
      moreover have "matched_tier sample (row_tiers cmp nfs (s # rows)) = ?t" using m True ne by (simp add: matched_tier_Cons)
      ultimately show ?thesis by (simp add: same_charge_def row_tier_def)
    next
      case False
      then have "matched_tier sample (row_tiers cmp nfs (s # rows)) = matched_tier sample (row_tiers cmp nfs rows)"
        using m ne False by (simp add: matched_tier_Cons)
      moreover have "same_charge (matched_tier sample (row_tiers cmp nfs rows)) (row_tier nfs r)"
      proof (rule Cons.IH)
        show "r \<in> set rows" using Cons.prems(1,2) False by auto
        show "x = r" if "x \<in> set rows" "agrees sample x" for x by (rule Cons.prems(3)) (simp_all add: that)
      qed (rule Cons.prems(2))
      ultimately show ?thesis by (simp only:)
    qed
  qed
qed simp

lemma same_row_charge:
  assumes "same_row nfs r s"
  shows "row_constant r = row_constant s" "filled_prices nfs (row_prices r) = filled_prices nfs (row_prices s)"
proof -
  show "row_constant r = row_constant s" using assms by (simp add: same_row_def num_eq_def)
  have "price_or_zero (row_prices r) (fst p) = price_or_zero (row_prices s) (fst p)" if "p \<in> set nfs" for p
    using assms that by (auto simp: same_row_def list_all_iff same_price_def num_eq_def price_or_zero_def split: option.splits)
  then show "filled_prices nfs (row_prices r) = filled_prices nfs (row_prices s)"
    unfolding filled_prices_def by (intro arg_cong [where f = obj_of]) (auto simp: split_def)
qed

lemma rows_distinct:
  assumes "schema_ok schema" "enums_distinct schema" "matrix_ok cmp schema cfg"
  shows "distinct (map (\<lambda>r. map_of (row_combination r)) (matrix_rows cfg))"
    "r \<in> set (matrix_rows cfg) \<Longrightarrow> row_combination r \<in> set (getTaskEnumCombinations cmp (Some schema))"
proof -
  have "map (\<lambda>r. map_of (row_combination r)) (matrix_rows cfg) = map map_of (getTaskEnumCombinations cmp (Some schema))"
    using assms(3) by (simp add: matrix_ok_def flip: map_map [unfolded comp_def])
  then show "distinct (map (\<lambda>r. map_of (row_combination r)) (matrix_rows cfg))"
    using combinations_distinct [OF enum_fields(1) [OF assms(1)] enum_fields_distinct [OF assms(2)]]
    by (simp add: getTaskEnumCombinations_def)
  show "r \<in> set (matrix_rows cfg) \<Longrightarrow> row_combination r \<in> set (getTaskEnumCombinations cmp (Some schema))"
    using assms(3) by (metis image_eqI matrix_ok_def set_map)
qed

text \<open>
  C14: A matrix charges what it shows.  For every sample of usage facts whose enum facts are those of a
  row, the tiers written for the matrix give the total and the parts of that row's own prices: the
  other rows' conditions do not apply, the last row needs no condition, and a uniform matrix may be
  written as a single tier.
\<close>

theorem matrix_charges_rows:
  assumes "schema_ok schema" "enums_distinct schema" "matrix_ok cmp schema cfg" "r \<in> set (matrix_rows cfg)" "agrees sample r"
    and "getTaskNumberFields cmp (Some schema) \<noteq> []"
  shows "bill (evaluateTaskVisualConfig \<lparr>config_tiers = taskMatrixToTiers cmp cfg schema\<rparr> sample (Some schema)) =
    bill (price_tier (Some schema) sample (row_tier (getTaskNumberFields cmp (Some schema)) r))"
proof -
  let ?n = "getTaskNumberFields cmp (Some schema)" and ?rows = "matrix_rows cfg"
  obtain r1 rest where rows: "?rows = r1 # rest" using assms(4) by (cases ?rows) auto
  show ?thesis
  proof (cases "list_all (\<lambda>row. same_row ?n row r1) ?rows")
    case True
    then have "same_row ?n r r1" using assms(4) by (simp add: list_all_iff)
    from same_row_charge [OF this] show ?thesis using True rows assms(6)
      by (simp add: taskMatrixToTiers_def Let_def evaluateTaskVisualConfig_def matched_tier_def)
         (rule bill_same_charge, simp add: same_charge_def row_tier_def)
  next
    case False
    have "s = r" if "s \<in> set ?rows" "agrees sample s" for s
    proof -
      have "map_of (row_combination s) = map_of (row_combination r)"
        using agrees_same [OF assms(1)] rows_distinct(2) [OF assms(1-3)] that assms(4,5) by blast
      then show ?thesis using rows_distinct(1) [OF assms(1-3)] that(1) assms(4) by (auto simp: distinct_map inj_on_def)
    qed
    then have "same_charge (matched_tier sample (row_tiers cmp ?n ?rows)) (row_tier ?n r)" by (rule matched_row [OF assms(4,5)])
    moreover have "taskMatrixToTiers cmp cfg schema = row_tiers cmp ?n ?rows"
      using False assms(6) by (auto simp: taskMatrixToTiers_def Let_def rows)
    moreover have "row_tiers cmp ?n ?rows \<noteq> []" by (simp add: row_tiers_nonempty rows)
    ultimately show ?thesis by (simp add: evaluateTaskVisualConfig_def bill_same_charge)
  qed
qed

definition sample_matrix :: task_matrix where
  "sample_matrix = \<lparr>matrix_rows = [
     \<lparr>row_combination = [(js ''quality'', js ''hd'')], row_constant = of_i 1, row_prices = [(js ''seconds'', of_i 3), (js ''tokens'', of_i 0)]\<rparr>,
     \<lparr>row_combination = [(js ''quality'', js ''sd'')], row_constant = of_i 0, row_prices = [(js ''seconds'', of_i 2), (js ''tokens'', of_i 5)]\<rparr>]\<rparr>"

definition sample_facts :: jsobj where
  "sample_facts = [(js ''quality'', JStr (js ''sd'')), (js ''seconds'', JNum (of_i 10)), (js ''tokens'', JNum (of_i 2000000))]"

theorem combinations_exact_witness:
  "map_of ` set (getTaskEnumCombinations unit_order (Some sample_schema)) =
    {m. assignment (getTaskEnumFields unit_order (Some sample_schema)) m} \<and>
   length (getTaskEnumCombinations unit_order (Some sample_schema)) = 2"
proof -
  have "schema_ok sample_schema" "enums_distinct sample_schema" by code_simp+
  moreover have "prod_list (map (\<lambda>e. length (enum_values (snd e))) (getTaskEnumFields unit_order (Some sample_schema))) = 2" by code_simp
  ultimately show ?thesis using combinations_exact [of sample_schema unit_order] by (simp add: Let_def)
qed

theorem matrix_charges_rows_witness:
  "map_option fst (bill (evaluateTaskVisualConfig \<lparr>config_tiers = taskMatrixToTiers unit_order sample_matrix sample_schema\<rparr>
     sample_facts (Some sample_schema))) = Some (of_i 30)"
proof -
  let ?r = "matrix_rows sample_matrix ! 1"
  have "schema_ok sample_schema" "enums_distinct sample_schema" "matrix_ok unit_order sample_schema sample_matrix"
    "?r \<in> set (matrix_rows sample_matrix)" "agrees sample_facts ?r" "getTaskNumberFields unit_order (Some sample_schema) \<noteq> []" by code_simp+
  note m = matrix_charges_rows [OF this]
  have "map_option fst (bill (price_tier (Some sample_schema) sample_facts (row_tier (getTaskNumberFields unit_order (Some sample_schema)) ?r))) = Some (of_i 30)"
    by code_simp
  then show ?thesis by (simp only: m)
qed

end
