(* ===== verification/TaskMatrixRead.thy ===== *)
theory TaskMatrixRead
  imports TaskMatrix
begin

text \<open>
  A saved price matrix is read back.  The tiers of the saved expression carry the conditions, the
  constant and the prices of the rows; reading finds each tier's combination by its key, gives the
  tier without conditions to the one combination that is left, and so rebuilds the rows.
\<close>

section \<open>Rows and their tiers\<close>

definition row_ok :: "usage_schema \<Rightarrow> task_row \<Rightarrow> bool" where
  "row_ok nfs r \<longleftrightarrow> price_ok (row_constant r) \<and> row_prices r = filled_prices nfs (row_prices r) \<and>
     list_all (\<lambda>p. price_ok (snd p)) (row_prices r)"

definition core :: "task_tier \<Rightarrow> task_condition list \<times> jsnum \<times> (jstr \<times> jsnum) list" where
  "core t = (tier_conditions t, tier_constant t, tier_prices t)"

lemma price_ok_usable: "price_ok x \<Longrightarrow> usable_price x = x"
  by (simp add: price_ok_def usable_price_def)

lemma filled_prices_ok:
  assumes "distinct (map fst nfs)" "list_all (\<lambda>p. price_ok (snd p)) (filled_prices nfs ps)"
  shows "obj_of (map (\<lambda>(f, _). (f, usable_price (case map_of (filled_prices nfs ps) f of Some v \<Rightarrow> v | None \<Rightarrow> NaN))) nfs) = filled_prices nfs ps"
proof -
  have m: "map_of (filled_prices nfs ps) (fst p) = Some (price_or_zero ps (fst p))" if "p \<in> set nfs" for p
    unfolding filled_prices_def by (rule map_of_fields [OF assms(1) that])
  have "price_ok (price_or_zero ps (fst p))" if "p \<in> set nfs" for p
    using map_of_SomeD [OF m [OF that]] assms(2) by (auto simp: list_all_iff)
  then have "map (\<lambda>(f, _). (f, usable_price (case map_of (filled_prices nfs ps) f of Some v \<Rightarrow> v | None \<Rightarrow> NaN))) nfs =
      map (\<lambda>(f, _). (f, price_or_zero ps f)) nfs"
    using m by (auto simp: split_def price_ok_usable)
  then show ?thesis by (simp only: filled_prices_def [symmetric])
qed

lemma row_conditions_valid:
  assumes "schema_ok schema" "row_combination r \<in> set (getTaskEnumCombinations cmp (Some schema))" "c \<in> set (row_conditions cmp r)"
  shows "\<exists>e. map_of (getTaskEnumFields cmp (Some schema)) (tc_field c) = Some e \<and> map_of schema (tc_field c) = Some e \<and> tc_value c \<in> set (enum_values e)"
proof -
  let ?efs = "getTaskEnumFields cmp (Some schema)"
  obtain f v where c: "c = \<lparr>tc_field = f, tc_value = v\<rparr>" "(f, v) \<in> set (row_combination r)"
    using assms(3) by (auto simp: row_conditions_def)
  note k = combination_keys [OF assms(1,2)]
  have "map_of (row_combination r) f = Some v" using k(1) c(2) by (simp add: map_of_is_SomeI)
  moreover have "f \<in> fst ` set ?efs" using k(2) calculation by (auto simp: assignment_def)
  then obtain e where e: "(f, e) \<in> set ?efs" by force
  moreover have "map_of (row_combination r) f \<in> Some ` set (enum_values e)" using k(2) e by (force simp: assignment_def)
  ultimately have "v \<in> set (enum_values e)" by auto
  moreover have "map_of ?efs f = Some e" using enum_fields(1) [OF assms(1)] e by (simp add: map_of_is_SomeI)
  ultimately show ?thesis using enum_fields(2) [OF assms(1) e] c(1) by auto
qed

lemma normal_core:
  assumes "schema_ok schema" "nfs = getTaskNumberFields cmp (Some schema)" "nfs \<noteq> []" "row_ok nfs r"
    "row_combination r \<in> set (getTaskEnumCombinations cmp (Some schema))"
    "tier_constant t = row_constant r" "tier_prices t = filled_prices nfs (row_prices r)" "set (tier_conditions t) \<subseteq> set (row_conditions cmp r)"
  shows "core (normal_tier nfs (getTaskEnumFields cmp (Some schema)) i t) = core t"
proof -
  have d: "distinct (map fst nfs)" using number_fields [OF assms(1)] assms(2,3) by (simp add: fields_ok_def)
  have "filter (\<lambda>c. case map_of (getTaskEnumFields cmp (Some schema)) (tc_field c) of Some d \<Rightarrow> tc_value c \<in> set (enum_values d) | None \<Rightarrow> False)
      (tier_conditions t) = tier_conditions t"
    using row_conditions_valid [OF assms(1,5)] assms(8) by (intro filter_True) force
  moreover have "usable_price (tier_constant t) = tier_constant t" using assms(4,6) by (simp add: row_ok_def price_ok_usable)
  moreover have "list_all (\<lambda>p. price_ok (snd p)) (filled_prices nfs (row_prices r))" using assms(4) by (simp add: row_ok_def)
  ultimately show ?thesis using filled_prices_ok [OF d] assms(7) by (simp add: core_def normal_tier_def)
qed

lemma map_indexed_core:
  "(\<And>i x. x \<in> set xs \<Longrightarrow> g (f i x) = g x) \<Longrightarrow> map g (map_indexed f i xs) = map g xs"
  by (induction f i xs rule: map_indexed.induct) auto

lemma map_indexed_elem: "x \<in> set (map_indexed f i xs) \<Longrightarrow> \<exists>j y. y \<in> set xs \<and> x = f j y"
  by (induction f i xs rule: map_indexed.induct) auto

lemma map_indexed_length [simp]: "length (map_indexed f i xs) = length xs"
  by (induction f i xs rule: map_indexed.induct) auto

lemma row_tiers_elem:
  "t \<in> set (row_tiers cmp nfs rows) \<Longrightarrow> \<exists>r \<in> set rows. tier_constant t = row_constant r \<and> tier_prices t = filled_prices nfs (row_prices r) \<and>
     set (tier_conditions t) \<subseteq> set (row_conditions cmp r) \<and> tier_label t = taskMatrixRowLabel cmp (row_combination r)"
  by (induction cmp nfs rows rule: row_tiers.induct) (auto split: if_splits)

definition row_core :: "collation \<Rightarrow> task_row \<Rightarrow> task_condition list \<times> jsnum \<times> (jstr \<times> jsnum) list" where
  "row_core cmp r = (row_conditions cmp r, row_constant r, row_prices r)"

lemma row_tiers_core:
  "rows \<noteq> [] \<Longrightarrow> list_all (row_ok nfs) rows \<Longrightarrow>
   map core (row_tiers cmp nfs rows) = map (row_core cmp) (butlast rows) @ [([], snd (row_core cmp (last rows)))]"
proof (induction cmp nfs rows rule: row_tiers.induct)
  case (2 cmp nfs r rows)
  have "filled_prices nfs (row_prices r) = row_prices r" using "2.prems" by (simp add: row_ok_def)
  then show ?case using 2 by (cases rows) (simp_all add: core_def row_core_def)
qed simp

section \<open>Keys\<close>

lemma key_cong:
  "(\<And>e. e \<in> set efs \<Longrightarrow> map_of c (fst e) = map_of c' (fst e)) \<Longrightarrow> taskMatrixCombinationKey c efs = taskMatrixCombinationKey c' efs"
  unfolding taskMatrixCombinationKey_def by (intro arg_cong [where f = "\<lambda>xs. json_text (JArr xs)"]) (auto simp: split_def)

lemma key_injective:
  assumes "schema_ok schema" "c \<in> set (getTaskEnumCombinations cmp (Some schema))" "c' \<in> set (getTaskEnumCombinations cmp (Some schema))"
    and "taskMatrixCombinationKey c (getTaskEnumFields cmp (Some schema)) = taskMatrixCombinationKey c' (getTaskEnumFields cmp (Some schema))"
  shows "map_of c = map_of c'"
proof -
  let ?efs = "getTaskEnumFields cmp (Some schema)"
  let ?vs = "\<lambda>c. map (\<lambda>e. case map_of c (fst e) of Some v \<Rightarrow> JStr v | None \<Rightarrow> JUndef) ?efs"
  have some: "\<exists>v. map_of c (fst e) = Some v \<and> code_units v" if ac: "assignment ?efs (map_of c)" and e: "e \<in> set ?efs" for c e
  proof -
    obtain v where v: "map_of c (fst e) = Some v" "v \<in> set (enum_values (snd e))" using ac e by (auto simp: assignment_def)
    then have "list_all safe_char v" using enum_fields(2) [OF assms(1) e] by (auto simp: list_all_iff)
    then have "code_units v" by (rule list.pred_mono_strong) (simp add: safe_char_def)
    then show ?thesis using v(1) by blast
  qed
  note a = combination_keys(2) [OF assms(1,2)] and a' = combination_keys(2) [OF assms(1,3)]
  have ok: "json_ok (JArr (?vs c))" if "assignment ?efs (map_of c)" for c
    using some [OF that] by (fastforce simp: list_all_iff)
  have "json_text (JArr (?vs c)) = json_text (JArr (?vs c'))" using assms(4) by (simp add: taskMatrixCombinationKey_def split_def)
  then have "JArr (?vs c) = JArr (?vs c')" using json_parse_text [OF ok [OF a]] json_parse_text [OF ok [OF a']] by simp
  then have eq: "map_of c (fst e) = map_of c' (fst e)" if "e \<in> set ?efs" for e
    using some [OF a that] some [OF a' that] that by (fastforce split: option.splits)
  show ?thesis
  proof
    fix f
    show "map_of c f = map_of c' f"
    proof (cases "f \<in> fst ` set ?efs")
      case True
      then show ?thesis using eq by force
    next
      case False
      then have "map_of c f = None" "map_of c' f = None" using a a' by (auto simp: assignment_def)
      then show ?thesis by simp
    qed
  qed
qed

section \<open>The table of combinations\<close>

lemma values_read:
  assumes "distinct (map fst (acc @ ps))"
    "\<And>p. p \<in> set ps \<Longrightarrow> \<exists>e. map_of schema (fst p) = Some e \<and> snd p \<in> set (enum_values e)"
  shows "values_by_field schema acc (map (\<lambda>(f, v). \<lparr>tc_field = f, tc_value = v\<rparr>) ps) = Some (acc @ ps)"
  using assms
proof (induction ps arbitrary: acc)
  case (Cons p ps)
  obtain e where "map_of schema (fst p) = Some e" "snd p \<in> set (enum_values e)" using Cons.prems(2) [of p] by auto
  moreover have "values_by_field schema (acc @ [p]) (map (\<lambda>(f, v). \<lparr>tc_field = f, tc_value = v\<rparr>) ps) = Some ((acc @ [p]) @ ps)"
    by (rule Cons.IH) (use Cons.prems in auto)
  ultimately show ?case using Cons.prems(1) by (cases p) auto
qed simp

lemma sorted_entries:
  assumes "distinct (map fst c)"
  shows "map_of (js_sort cmp c) = map_of c" "distinct (map fst (js_sort cmp c))"
proof -
  have "mset (map fst (js_sort cmp c)) = mset (map fst c)" by simp
  then show d: "distinct (map fst (js_sort cmp c))" using assms mset_eq_imp_distinct_iff by blast
  show "map_of (js_sort cmp c) = map_of c" using map_of_inject_set [OF d assms] by simp
qed

lemma row_key:
  assumes "schema_ok schema" "efs = getTaskEnumFields cmp (Some schema)" "c \<in> set (getTaskEnumCombinations cmp (Some schema))"
    "map_of vs = map_of c"
  shows "taskMatrixCombinationKey (obj_of (map (\<lambda>(f, _). (f, case map_of vs f of Some v \<Rightarrow> v | None \<Rightarrow> [])) efs)) efs = taskMatrixCombinationKey c efs"
proof (rule key_cong)
  fix e assume e: "e \<in> set efs"
  then obtain v where v: "map_of c (fst e) = Some v" using combination_keys(2) [OF assms(1,3)] assms(2) by (auto simp: assignment_def)
  have "map_of (obj_of (map (\<lambda>(f, _). (f, case map_of vs f of Some v \<Rightarrow> v | None \<Rightarrow> [])) efs)) (fst e) =
      Some (case map_of vs (fst e) of Some v \<Rightarrow> v | None \<Rightarrow> [])"
    using map_of_fields [OF enum_fields(1) [OF assms(1)], of e cmp] e assms(2) by simp
  then show "map_of (obj_of (map (\<lambda>(f, _). (f, case map_of vs f of Some v \<Rightarrow> v | None \<Rightarrow> [])) efs)) (fst e) = map_of c (fst e)"
    using v assms(4) by simp
qed

lemma table_read:
  assumes "schema_ok schema" "efs = getTaskEnumFields cmp (Some schema)"
    and "map tier_conditions ts = map (row_conditions cmp) rows"
    and "\<And>r. r \<in> set rows \<Longrightarrow> row_combination r \<in> set (getTaskEnumCombinations cmp (Some schema))"
    and "distinct (map fst acc @ map (\<lambda>r. taskMatrixCombinationKey (row_combination r) efs) rows)"
  shows "tiers_by_combination schema efs acc ts =
    Some (acc @ zip (map (\<lambda>r. taskMatrixCombinationKey (row_combination r) efs) rows) ts)"
  using assms(3-5)
proof (induction ts arbitrary: rows acc)
  case (Cons t ts)
  then obtain r rs where rows: "rows = r # rs" by (cases rows) auto
  have c: "row_combination r \<in> set (getTaskEnumCombinations cmp (Some schema))" using Cons.prems(2) rows by simp
  note k = combination_keys [OF assms(1) c]
  let ?vs = "js_sort (by_name cmp) (row_combination r)" and ?key = "taskMatrixCombinationKey (row_combination r) efs"
  have tc: "tier_conditions t = row_conditions cmp r" using Cons.prems(1) rows by simp
  have valid: "\<exists>e. map_of schema (fst p) = Some e \<and> snd p \<in> set (enum_values e)" if "p \<in> set ?vs" for p
    using row_conditions_valid [OF assms(1) c, of "\<lparr>tc_field = fst p, tc_value = snd p\<rparr>"] that
    by (force simp: row_conditions_def)
  have v: "values_by_field schema [] (tier_conditions t) = Some ?vs"
    using values_read [of "[]" ?vs schema] valid sorted_entries(2) [OF k(1)] by (simp add: tc row_conditions_def)
  have len: "length (tier_conditions t) = length efs" "length ?vs = length efs" using k(3) assms(2) by (simp_all add: tc row_conditions_def)
  have new: "?key \<notin> fst ` set acc" using Cons.prems(3) rows by auto
  have "tiers_by_combination schema efs (acc @ [(?key, t)]) ts =
      Some ((acc @ [(?key, t)]) @ zip (map (\<lambda>r. taskMatrixCombinationKey (row_combination r) efs) rs) ts)"
    by (rule Cons.IH) (use Cons.prems rows in auto)
  then show ?case
    using v len new row_key [OF assms(1,2) c sorted_entries(1) [OF k(1)]] by (simp add: rows Let_def)
qed simp

lemma missing_last:
  assumes "distinct (map k xs)" "xs \<noteq> []"
  shows "filter (\<lambda>x. k x \<notin> set (map k (butlast xs))) xs = [last xs]"
proof -
  obtain ys z where "xs = ys @ [z]" using assms(2) by (metis append_butlast_last_id)
  then show ?thesis using assms(1) by (auto simp: filter_empty_conv)
qed

lemma update_new: "k \<notin> fst ` set al \<Longrightarrow> AList.update k v al = al @ [(k, v)]"
  by (induction al) auto

lemma rows_read:
  assumes "length ts = length rows" "\<And>i. i < length rows \<Longrightarrow> map_of table (taskMatrixCombinationKey (row_combination (rows ! i)) efs) = Some (ts ! i) \<and>
      tier_row nfs (row_combination (rows ! i)) (ts ! i) = rows ! i"
  shows "rows_of efs nfs table (map row_combination rows) = Some rows"
  using assms
proof (induction rows arbitrary: ts)
  case (Cons r rows)
  have "rows_of efs nfs table (map row_combination rows) = Some rows"
  proof (rule Cons.IH [of "tl ts"])
    fix i assume "i < length rows"
    then show "map_of table (taskMatrixCombinationKey (row_combination (rows ! i)) efs) = Some (tl ts ! i) \<and>
        tier_row nfs (row_combination (rows ! i)) (tl ts ! i) = rows ! i"
      using Cons.prems(1) Cons.prems(2) [of "Suc i"] by (simp add: nth_tl)
  qed (use Cons.prems in simp)
  then show ?case using Cons.prems(2) [of 0] by simp
qed simp

section \<open>Reading a saved matrix\<close>

lemma chain_ok_iff: "chain_ok ts \<longleftrightarrow> ts \<noteq> [] \<and> (\<forall>t \<in> set (butlast ts). tier_conditions t \<noteq> []) \<and> tier_conditions (last ts) = []"
  by (induction ts rule: chain_ok.induct) auto

lemma label_safe:
  assumes "schema_ok schema" "c \<in> set (getTaskEnumCombinations cmp (Some schema))"
  shows "list_all safe_char (taskMatrixRowLabel cmp c)" "list_all safe_char (default_label i)"
proof -
  have v: "list_all safe_char v" if vc: "v \<in> snd ` set c" for v
  proof -
    obtain f where f: "(f, v) \<in> set c" using vc by auto
    then have "map_of c f = Some v" using combination_keys(1) [OF assms] by (simp add: map_of_is_SomeI)
    then obtain e where "e \<in> set (getTaskEnumFields cmp (Some schema))" "v \<in> set (enum_values (snd e))"
      using combination_keys(2) [OF assms] by (force simp: assignment_def)
    then show ?thesis using enum_fields(2) [OF assms(1)] by (auto simp: list_all_iff)
  qed
  have j: "list_all safe_char (join [183] vs)" if "\<And>v. v \<in> set vs \<Longrightarrow> list_all safe_char v" for vs
    using that by (induction vs rule: induct_list012) (auto simp: safe_char_def is_line_terminator_def)
  have "list_all safe_char (join [183] (map snd (js_sort (by_name cmp) c)))" by (rule j) (use v in auto)
  moreover have "list_all safe_char (js ''base'')" by (simp add: js_def safe_char_def is_line_terminator_def)
  ultimately show "list_all safe_char (taskMatrixRowLabel cmp c)" by (simp add: taskMatrixRowLabel_def Let_def)
  have "list_all safe_char (show_nat n)" for n
    using show_nat_digits by (auto simp: list_all_iff safe_char_def is_digit_def is_line_terminator_def) fastforce+
  then show "list_all safe_char (default_label i)"
    by (simp add: default_label_def js_def safe_char_def is_line_terminator_def)
qed

lemma normal_texts:
  assumes "core (normal_tier nfs efs i t) = core t" "list_all safe_char (tier_label t)" "list_all safe_char (default_label i)"
    "price_ok (tier_constant t)" "list_all (\<lambda>p. price_ok (snd p)) (tier_prices t)"
  shows "tier_texts_ok (normal_tier nfs efs i t)"
proof -
  have "tier_label (normal_tier nfs efs i t) = (if tier_label t \<noteq> [] then tier_label t else default_label i)" by (simp add: normal_tier_def)
  then show ?thesis using assms by (simp add: tier_texts_ok_def core_def)
qed

definition row_like :: "collation \<Rightarrow> usage_schema \<Rightarrow> task_row list \<Rightarrow> task_tier \<Rightarrow> bool" where
  "row_like cmp nfs rows t \<longleftrightarrow> list_all safe_char (tier_label t) \<and> (\<exists>r \<in> set rows. tier_constant t = row_constant r \<and>
     tier_prices t = filled_prices nfs (row_prices r) \<and> set (tier_conditions t) \<subseteq> set (row_conditions cmp r))"

lemma chain_ok_conditions:
  "chain_ok ts \<longleftrightarrow> map tier_conditions ts \<noteq> [] \<and> [] \<notin> set (butlast (map tier_conditions ts)) \<and> last (map tier_conditions ts) = []"
  by (cases "ts = []") (auto simp: chain_ok_iff map_butlast [symmetric] last_map image_iff)

lemma chain_ok_cong: "map tier_conditions ts = map tier_conditions us \<Longrightarrow> chain_ok ts = chain_ok us"
  by (simp only: chain_ok_conditions)

lemma conditions_core: "map tier_conditions ts = map fst (map core ts)"
  by (simp add: core_def)

lemma map_core_parts:
  "map core ts = map core us \<Longrightarrow> map tier_conditions ts = map tier_conditions us \<and> length ts = length us"
proof -
  assume eq: "map core ts = map core us"
  then show ?thesis using map_eq_imp_length_eq [OF eq] by (simp only: conditions_core)
qed

lemma saved_tiers:
  assumes "schema_ok schema" "nfs = getTaskNumberFields cmp (Some schema)" "nfs \<noteq> []" "list_all (row_ok nfs) rows"
    and "\<And>r. r \<in> set rows \<Longrightarrow> row_combination r \<in> set (getTaskEnumCombinations cmp (Some schema))"
    and "chain_ok ts0" "list_all (row_like cmp nfs rows) ts0"
  shows "\<exists>ts. parseTaskTiersFromExpr (generateTaskExprFromConfig cmp (Some \<lparr>config_tiers = ts0\<rparr>) schema) (Some schema) = ts \<and>
    map core ts = map core ts0"
proof -
  let ?f = "normal_tier nfs (getTaskEnumFields cmp (Some schema))"
  let ?ts = "map_indexed ?f 0 ts0"
  have ne: "ts0 \<noteq> []" using assms(6) by auto
  have each: "core (?f i t) = core t \<and> tier_texts_ok (?f i t)" if t: "t \<in> set ts0" for i t
  proof -
    obtain r where r: "r \<in> set rows" "tier_constant t = row_constant r" "tier_prices t = filled_prices nfs (row_prices r)"
      "set (tier_conditions t) \<subseteq> set (row_conditions cmp r)" and l: "list_all safe_char (tier_label t)"
      using assms(7) t by (auto simp: list_all_iff row_like_def)
    have ok: "row_ok nfs r" using assms(4) r(1) by (simp add: list_all_iff)
    have c: "core (?f i t) = core t" by (rule normal_core [OF assms(1-3) ok assms(5) [OF r(1)] r(2-4)])
    have "price_ok (tier_constant t)" "list_all (\<lambda>p. price_ok (snd p)) (tier_prices t)" using ok r(2,3) by (simp_all add: row_ok_def)
    then show ?thesis using normal_texts [OF c l label_safe(2) [OF assms(1) assms(5) [OF r(1)]]] c by simp
  qed
  have core: "map core ?ts = map core ts0" by (rule map_indexed_core) (use each in blast)
  have texts: "list_all tier_texts_ok ?ts" using map_indexed_elem each by (fastforce simp: list_all_iff)
  have "chain_ok ?ts" using chain_ok_cong map_core_parts [OF core] assms(6) by blast
  moreover have "config_tiers (normalizeTaskVisualConfig cmp (Some \<lparr>config_tiers = ts0\<rparr>) schema) = ?ts"
    using ne assms(2) by (simp add: normalizeTaskVisualConfig_def)
  ultimately have "parseTaskTiersFromExpr (generateTaskExprFromConfig cmp (Some \<lparr>config_tiers = ts0\<rparr>) schema) (Some schema) = ?ts"
    using generated_read [OF assms(1), of cmp "\<lparr>config_tiers = ts0\<rparr>" ?ts] assms(2,3) ne texts by simp
  then show ?thesis using core by blast
qed

lemma row_keys_distinct:
  assumes "schema_ok schema" "enums_distinct schema" "matrix_ok cmp schema cfg"
  shows "distinct (map (\<lambda>r. taskMatrixCombinationKey (row_combination r) (getTaskEnumFields cmp (Some schema))) (matrix_rows cfg))"
proof -
  have "inj_on (\<lambda>r. taskMatrixCombinationKey (row_combination r) (getTaskEnumFields cmp (Some schema))) (set (matrix_rows cfg))"
  proof (rule inj_onI)
    fix r s assume r: "r \<in> set (matrix_rows cfg)" "s \<in> set (matrix_rows cfg)"
      and k: "taskMatrixCombinationKey (row_combination r) (getTaskEnumFields cmp (Some schema)) =
        taskMatrixCombinationKey (row_combination s) (getTaskEnumFields cmp (Some schema))"
    have "map_of (row_combination r) = map_of (row_combination s)"
      by (rule key_injective [OF assms(1) _ _ k]) (use r rows_distinct(2) [OF assms] in blast)+
    then show "r = s" using rows_distinct(1) [OF assms] r by (auto simp: distinct_map inj_on_def)
  qed
  then show ?thesis using rows_distinct(1) [OF assms] by (simp add: distinct_map)
qed

lemma zip_snoc: "length xs = length ys \<Longrightarrow> xs \<noteq> [] \<Longrightarrow> zip (butlast xs) (butlast ys) @ [(last xs, last ys)] = zip xs ys"
  by (induction xs ys rule: list_induct2) auto

lemma core_charges:
  assumes "map core ts = map (row_core cmp) (butlast rows) @ [([], snd (row_core cmp (last rows)))]" "rows \<noteq> []"
  shows "map (\<lambda>t. snd (core t)) ts = map (\<lambda>r. snd (row_core cmp r)) rows" "length ts = length rows"
    "map tier_conditions (butlast ts) = map (row_conditions cmp) (butlast rows)"
proof -
  have "map (\<lambda>t. snd (core t)) ts = map snd (map core ts)" by simp
  also have "\<dots> = map (\<lambda>r. snd (row_core cmp r)) (butlast rows @ [last rows])" unfolding assms(1) by simp
  also have "\<dots> = map (\<lambda>r. snd (row_core cmp r)) rows" by (simp only: append_butlast_last_id [OF assms(2)])
  finally show eq: "map (\<lambda>t. snd (core t)) ts = map (\<lambda>r. snd (row_core cmp r)) rows" .
  show "length ts = length rows" by (rule map_eq_imp_length_eq [OF eq])
  have "tier_conditions = fst \<circ> core" "row_conditions cmp = fst \<circ> row_core cmp" by (auto simp: core_def row_core_def)
  moreover have "map core (butlast ts) = map (row_core cmp) (butlast rows)" using assms(1) by (metis butlast_snoc map_butlast)
  ultimately show "map tier_conditions (butlast ts) = map (row_conditions cmp) (butlast rows)" by (metis map_map)
qed

text \<open>What is left of reading once the tiers of the rows are known.\<close>

lemma table_rows:
  assumes "schema_ok schema" "enums_distinct schema" "matrix_ok cmp schema cfg"
    and "efs = getTaskEnumFields cmp (Some schema)" "rows = matrix_rows cfg" "rows \<noteq> []" "list_all (row_ok nfs) rows"
    and "map core ts = map (row_core cmp) (butlast rows) @ [([], snd (row_core cmp (last rows)))]"
  shows "\<exists>table. tiers_by_combination schema efs [] (butlast ts) = Some table \<and>
    filter (\<lambda>c. taskMatrixCombinationKey c efs \<notin> fst ` set table) (map row_combination rows) = [row_combination (last rows)] \<and>
    rows_of efs nfs (AList.update (taskMatrixCombinationKey (row_combination (last rows)) efs) (last ts) table) (map row_combination rows) = Some rows"
proof -
  let ?k = "\<lambda>r. taskMatrixCombinationKey (row_combination r) efs" and ?bs = "map (\<lambda>r. taskMatrixCombinationKey (row_combination r) efs) (butlast rows)"
  note parts = core_charges [OF assms(8,6)]
  have dk: "distinct (map ?k rows)" using row_keys_distinct [OF assms(1-3)] assms(4,5) by simp
  have table: "tiers_by_combination schema efs [] (butlast ts) = Some (zip ?bs (butlast ts))"
    using table_read [OF assms(1,4) parts(3), of "[]"] rows_distinct(2) [OF assms(1-3)] dk assms(5)
    by (simp add: in_set_butlastD map_butlast distinct_butlast)
  have keys: "fst ` set (zip ?bs (butlast ts)) = set ?bs"
    using parts(2) by (metis length_butlast length_map list.set_map map_fst_zip)
  have missing: "filter (\<lambda>c. taskMatrixCombinationKey c efs \<notin> fst ` set (zip ?bs (butlast ts))) (map row_combination rows) = [row_combination (last rows)]"
    using missing_last [OF dk assms(6)] by (simp add: keys filter_map comp_def)
  have "?k (last rows) \<notin> set ?bs"
    using dk assms(6) by (cases rows rule: rev_cases) auto
  then have "AList.update (?k (last rows)) (last ts) (zip ?bs (butlast ts)) = zip ?bs (butlast ts) @ [(?k (last rows), last ts)]"
    by (intro update_new) (unfold keys, assumption)
  also have "\<dots> = zip (map ?k rows) ts"
    using zip_snoc [of "map ?k rows" ts] parts(2) assms(6) by (simp add: map_butlast last_map)
  finally have upd: "AList.update (?k (last rows)) (last ts) (zip ?bs (butlast ts)) = zip (map ?k rows) ts" .
  have "rows_of efs nfs (zip (map ?k rows) ts) (map row_combination rows) = Some rows"
  proof (rule rows_read [OF parts(2)], intro conjI)
    fix i assume i: "i < length rows"
    show "map_of (zip (map ?k rows) ts) (?k (rows ! i)) = Some (ts ! i)"
      using map_of_zip_nth [of "map ?k rows" ts i] dk parts(2) i by simp
    have "snd (core (ts ! i)) = snd (row_core cmp (rows ! i))" using arg_cong [OF parts(1), of "\<lambda>xs. xs ! i"] i parts(2) by simp
    moreover have "row_ok nfs (rows ! i)" using assms(7) i by (simp add: list_all_length)
    ultimately show "tier_row nfs (row_combination (rows ! i)) (ts ! i) = rows ! i"
      by (simp add: tier_row_def core_def row_core_def row_ok_def)
  qed
  then show ?thesis using table missing upd by auto
qed

lemma record_row: "row_combination r = c \<Longrightarrow> row_constant r = k \<Longrightarrow> row_prices r = ps \<Longrightarrow>
    \<lparr>row_combination = c, row_constant = k, row_prices = ps\<rparr> = r"
  by auto

lemma uniform_read:
  assumes "list_all (\<lambda>r. same_row nfs r first) rows" "list_all (row_ok nfs) rows" "first \<in> set rows"
    "tier_constant t = row_constant first" "tier_prices t = filled_prices nfs (row_prices first)"
  shows "map (\<lambda>c. tier_row nfs c t) (map row_combination rows) = rows"
proof -
  have "tier_row nfs (row_combination r) t = r" if r: "r \<in> set rows" for r
  proof -
    have same: "row_constant r = row_constant first" "filled_prices nfs (row_prices r) = filled_prices nfs (row_prices first)"
      using same_row_charge assms(1) r by (auto simp: list_all_iff)
    have "filled_prices nfs (row_prices first) = row_prices first" "filled_prices nfs (row_prices r) = row_prices r"
      using assms(2,3) r by (auto simp: list_all_iff row_ok_def)
    then show ?thesis unfolding tier_row_def using same assms(4,5) by (intro record_row) simp_all
  qed
  then show ?thesis by (simp add: map_idI)
qed

lemma combinations_nonempty: "getTaskEnumCombinations cmp (Some schema) \<noteq> []"
proof -
  have "enum_values (snd e) \<noteq> []" if "e \<in> set (getTaskEnumFields cmp (Some schema))" for e
    using that by (auto simp: getTaskEnumFields_def enum_values_def split: option.splits)
  then have "prod_list (map (\<lambda>e. length (enum_values (snd e))) (getTaskEnumFields cmp (Some schema))) \<noteq> 0" by (auto simp: prod_list_zero_iff)
  then have "length (getTaskEnumCombinations cmp (Some schema)) \<noteq> 0"
    using combinations_length [of "[[]]" "getTaskEnumFields cmp (Some schema)"] by (simp add: getTaskEnumCombinations_def)
  then show ?thesis by auto
qed

lemma several_enums:
  assumes "schema_ok schema" "matrix_ok cmp schema cfg" "length (matrix_rows cfg) \<noteq> 1" "r \<in> set (matrix_rows cfg)"
  shows "row_conditions cmp r \<noteq> []"
proof
  assume "row_conditions cmp r = []"
  then have "row_combination r = []" by (simp add: row_conditions_def) (metis length_0_conv length_js_sort)
  moreover have "row_combination r \<in> set (getTaskEnumCombinations cmp (Some schema))"
    using assms(2,4) by (metis image_eqI matrix_ok_def set_map)
  ultimately have "getTaskEnumFields cmp (Some schema) = []" using combination_keys(3) [OF assms(1)] by fastforce
  then have "length (matrix_rows cfg) = 1"
    using assms(2) by (metis foldl_Nil getTaskEnumCombinations_def length_map length_Cons list.size(3) matrix_ok_def One_nat_def)
  then show False using assms(3) by simp
qed

lemma same_row_refl: "row_ok nfs r \<Longrightarrow> same_row nfs r r"
proof -
  assume r: "row_ok nfs r"
  have nan: "v \<noteq> NaN" if "price_ok v" for v using that by (auto simp: price_ok_def bad_price_def)
  have "v \<noteq> NaN" if "map_of (row_prices r) f = Some v" for f v
    using map_of_SomeD [OF that] r nan [of v] by (fastforce simp: row_ok_def list_all_iff)
  then show ?thesis using r nan by (auto simp: same_row_def same_price_def num_eq_def row_ok_def list_all_iff split: option.split)
qed

definition saved_text :: "collation \<Rightarrow> usage_schema \<Rightarrow> task_matrix \<Rightarrow> jstr" where
  "saved_text cmp schema cfg = generateTaskExprFromConfig cmp (Some \<lparr>config_tiers = taskMatrixToTiers cmp cfg schema\<rparr>) schema"

lemma uniform_matrix_read:
  assumes "schema_ok schema" "n = getTaskNumberFields cmp (Some schema)" "n \<noteq> []" "matrix_ok cmp schema cfg"
    and "list_all (row_ok n) (matrix_rows cfg)" "matrix_rows cfg = first # rest" "list_all (\<lambda>row. same_row n row first) (matrix_rows cfg)"
  shows "tryParseTaskMatrixConfig cmp (Some (saved_text cmp schema cfg)) schema = Some cfg"
proof -
  let ?rows = "matrix_rows cfg" and ?ts0 = "taskMatrixToTiers cmp cfg schema"
  have combos: "getTaskEnumCombinations cmp (Some schema) = map row_combination ?rows" using assms(4) by (simp add: matrix_ok_def)
  have t0: "?ts0 = [\<lparr>tier_label = js ''base'', tier_conditions = [], tier_constant = row_constant first, tier_prices = filled_prices n (row_prices first)\<rparr>]"
    using assms(2,3,6,7) by (simp add: taskMatrixToTiers_def Let_def)
  have "list_all safe_char (js ''base'')" by (simp add: js_def safe_char_def is_line_terminator_def)
  then have "row_like cmp n ?rows (hd ?ts0)" by (auto simp: t0 row_like_def assms(6))
  moreover have "row_combination r \<in> set (getTaskEnumCombinations cmp (Some schema))" if "r \<in> set ?rows" for r using that combos by simp
  ultimately obtain t where t: "parseTaskTiersFromExpr (saved_text cmp schema cfg) (Some schema) = [t]" "core t = core (hd ?ts0)"
    using saved_tiers [OF assms(1-3,5), of ?ts0] by (auto simp: t0 saved_text_def)
  then have "saved_text cmp schema cfg \<noteq> []" by (auto simp: parseTaskTiersFromExpr_def)
  then show ?thesis using t uniform_read [OF assms(7,5), of t] assms(2,6)
    by (simp add: tryParseTaskMatrixConfig_def combos Let_def core_def t0)
qed

lemma several_matrix_read:
  assumes "schema_ok schema" "enums_distinct schema" "matrix_ok cmp schema cfg" "n = getTaskNumberFields cmp (Some schema)" "n \<noteq> []"
    and "list_all (row_ok n) (matrix_rows cfg)" "matrix_rows cfg = first # rest" "\<not> list_all (\<lambda>row. same_row n row first) (matrix_rows cfg)"
  shows "tryParseTaskMatrixConfig cmp (Some (saved_text cmp schema cfg)) schema = Some cfg"
proof -
  let ?rows = "matrix_rows cfg" and ?ts0 = "taskMatrixToTiers cmp cfg schema" and ?e = "saved_text cmp schema cfg"
  have combos: "getTaskEnumCombinations cmp (Some schema) = map row_combination ?rows" using assms(3) by (simp add: matrix_ok_def)
  have ne: "?rows \<noteq> []" by (simp add: assms(7))
  have many: "length ?rows \<noteq> 1" using assms(6-8) same_row_refl by (cases rest) auto
  have t0: "?ts0 = row_tiers cmp n ?rows" using assms(4,5,8) by (auto simp: taskMatrixToTiers_def Let_def assms(7))
  note core0 = row_tiers_core [OF ne assms(6), of cmp]
  have "map tier_conditions ?ts0 = map (row_conditions cmp) (butlast ?rows) @ [[]]"
    unfolding conditions_core t0 core0 by (simp add: row_core_def)
  moreover have "[] \<notin> set (map (row_conditions cmp) (butlast ?rows))"
    using several_enums [OF assms(1,3) many] by (metis (no_types, lifting) imageE in_set_butlastD list.set_map)
  ultimately have chain: "chain_ok ?ts0" by (simp add: chain_ok_conditions)
  have "row_like cmp n ?rows t" if "t \<in> set ?ts0" for t
    using row_tiers_elem [of t cmp n ?rows] that label_safe(1) [OF assms(1)] rows_distinct(2) [OF assms(1-3)] unfolding t0 row_like_def by metis
  then obtain ts where ts: "parseTaskTiersFromExpr ?e (Some schema) = ts" "map core ts = map core (row_tiers cmp n ?rows)"
    using saved_tiers [OF assms(1,4-6) rows_distinct(2) [OF assms(1-3)] chain] t0 by (auto simp: list_all_iff saved_text_def)
  have core: "map core ts = map (row_core cmp) (butlast ?rows) @ [([], snd (row_core cmp (last ?rows)))]" using ts(2) core0 by simp
  have len: "length ts = length ?rows" by (rule core_charges(2) [OF core ne])
  then have ts': "ts \<noteq> []" using ne by auto
  then have "tier_conditions (last ts) = []" using arg_cong [OF core, of last] by (simp add: last_map core_def)
  moreover have "?e \<noteq> []" using ts(1) ts' by (auto simp: parseTaskTiersFromExpr_def)
  ultimately show ?thesis using table_rows [OF assms(1-3) refl refl ne assms(6) core] ts(1) ts' len many assms(4)
    by (auto simp: tryParseTaskMatrixConfig_def combos Let_def)
qed

text \<open>
  C15: A price matrix survives saving.  For a schema with plain, distinct names and values and a
  matrix with one row per combination and readable prices, saving the tiers of the matrix as an
  expression and opening the matrix editor on that expression gives exactly the same rows.
\<close>

theorem matrix_roundtrip:
  assumes "schema_ok schema" "enums_distinct schema" "getTaskNumberFields cmp (Some schema) \<noteq> []" "matrix_ok cmp schema cfg"
    and "list_all (row_ok (getTaskNumberFields cmp (Some schema))) (matrix_rows cfg)"
  shows "tryParseTaskMatrixConfig cmp (Some (generateTaskExprFromConfig cmp
      (Some \<lparr>config_tiers = taskMatrixToTiers cmp cfg schema\<rparr>) schema)) schema = Some cfg"
proof -
  have "matrix_rows cfg \<noteq> []" using combinations_nonempty [of cmp schema] assms(4) by (auto simp: matrix_ok_def)
  then obtain first rest where rows: "matrix_rows cfg = first # rest" by (cases "matrix_rows cfg") auto
  show ?thesis
    using uniform_matrix_read [OF assms(1) refl assms(3-5) rows] several_matrix_read [OF assms(1,2,4) refl assms(3,5) rows]
    unfolding saved_text_def by blast
qed

theorem matrix_roundtrip_witness:
  "tryParseTaskMatrixConfig unit_order (Some (js ''u(\"quality\") == \"hd\" ? tier(\"hd\", 1 + u(\"seconds\") * 3 + u(\"tokens\") * 0 / 1000000) : tier(\"sd\", u(\"seconds\") * 2 + u(\"tokens\") * 5 / 1000000)'')) sample_schema
     = Some sample_matrix"
proof -
  have "schema_ok sample_schema" "enums_distinct sample_schema" "getTaskNumberFields unit_order (Some sample_schema) \<noteq> []"
    "matrix_ok unit_order sample_schema sample_matrix"
    "list_all (row_ok (getTaskNumberFields unit_order (Some sample_schema))) (matrix_rows sample_matrix)" by code_simp+
  note m = matrix_roundtrip [OF this]
  have "generateTaskExprFromConfig unit_order (Some \<lparr>config_tiers = taskMatrixToTiers unit_order sample_matrix sample_schema\<rparr>) sample_schema =
      js ''u(\"quality\") == \"hd\" ? tier(\"hd\", 1 + u(\"seconds\") * 3 + u(\"tokens\") * 0 / 1000000) : tier(\"sd\", u(\"seconds\") * 2 + u(\"tokens\") * 5 / 1000000)''"
    by code_simp
  with m show ?thesis by (simp only:)
qed

end
