(* ===== verification/JsRegex.thy ===== *)
theory JsRegex
  imports BillingRules
begin

text \<open>
  Regular expressions that backtrack.  A matcher returns every way to match a prefix of the text, in
  the order in which JavaScript tries them, with what is left; the first one is the match.  Quantifiers
  over a character class are greedy, so longer prefixes come first.
\<close>

type_synonym 'a matcher = "jstr \<Rightarrow> ('a \<times> jstr) list"

definition m_lit :: "string \<Rightarrow> unit matcher" where
  "m_lit p s = (case lit p s of Some r \<Rightarrow> [((), r)] | None \<Rightarrow> [])"

text \<open>\<open>[...]*\<close> and \<open>[...]+\<close>.\<close>

definition prefixes_down :: "nat \<Rightarrow> nat \<Rightarrow> jstr \<Rightarrow> (jstr \<times> jstr) list" where
  "prefixes_down lo hi s = map (\<lambda>n. (take n s, drop n s)) (rev [lo..<Suc hi])"

definition m_star :: "(jchar \<Rightarrow> bool) \<Rightarrow> jstr matcher" where
  "m_star f s = prefixes_down 0 (length (takeWhile f s)) s"

definition m_plus :: "(jchar \<Rightarrow> bool) \<Rightarrow> jstr matcher" where
  "m_plus f s = prefixes_down 1 (length (takeWhile f s)) s"

definition m_then :: "'a matcher \<Rightarrow> ('a \<Rightarrow> 'b matcher) \<Rightarrow> 'b matcher" where
  "m_then p f s = concat (map (\<lambda>(x, r). f x r) (p s))"

definition m_return :: "'a \<Rightarrow> 'a matcher" where
  "m_return x s = [(x, s)]"

definition m_seq :: "'a matcher \<Rightarrow> 'b matcher \<Rightarrow> 'b matcher" where
  "m_seq p q = m_then p (\<lambda>_. q)"

text \<open>\<open>(?:...)?\<close> and alternatives.\<close>

definition m_opt :: "'a matcher \<Rightarrow> 'a option matcher" where
  "m_opt p s = map (\<lambda>(x, r). (Some x, r)) (p s) @ [(None, s)]"

definition m_alt :: "string list \<Rightarrow> string matcher" where
  "m_alt ps s = concat (map (\<lambda>p. m_seq (m_lit p) (m_return p) s) ps)"

text \<open>\<open>(?:...)*\<close>; an iteration that consumes nothing is not repeated.\<close>

function m_many :: "'a matcher \<Rightarrow> 'a list matcher" where
  "m_many p s = concat (map (\<lambda>(x, r). if length r < length s then map (\<lambda>(xs, r'). (x # xs, r')) (m_many p r) else []) (p s)) @ [([], s)]"
  by pat_completeness auto
termination by (relation "measure (\<lambda>(p, s). length s)") auto

declare m_many.simps [simp del]

definition m_ws :: "jstr matcher" where
  "m_ws = m_star is_ws"

definition m_first :: "'a matcher \<Rightarrow> jstr \<Rightarrow> ('a \<times> jstr) option" where
  "m_first p s = (case p s of [] \<Rightarrow> None | x # _ \<Rightarrow> Some x)"

definition is_word :: "jchar \<Rightarrow> bool" where
  "is_word c \<longleftrightarrow> is_digit c \<or> 65 \<le> c \<and> c \<le> 90 \<or> 97 \<le> c \<and> c \<le> 122 \<or> c = 95"

text \<open>
  The matches of a global expression from left to right.  The matcher is told whether the character
  before the position is a word character, for \<open>\b\<close>.
\<close>

function exec_all :: "(bool \<Rightarrow> 'a matcher) \<Rightarrow> bool \<Rightarrow> jstr \<Rightarrow> 'a list" where
  "exec_all m w [] = []"
| "exec_all m w (c # s) = (case m_first (m w) (c # s) of
     Some (x, r) \<Rightarrow> (if length r < length (c # s)
       then x # exec_all m (is_word ((c # s) ! (length (c # s) - length r - 1))) r else exec_all m (is_word c) s)
   | None \<Rightarrow> exec_all m (is_word c) s)"
  by pat_completeness auto
termination by (relation "measure (\<lambda>(m, w, s). length s)") auto

section \<open>The first match\<close>

definition wins :: "'a matcher \<Rightarrow> jstr \<Rightarrow> 'a \<Rightarrow> jstr \<Rightarrow> bool" where
  "wins p s x r \<longleftrightarrow> p s \<noteq> [] \<and> hd (p s) = (x, r)"

lemma wins_first: "wins p s x r \<Longrightarrow> m_first p s = Some (x, r)"
  by (cases "p s") (auto simp: wins_def m_first_def)

lemma wins_then: "wins p s x r \<Longrightarrow> wins (f x) r y t \<Longrightarrow> wins (m_then p f) s y t"
  by (cases "p s") (auto simp: wins_def m_then_def)

lemma wins_seq: "wins p s x r \<Longrightarrow> wins q r y t \<Longrightarrow> wins (m_seq p q) s y t"
  by (simp add: m_seq_def wins_then)

lemma wins_return: "wins (m_return x) s x s"
  by (simp add: wins_def m_return_def)

lemma wins_lit: "wins (m_lit p) (js p @ r) () r"
  by (simp add: wins_def m_lit_def lit_def js_def)

lemma wins_opt: "wins p s x r \<Longrightarrow> wins (m_opt p) s (Some x) r"
  by (cases "p s") (auto simp: wins_def m_opt_def)

lemma wins_skip: "p s = [] \<Longrightarrow> wins (m_opt p) s None s"
  by (simp add: wins_def m_opt_def)

lemma hd_prefixes: "lo \<le> hi \<Longrightarrow> prefixes_down lo hi s \<noteq> [] \<and> hd (prefixes_down lo hi s) = (take hi s, drop hi s)"
  by (simp add: prefixes_down_def)

lemma takeWhile_run: "list_all f a \<Longrightarrow> b = [] \<or> \<not> f (hd b) \<Longrightarrow> takeWhile f (a @ b) = a"
  by (induction a) (cases b, auto)

lemma wins_star: "list_all f a \<Longrightarrow> b = [] \<or> \<not> f (hd b) \<Longrightarrow> wins (m_star f) (a @ b) a b"
  using hd_prefixes [of 0 "length a" "a @ b"] by (simp add: wins_def m_star_def takeWhile_run)

lemma wins_plus: "list_all f a \<Longrightarrow> a \<noteq> [] \<Longrightarrow> b = [] \<or> \<not> f (hd b) \<Longrightarrow> wins (m_plus f) (a @ b) a b"
  using hd_prefixes [of 1 "length a" "a @ b"] by (simp add: wins_def m_plus_def takeWhile_run Suc_le_eq)

lemma wins_many_stop: "p s = [] \<Longrightarrow> wins (m_many p) s [] s"
  by (simp add: wins_def m_many.simps [of p s])

lemma wins_many_step: "wins p s x r \<Longrightarrow> length r < length s \<Longrightarrow> wins (m_many p) r xs t \<Longrightarrow> wins (m_many p) s (x # xs) t"
  by (cases "p s"; cases "m_many p r") (auto simp: wins_def m_many.simps [of p s])

lemma fails_then: "(\<And>x r. (x, r) \<in> set (p s) \<Longrightarrow> f x r = []) \<Longrightarrow> m_then p f s = []"
  by (auto simp: m_then_def)

lemma fails_lit: "lit p s = None \<Longrightarrow> m_lit p s = []"
  by (simp add: m_lit_def)

end
