(* ===== verification/BillingTiers.thy ===== *)
theory BillingTiers
  imports JsRegex TaskTiers
begin

text \<open>
  Token pricing: the registry of billing variables and the tier parser of
  \<open>features/pricing/lib/billing-expr.ts\<close>, and the visual tier editor of \<open>tier-expr.ts\<close>, which
  writes an expression from a list of tiers and reads one back.  A visual tier is an open record of the
  source, so it is an object value here.  The expressions of the source backtrack and are matchers of
  \<open>JsRegex\<close>, in the order of the alternatives the source gives.
\<close>

section \<open>Variables\<close>

datatype var_side = InputSide | OutputSide | ConditionSide

record billing_var =
  var_key :: string
  var_field :: "string option"
  var_tierField :: "string option"
  var_label :: string
  var_shortLabel :: string
  var_side :: var_side
  isBase :: bool
  isConditionOnly :: bool
  var_group :: "string option"

definition priced :: "string \<Rightarrow> string \<Rightarrow> string \<Rightarrow> string \<Rightarrow> string \<Rightarrow> var_side \<Rightarrow> bool \<Rightarrow> string option \<Rightarrow> billing_var" where
  "priced k f t l sl sd base g = \<lparr>var_key = k, var_field = Some f, var_tierField = Some t, var_label = l, var_shortLabel = sl,
     var_side = sd, isBase = base, isConditionOnly = False, var_group = g\<rparr>"

definition BILLING_VARS :: "billing_var list" where
  "BILLING_VARS =
     [priced ''p'' ''inputPrice'' ''input_unit_cost'' ''Input price'' ''Input'' InputSide True None,
      priced ''c'' ''outputPrice'' ''output_unit_cost'' ''Completion price'' ''Output'' OutputSide True None,
      \<lparr>var_key = ''len'', var_field = None, var_tierField = None, var_label = ''Input length'', var_shortLabel = ''Length'',
        var_side = ConditionSide, isBase = False, isConditionOnly = True, var_group = None\<rparr>,
      priced ''cr'' ''cacheReadPrice'' ''cache_read_unit_cost'' ''Cache read price'' ''Cache Read'' InputSide False (Some ''cache''),
      priced ''cc'' ''cacheCreatePrice'' ''cache_create_unit_cost'' ''Cache create price'' ''Cache Write'' InputSide False (Some ''cache''),
      priced ''cc1h'' ''cacheCreate1hPrice'' ''cache_create_1h_unit_cost'' ''Cache create (1h) price'' ''Cache Write (1h)'' InputSide False (Some ''cache''),
      priced ''img'' ''imagePrice'' ''image_unit_cost'' ''Image input price'' ''Image In'' InputSide False (Some ''media''),
      priced ''img_o'' ''imageOutputPrice'' ''image_output_unit_cost'' ''Image output price'' ''Image Out'' OutputSide False (Some ''media''),
      priced ''ai'' ''audioInputPrice'' ''audio_input_unit_cost'' ''Audio input price'' ''Audio In'' InputSide False (Some ''media''),
      priced ''ao'' ''audioOutputPrice'' ''audio_output_unit_cost'' ''Audio output price'' ''Audio Out'' OutputSide False (Some ''media'')]"

definition BILLING_PRICING_VARS :: "billing_var list" where
  "BILLING_PRICING_VARS = filter (\<lambda>v. \<not> isConditionOnly v) BILLING_VARS"

definition BILLING_CONDITION_VARS :: "string list" where
  "BILLING_CONDITION_VARS = map var_key (filter (\<lambda>v. isBase v \<or> isConditionOnly v) BILLING_VARS)"

definition BILLING_VAR_KEY_TO_FIELD :: "(string \<times> string) list" where
  "BILLING_VAR_KEY_TO_FIELD = map (\<lambda>v. (var_key v, the (var_field v))) BILLING_PRICING_VARS"

definition BILLING_EXTRA_VARS :: "billing_var list" where
  "BILLING_EXTRA_VARS = filter (\<lambda>v. \<not> isBase v \<and> \<not> isConditionOnly v) BILLING_VARS"

text \<open>Pairs of the tier field and the variable of the expression.\<close>

definition BILLING_CACHE_VAR_MAP :: "(string \<times> string) list" where
  "BILLING_CACHE_VAR_MAP = map (\<lambda>v. (the (var_tierField v), var_key v)) BILLING_EXTRA_VARS"

section \<open>The tier parser\<close>

text \<open>\<open>v\s*\*\s*([\d.eE+-]+)\<close> after the variable.\<close>

definition m_times :: "jstr matcher" where
  "m_times = m_seq m_ws (m_seq (m_lit ''*'') (m_seq m_ws (m_plus is_num_char)))"

definition BILLING_VAR_REGEX :: "bool \<Rightarrow> (string \<times> jstr) matcher" where
  "BILLING_VAR_REGEX w = (if w then (\<lambda>_. []) else
     m_then (m_alt (map var_key BILLING_PRICING_VARS)) (\<lambda>v. m_then m_times (\<lambda>x. m_return (v, x))))"

text \<open>\<open>if (!(m[1] in coeffs)) coeffs[m[1]] = Number(m[2])\<close>; no variable is named like a member of an object.\<close>

definition add_coeff :: "(string \<times> jsnum) list \<Rightarrow> string \<times> jstr \<Rightarrow> (string \<times> jsnum) list" where
  "add_coeff coeffs m = (if fst m \<in> fst ` set coeffs then coeffs else coeffs @ [(fst m, Number (snd m))])"

definition coeff_or_zero :: "(string \<times> jsnum) list \<Rightarrow> string \<Rightarrow> jsnum" where
  "coeff_or_zero coeffs v = (case map_of coeffs v of Some x \<Rightarrow> if num_truthy x then x else Fin 0 | None \<Rightarrow> Fin 0)"

definition parseTierBody :: "jstr \<Rightarrow> (string \<times> jsnum) list" where
  "parseTierBody bodyStr = (let coeffs = foldl add_coeff [] (exec_all BILLING_VAR_REGEX False bodyStr) in
     map (\<lambda>(varName, field). (field, coeff_or_zero coeffs varName)) BILLING_VAR_KEY_TO_FIELD)"

record tier_condition =
  cond_var :: string
  cond_op :: string
  cond_value :: jsnum

record parsed_tier =
  prices :: "(string \<times> jsnum) list"
  parsed_label :: jstr
  parsed_conditions :: "tier_condition list"

text \<open>The class \<open>[\d.eE+]\<close>.\<close>

definition is_bound_char :: "jchar \<Rightarrow> bool" where
  "is_bound_char c \<longleftrightarrow> is_digit c \<or> c = 46 \<or> c = 101 \<or> c = 69 \<or> c = 43"

definition CONDITION_OPS :: "string list" where
  "CONDITION_OPS = [''<'', ''<='', ''>'', ''>='']"

text \<open>\<open>(p|c|len)\s*(<|<=|>|>=)\s*([\d.eE+]+)\<close>\<close>

definition m_comparison :: "(string \<times> string \<times> jstr) matcher" where
  "m_comparison = m_then (m_alt [''p'', ''c'', ''len'']) (\<lambda>v. m_seq m_ws (m_then (m_alt CONDITION_OPS) (\<lambda>p.
     m_seq m_ws (m_then (m_plus is_bound_char) (\<lambda>x. m_return (v, p, x))))))"

text \<open>The text a matcher consumes, for a capturing group.\<close>

definition m_text :: "'a matcher \<Rightarrow> jstr matcher" where
  "m_text p s = map (\<lambda>(x, r). (take (length s - length r) s, r)) (p s)"

definition condGroup :: "jstr matcher" where
  "condGroup = m_text (m_seq m_comparison (m_many (m_seq m_ws (m_seq (m_lit ''&&'') (m_seq m_ws m_comparison)))))"

text \<open>The optional condition with its question mark, and the call up to the body.\<close>

definition m_condition :: "jstr option matcher" where
  "m_condition = m_opt (m_then condGroup (\<lambda>t. m_seq m_ws (m_seq (m_lit ''?'') (m_seq m_ws (m_return t)))))"

definition m_label :: "jstr matcher" where
  "m_label = m_seq (m_lit (''tier('' @ [CHR 0x22])) (m_then (m_star (\<lambda>c. c \<noteq> 34)) (\<lambda>l.
     m_seq (m_lit (CHR 0x22 # '','')) (m_seq m_ws (m_return l))))"

definition tierRe :: "(jstr option \<times> jstr \<times> jstr) matcher" where
  "tierRe = m_then m_condition (\<lambda>t. m_then m_label (\<lambda>l. m_then (m_plus (\<lambda>c. c \<noteq> 41)) (\<lambda>b.
     m_seq (m_lit '')'') (m_return (t, l, b)))))"

text \<open>
  \<open>split(/\s*&&\s*/)\<close>.  The blanks around the separator are left to the \<open>trim()\<close> that the source applies
  to every part.
\<close>

fun split_and :: "jstr \<Rightarrow> jstr \<Rightarrow> jstr list" where
  "split_and acc [] = [rev acc]"
| "split_and acc [c] = [rev (c # acc)]"
| "split_and acc (c # d # s) = (if c = 38 \<and> d = 38 then rev acc # split_and [] s else split_and (c # acc) (d # s))"

definition condition_of :: "jstr \<Rightarrow> tier_condition option" where
  "condition_of cp = (case filter (\<lambda>(x, r). r = []) (m_comparison (js_trim cp)) of
     ((v, p, x), _) # _ \<Rightarrow> Some \<lparr>cond_var = v, cond_op = p, cond_value = Number x\<rparr>
   | [] \<Rightarrow> None)"

definition conditions_of :: "jstr option \<Rightarrow> tier_condition list" where
  "conditions_of t = (case t of None \<Rightarrow> []
   | Some condStr \<Rightarrow> (if condStr = [] then [] else List.map_filter condition_of (split_and [] condStr)))"

definition parsed_of :: "jstr option \<times> jstr \<times> jstr \<Rightarrow> parsed_tier" where
  "parsed_of m = (case m of (t, l, b) \<Rightarrow> \<lparr>prices = parseTierBody b, parsed_label = l, parsed_conditions = conditions_of t\<rparr>)"

definition parseTiersFromExpr :: "jstr \<Rightarrow> parsed_tier list" where
  "parseTiersFromExpr exprStr = (if exprStr = [] then [] else
     map parsed_of (exec_all (\<lambda>_. tierRe) False (snd (stripExprVersion exprStr))))"

end
