(* ===== verification/TierEditor.thy ===== *)
theory TierEditor
  imports BillingTiers
begin

text \<open>
  The visual tier editor, \<open>features/pricing/lib/tier-expr.ts\<close>.  A visual tier may carry any further field,
  so it is an object value; a configuration is an object whose property \<open>tiers\<close> is read.  The compiler
  behind \<open>new Function\<close> is a parameter of the local evaluator.
\<close>

section \<open>Normal forms\<close>

text \<open>\<open>Number(v)\<close> of any value, and \<open>Number(v) || 0\<close>.\<close>

fun js_number :: "jsval \<Rightarrow> jsnum" where
  "js_number JUndef = NaN"
| "js_number JNull = Fin 0"
| "js_number (JBool b) = (if b then Fin 1 else Fin 0)"
| "js_number (JNum x) = x"
| "js_number (JStr s) = Number s"
| "js_number (JArr xs) = Number (js_string (JArr xs))"
| "js_number (JObj ps) = NaN"

definition number_or_zero :: "jsval \<Rightarrow> jsnum" where
  "number_or_zero v = (if num_truthy (js_number v) then js_number v else Fin 0)"

abbreviation CACHE_MODE_TIMED :: jstr where "CACHE_MODE_TIMED \<equiv> js ''timed''"
abbreviation CACHE_MODE_GENERIC :: jstr where "CACHE_MODE_GENERIC \<equiv> js ''generic''"

text \<open>The argument \<open>null\<close> or \<open>undefined\<close> behaves as an object without properties.\<close>

definition getTierCacheMode :: "jsobj \<Rightarrow> jstr" where
  "getTierCacheMode tier = (
     if obj_get tier (js ''cache_mode'') = JStr CACHE_MODE_TIMED then CACHE_MODE_TIMED
     else if obj_get tier (js ''cache_mode'') = JStr CACHE_MODE_GENERIC then CACHE_MODE_GENERIC
     else if num_lt (Fin 0) (js_number (obj_get tier (js ''cache_create_1h_unit_cost''))) then CACHE_MODE_TIMED
     else CACHE_MODE_GENERIC)"

definition cost_entry :: "jsobj \<Rightarrow> string \<Rightarrow> jstr \<times> jsval" where
  "cost_entry tier f = (js f, JNum (number_or_zero (obj_get tier (js f))))"

definition EXTRA_COST_FIELDS :: "string list" where
  "EXTRA_COST_FIELDS = [''cache_read_unit_cost'', ''cache_create_unit_cost'', ''cache_create_1h_unit_cost'', ''image_unit_cost'',
     ''image_output_unit_cost'', ''audio_input_unit_cost'', ''audio_output_unit_cost'']"

definition normalizeVisualTier :: "jsobj \<Rightarrow> jsobj" where
  "normalizeVisualTier tier = spread (spread
     [(js ''label'', js_coalesce (obj_get tier (js ''label'')) (JStr [])),
      cost_entry tier ''input_unit_cost'', cost_entry tier ''output_unit_cost'',
      (js ''cache_mode'', JStr (getTierCacheMode tier)),
      (js ''conditions'', if is_array (obj_get tier (js ''conditions'')) then obj_get tier (js ''conditions'') else JArr [])]
     tier) (map (cost_entry tier) EXTRA_COST_FIELDS)"

definition createDefaultVisualConfig :: jsobj where
  "createDefaultVisualConfig = [(js ''tiers'', JArr [JObj (normalizeVisualTier
     [(js ''conditions'', JArr []), (js ''input_unit_cost'', JNum (Fin 0)), (js ''output_unit_cost'', JNum (Fin 0)),
      (js ''label'', JStr (js ''base'')), (js ''cache_mode'', JStr CACHE_MODE_GENERIC)])])]"

text \<open>An element of \<open>tiers\<close> is an object.\<close>

definition normalizeVisualConfig :: "jsobj option \<Rightarrow> jsobj" where
  "normalizeVisualConfig config = (case config of None \<Rightarrow> createDefaultVisualConfig
   | Some cfg \<Rightarrow> (case obj_get cfg (js ''tiers'') of
       JArr (t # ts) \<Rightarrow> obj_put (js ''tiers'') (JArr (map (\<lambda>tier. JObj (normalizeVisualTier (props_of tier))) (t # ts))) cfg
     | _ \<Rightarrow> createDefaultVisualConfig))"

section \<open>Writing\<close>

text \<open>The elements of a value used as an array; another value has no elements.\<close>

fun elements :: "jsval \<Rightarrow> jsval list" where
  "elements (JArr xs) = xs"
| "elements _ = []"

definition usable_condition :: "jsval \<Rightarrow> bool" where
  "usable_condition c \<longleftrightarrow> js_truthy (js_get c (js ''var'')) \<and> js_truthy (js_get c (js ''op'')) \<and>
     \<not> nullish (js_get c (js ''value'')) \<and> js_get c (js ''value'') \<noteq> JStr []"

definition condition_text :: "jsval \<Rightarrow> jstr" where
  "condition_text c = js_string (js_get c (js ''var'')) @ js '' '' @ js_string (js_get c (js ''op'')) @ js '' '' @
     js_string (js_get c (js ''value''))"

text \<open>
  The conditions that the writer goes through.  A falsy value and one of length zero have none; another value that
  is not an array has no \<open>filter\<close> to call, and reading a property of a \<open>null\<close> or \<open>undefined\<close> condition
  throws: both are \<^const>\<open>None\<close>, here and in the functions that call this one.
\<close>

fun condition_list :: "jsval \<Rightarrow> jsval list option" where
  "condition_list (JArr xs) = (if list_ex nullish xs then None else Some xs)"
| "condition_list cs = (if \<not> js_truthy cs \<or> js_get cs (js ''length'') = JNum (Fin 0) then Some [] else None)"

definition buildConditionStr :: "jsval \<Rightarrow> jstr option" where
  "buildConditionStr cs = map_option (\<lambda>xs. join (js '' && '') (map condition_text (filter usable_condition xs))) (condition_list cs)"

definition term_text :: "string \<Rightarrow> jsnum \<Rightarrow> jstr" where
  "term_text v x = js v @ js '' * '' @ String x"

text \<open>The variables of a tier that the body names, with their prices.\<close>

definition body_terms :: "jsobj \<Rightarrow> (string \<times> jsnum) list" where
  "body_terms tier = (''p'', number_or_zero (obj_get tier (js ''input_unit_cost''))) #
     (''c'', number_or_zero (obj_get tier (js ''output_unit_cost''))) #
     filter (\<lambda>(v, x). x \<noteq> Fin 0) (map (\<lambda>(field, v). (v, number_or_zero (obj_get tier (js field)))) BILLING_CACHE_VAR_MAP)"

definition buildTierBodyExpr :: "jsobj \<Rightarrow> jstr" where
  "buildTierBodyExpr tier = join (js '' + '') (map (\<lambda>(v, x). term_text v x) (body_terms tier))"

definition label_or :: "jsobj \<Rightarrow> jstr \<Rightarrow> jstr" where
  "label_or tier d = js_string (js_or (obj_get tier (js ''label'')) (JStr d))"

definition tier_call :: "jstr \<Rightarrow> jsobj \<Rightarrow> jstr" where
  "tier_call label tier = js ''tier('' @ [34] @ label @ [34] @ js '', '' @ buildTierBodyExpr tier @ js '')''"

definition tier_part :: "nat \<Rightarrow> nat \<Rightarrow> jsobj \<Rightarrow> jstr option" where
  "tier_part n i tier = (let body = tier_call (label_or tier (js ''tier_'' @ show_nat (i + 1))) tier in
     map_option (\<lambda>cond. if i + 1 < n \<and> cond \<noteq> [] then cond @ js '' ? '' @ body else body)
       (buildConditionStr (obj_get tier (js ''conditions''))))"

fun tier_parts :: "nat \<Rightarrow> nat \<Rightarrow> jsobj list \<Rightarrow> jstr list option" where
  "tier_parts n i [] = Some []"
| "tier_parts n i (t # ts) = do { p \<leftarrow> tier_part n i t; ps \<leftarrow> tier_parts n (Suc i) ts; Some (p # ps) }"

definition config_tiers :: "jsobj \<Rightarrow> jsobj list" where
  "config_tiers cfg = map props_of (elements (obj_get cfg (js ''tiers'')))"

text \<open>The property \<open>tiers\<close> is missing or an array of objects.\<close>

definition generateExprFromVisualConfig :: "jsobj option \<Rightarrow> jstr option" where
  "generateExprFromVisualConfig config = (case (case config of None \<Rightarrow> [] | Some cfg \<Rightarrow> config_tiers cfg) of
     [] \<Rightarrow> Some (js ''p * 0 + c * 0'')
   | [tier] \<Rightarrow> (let body = tier_call (label_or tier (js ''default'')) tier in
       map_option (\<lambda>cond. if cond \<noteq> [] then cond @ js '' ? '' @ body @ js '' : p * 0 + c * 0'' else body)
         (buildConditionStr (obj_get tier (js ''conditions''))))
   | tiers \<Rightarrow> map_option (join (js '' : '')) (tier_parts (length tiers) 0 tiers))"

section \<open>Reading\<close>

definition m_term :: "string \<Rightarrow> jstr matcher" where
  "m_term v = m_seq (m_lit v) m_times"

definition m_add :: "jstr matcher \<Rightarrow> jstr matcher" where
  "m_add p = m_seq m_ws (m_seq (m_lit ''+'') (m_seq m_ws p))"

fun m_optional_terms :: "string list \<Rightarrow> jstr option list matcher" where
  "m_optional_terms [] = m_return []"
| "m_optional_terms (v # vs) = m_then (m_opt (m_add (m_term v))) (\<lambda>x. m_then (m_optional_terms vs) (\<lambda>xs. m_return (x # xs)))"

definition bodyPat :: "(jstr \<times> jstr \<times> jstr option list) matcher" where
  "bodyPat = m_then (m_term ''p'') (\<lambda>a. m_then (m_add (m_term ''c'')) (\<lambda>b.
     m_then (m_optional_terms (map snd BILLING_CACHE_VAR_MAP)) (\<lambda>xs. m_return (a, b, xs))))"

definition m_call :: "(jstr \<times> jstr \<times> jstr \<times> jstr option list) matcher" where
  "m_call = m_then m_label (\<lambda>l. m_then bodyPat (\<lambda>b. m_seq (m_lit '')'') (m_return (l, b))))"

definition singleRe :: "jstr \<Rightarrow> (jstr \<times> jstr \<times> jstr \<times> jstr option list) option" where
  "singleRe body = (case filter (\<lambda>(x, r). r = []) (m_call body) of (x, _) # _ \<Rightarrow> Some x | [] \<Rightarrow> None)"

definition visualTierRe :: "(jstr option \<times> jstr \<times> jstr \<times> jstr \<times> jstr option list) matcher" where
  "visualTierRe = m_then m_condition (\<lambda>t. m_then m_call (\<lambda>x. m_return (t, x)))"

definition condition_object :: "tier_condition \<Rightarrow> jsval" where
  "condition_object c = JObj [(js ''var'', JStr (js (cond_var c))), (js ''op'', JStr (js (cond_op c))), (js ''value'', JNum (cond_value c))]"

definition read_visual :: "tier_condition list \<Rightarrow> jstr \<times> jstr \<times> jstr \<times> jstr option list \<Rightarrow> jsobj" where
  "read_visual conds m = (case m of (l, a, b, xs) \<Rightarrow> normalizeVisualTier (spread
     [(js ''conditions'', JArr (map condition_object conds)), (js ''input_unit_cost'', JNum (Number a)),
      (js ''output_unit_cost'', JNum (Number b)), (js ''label'', JStr l)]
     (List.map_filter (\<lambda>((field, _), x). map_option (\<lambda>y. (js field, JNum (Number y))) x) (zip BILLING_CACHE_VAR_MAP xs))))"

definition tiers_config :: "jsobj list \<Rightarrow> jsobj" where
  "tiers_config ts = normalizeVisualConfig (Some [(js ''tiers'', JArr (map JObj ts))])"

definition tryParseVisualConfig :: "jstr option \<Rightarrow> jsobj option" where
  "tryParseVisualConfig exprStr = (case exprStr of None \<Rightarrow> None | Some s \<Rightarrow> if s = [] then None else
     (let body = snd (stripExprVersion s) in
      case singleRe body of
        Some m \<Rightarrow> Some (tiers_config [read_visual [] m])
      | None \<Rightarrow> (let tiers = map (\<lambda>(t, m). read_visual (conditions_of t) m) (exec_all (\<lambda>_. visualTierRe) False body) in
          if tiers = [] then None
          else (let cfg = tiers_config tiers; without_blanks = filter (\<lambda>c. \<not> is_ws c) in
            case generateExprFromVisualConfig (Some cfg) of None \<Rightarrow> None
            | Some regenerated \<Rightarrow> if without_blanks regenerated \<noteq> without_blanks body then None else Some cfg))))"

section \<open>The local evaluator\<close>

definition ESTIMATOR_VARS :: "(string \<times> string) list" where
  "ESTIMATOR_VARS = [(''cr'', ''cacheReadTokens''), (''cc'', ''cacheCreateTokens''), (''cc1h'', ''cacheCreate1hTokens''),
     (''img'', ''imageTokens''), (''img_o'', ''imageOutputTokens''), (''ai'', ''audioInputTokens''), (''ao'', ''audioOutputTokens'')]"

definition tokens_or_zero :: "(string \<times> jsnum) list \<Rightarrow> string \<Rightarrow> jsnum" where
  "tokens_or_zero extra k = (case map_of extra k of Some x \<Rightarrow> if num_truthy x then x else Fin 0 | None \<Rightarrow> Fin 0)"

record eval_result =
  eval_cost :: jsnum
  eval_matchedTier :: jstr
  eval_error :: "jstr option"

text \<open>
  \<open>run env e\<close> compiles the expression \<open>e\<close> and runs it with the variables of \<open>env\<close>: the message of what it
  throws, or its value with the names of the calls of \<open>tier\<close> in order.  The functions \<open>tier\<close>, \<open>max\<close>,
  \<open>min\<close>, \<open>abs\<close>, \<open>ceil\<close> and \<open>floor\<close> are part of \<open>run\<close>.
\<close>

type_synonym compiler = "(string \<times> jsnum) list \<Rightarrow> jstr \<Rightarrow> jstr + jsval \<times> jstr list"

definition eval_env :: "jsnum \<Rightarrow> jsnum \<Rightarrow> (string \<times> jsnum) list \<Rightarrow> (string \<times> jsnum) list" where
  "eval_env promptTokens completionTokens extra =
     [(''p'', promptTokens), (''c'', completionTokens),
      (''len'', num_add (num_add (num_add promptTokens (tokens_or_zero extra ''cacheReadTokens''))
         (tokens_or_zero extra ''cacheCreateTokens'')) (tokens_or_zero extra ''cacheCreate1hTokens''))] @
     map (\<lambda>(v, k). (v, tokens_or_zero extra k)) ESTIMATOR_VARS"

definition evalExprLocally :: "compiler \<Rightarrow> jstr \<Rightarrow> jsnum \<Rightarrow> jsnum \<Rightarrow> (string \<times> jsnum) list \<Rightarrow> eval_result" where
  "evalExprLocally run exprStr promptTokens completionTokens extra = (
     if js_trim exprStr = [] then \<lparr>eval_cost = Fin 0, eval_matchedTier = [], eval_error = None\<rparr>
     else case run (eval_env promptTokens completionTokens extra) exprStr of
       Inl message \<Rightarrow> \<lparr>eval_cost = Fin 0, eval_matchedTier = [], eval_error = Some message\<rparr>
     | Inr (v, names) \<Rightarrow> \<lparr>eval_cost = number_or_zero v, eval_matchedTier = (if names = [] then [] else last names), eval_error = None\<rparr>)"

text \<open>\<open>\b(cr|cc|...)\b\<close> at a position.\<close>

definition m_variable :: "bool \<Rightarrow> string matcher" where
  "m_variable w s = (if w then [] else filter (\<lambda>(v, r). r = [] \<or> \<not> is_word (hd r)) (m_alt (map fst ESTIMATOR_VARS) s))"

definition exprUsesExtraVars :: "jstr \<Rightarrow> bool" where
  "exprUsesExtraVars exprStr \<longleftrightarrow> exec_all m_variable False exprStr \<noteq> []"

end
