(* ===== verification/TierRoundtrip.thy ===== *)
theory TierRoundtrip
  imports TierEditor RuleScanning
begin

text \<open>
  What the visual tier editor writes, the price table reads: every tier with its label, its conditions and
  the price of every variable.
\<close>

section \<open>Texts the editor can carry\<close>

text \<open>A price is a finite number; its text is read back as the number (prices are written by \<open>String\<close>).\<close>

definition cost_ok :: "jsnum \<Rightarrow> bool" where
  "cost_ok x \<longleftrightarrow> String x \<noteq> [] \<and> list_all is_num_char (String x) \<and> Number (String x) = x"

definition bound_ok :: "jsval \<Rightarrow> bool" where
  "bound_ok c \<longleftrightarrow> js_get c (js ''var'') \<in> (\<lambda>v. JStr (js v)) ` set [''p'', ''c'', ''len''] \<and>
     js_get c (js ''op'') \<in> (\<lambda>p. JStr (js p)) ` set CONDITION_OPS \<and>
     js_string (js_get c (js ''value'')) \<noteq> [] \<and> list_all is_bound_char (js_string (js_get c (js ''value'')))"

definition usable_conditions :: "jsobj \<Rightarrow> jsval list" where
  "usable_conditions tier = (case condition_list (obj_get tier (js ''conditions'')) of
     Some xs \<Rightarrow> filter usable_condition xs | None \<Rightarrow> [])"

text \<open>The conditions of the tier can be written: going through them does not throw.\<close>

definition writable :: "jsobj \<Rightarrow> bool" where
  "writable tier \<longleftrightarrow> condition_list (obj_get tier (js ''conditions'')) \<noteq> None"

definition visual_ok :: "jsobj \<Rightarrow> bool" where
  "visual_ok tier \<longleftrightarrow> writable tier \<and> 34 \<notin> set (label_or tier []) \<and> list_all (\<lambda>(v, x). cost_ok x) (body_terms tier) \<and>
     list_all bound_ok (usable_conditions tier)"

section \<open>Blanks and literals\<close>

lemma blank_facts: "is_ws 32" "\<not> is_ws 42" "\<not> is_ws 43" "\<not> is_ws 63" "\<not> is_ws 38" "\<not> is_ws 60" "\<not> is_ws 62" "\<not> is_ws 58"
  "\<not> is_ws 112" "\<not> is_ws 99" "\<not> is_ws 108" "\<not> is_ws 116" "\<not> is_ws 61" "\<not> is_ws 41"
  by (simp_all add: is_ws_def)

lemma m_ws_none: "s = [] \<or> \<not> is_ws (hd s) \<Longrightarrow> m_ws s = [([], s)]"
  by (cases s) (auto simp: m_ws_def m_star_def prefixes_down_def)

lemma m_ws_one: "s = [] \<or> \<not> is_ws (hd s) \<Longrightarrow> m_ws (32 # s) = [([32], s), ([], 32 # s)]"
  by (cases s) (auto simp: m_ws_def m_star_def prefixes_down_def blank_facts)

lemma m_lit_eval: "m_lit [] s = [((), s)]" "m_lit (c # p) [] = []"
  "m_lit (c # p) (d # s) = (if of_char c = d then m_lit p s else [])"
  by (auto simp: m_lit_def lit_rec)

lemma wins_ws: "s = [] \<or> \<not> is_ws (hd s) \<Longrightarrow> wins m_ws (32 # s) [32] s"
  by (simp add: wins_def m_ws_one)

lemma wins_no_ws: "s = [] \<or> \<not> is_ws (hd s) \<Longrightarrow> wins m_ws s [] s"
  by (simp add: wins_def m_ws_none)

lemma wins_text: "wins p (a @ r) x r \<Longrightarrow> wins (m_text p) (a @ r) a r"
  by (cases "p (a @ r)") (auto simp: wins_def m_text_def)

text \<open>The second alternative wins where the first one leads nowhere.\<close>

lemma wins_then_at:
  assumes "p s = as @ (x, r) # bs" "\<And>y t. (y, t) \<in> set as \<Longrightarrow> f y t = []" "wins (f x) r z u"
  shows "wins (m_then p f) s z u"
proof -
  have none: "concat (map (\<lambda>(y, t). f y t) as) = []" using assms(2) by auto
  have "m_then p f s = concat (map (\<lambda>(y, t). f y t) as) @ f x r @ concat (map (\<lambda>(y, t). f y t) bs)"
    by (simp add: m_then_def assms(1))
  then show ?thesis unfolding none using assms(3) by (cases "f x r") (auto simp: wins_def)
qed

section \<open>A term\<close>

abbreviation stop :: "(jchar \<Rightarrow> bool) \<Rightarrow> jstr \<Rightarrow> bool" where
  "stop f r \<equiv> r = [] \<or> \<not> f (hd r)"

lemma wins_times:
  assumes "s \<noteq> []" "list_all is_num_char s" "stop is_num_char r"
  shows "wins m_times (js '' * '' @ s @ r) s r"
proof -
  have h: "\<not> is_ws (hd (s @ r))" using assms(1,2) num_char_ws by (cases s) auto
  have "wins (m_lit ''*'') (42 # 32 # s @ r) () (32 # s @ r)" by (simp add: wins_def m_lit_eval)
  then show ?thesis
    unfolding m_times_def using wins_ws [of "42 # 32 # s @ r"] wins_ws [of "s @ r"] h wins_plus [OF assms(2,1,3)]
    by (auto simp: js_def blank_facts intro!: wins_seq)
qed

lemma times_none: "s = [] \<or> \<not> is_ws (hd s) \<and> hd s \<noteq> 42 \<Longrightarrow> m_times s = []"
  by (cases s) (auto simp: m_times_def m_seq_def m_then_def m_ws_none m_lit_eval)

lemma pricing_keys: "map var_key BILLING_PRICING_VARS = [''p'', ''c'', ''cr'', ''cc'', ''cc1h'', ''img'', ''img_o'', ''ai'', ''ao'']"
  by (simp add: BILLING_PRICING_VARS_def BILLING_VARS_def priced_def)

lemmas alt_eval = m_alt_def m_seq_def m_then_def m_return_def m_lit_eval js_def

lemma alt_variables:
  "m_alt (map var_key BILLING_PRICING_VARS) (js ''p'' @ 32 # s) = [(''p'', 32 # s)]"
  "m_alt (map var_key BILLING_PRICING_VARS) (js ''c'' @ 32 # s) = [(''c'', 32 # s)]"
  "m_alt (map var_key BILLING_PRICING_VARS) (js ''cr'' @ 32 # s) = [(''c'', 114 # 32 # s), (''cr'', 32 # s)]"
  "m_alt (map var_key BILLING_PRICING_VARS) (js ''cc'' @ 32 # s) = [(''c'', 99 # 32 # s), (''cc'', 32 # s)]"
  "m_alt (map var_key BILLING_PRICING_VARS) (js ''cc1h'' @ 32 # s) =
     [(''c'', 99 # 49 # 104 # 32 # s), (''cc'', 49 # 104 # 32 # s), (''cc1h'', 32 # s)]"
  "m_alt (map var_key BILLING_PRICING_VARS) (js ''img'' @ 32 # s) = [(''img'', 32 # s)]"
  "m_alt (map var_key BILLING_PRICING_VARS) (js ''img_o'' @ 32 # s) = [(''img'', 95 # 111 # 32 # s), (''img_o'', 32 # s)]"
  "m_alt (map var_key BILLING_PRICING_VARS) (js ''ai'' @ 32 # s) = [(''ai'', 32 # s)]"
  "m_alt (map var_key BILLING_PRICING_VARS) (js ''ao'' @ 32 # s) = [(''ao'', 32 # s)]"
  unfolding pricing_keys by (simp_all add: alt_eval)

text \<open>A shorter variable that is tried first is followed by a letter, a digit or an underscore.\<close>

lemma alt_keys:
  assumes "v \<in> set (map var_key BILLING_PRICING_VARS)"
  shows "\<exists>as. m_alt (map var_key BILLING_PRICING_VARS) (js v @ 32 # s) = as @ [(v, 32 # s)] \<and>
    list_all (\<lambda>(y, t). t \<noteq> [] \<and> \<not> is_ws (hd t) \<and> hd t \<noteq> 42) as"
proof -
  let ?as = "butlast (m_alt (map var_key BILLING_PRICING_VARS) (js v @ 32 # s))"
  have ws: "\<not> is_ws 114" "\<not> is_ws 99" "\<not> is_ws 49" "\<not> is_ws 95" by (simp_all add: is_ws_def)
  have "v = ''p'' \<or> v = ''c'' \<or> v = ''cr'' \<or> v = ''cc'' \<or> v = ''cc1h'' \<or> v = ''img'' \<or> v = ''img_o'' \<or> v = ''ai'' \<or> v = ''ao''"
    using assms unfolding pricing_keys by simp
  then have "m_alt (map var_key BILLING_PRICING_VARS) (js v @ 32 # s) = ?as @ [(v, 32 # s)] \<and>
      list_all (\<lambda>(y, t). t \<noteq> [] \<and> \<not> is_ws (hd t) \<and> hd t \<noteq> 42) ?as"
    by (elim disjE; simp only: alt_variables; simp add: ws)
  then show ?thesis by blast
qed

lemma wins_variable:
  assumes v: "v \<in> set (map var_key BILLING_PRICING_VARS)" and x: "cost_ok x" "stop is_num_char r"
  shows "wins (BILLING_VAR_REGEX False) (term_text v x @ r) (v, String x) r"
proof -
  obtain as where alt: "m_alt (map var_key BILLING_PRICING_VARS) (js v @ 32 # js ''* '' @ String x @ r) =
      as @ [(v, 32 # js ''* '' @ String x @ r)]"
    and bad: "list_all (\<lambda>(y, t). t \<noteq> [] \<and> \<not> is_ws (hd t) \<and> hd t \<noteq> 42) as"
    using alt_keys [OF v] by blast
  have "wins m_times (32 # js ''* '' @ String x @ r) (String x) r"
    using wins_times [of "String x" r] x by (simp add: cost_ok_def js_def)
  then have "wins (m_then m_times (\<lambda>y. m_return (v, y))) (32 # js ''* '' @ String x @ r) (v, String x) r"
    by (rule wins_then) (rule wins_return)
  moreover have "m_then m_times (\<lambda>y. m_return (u, y)) t = []" if "(u, t) \<in> set as" for u t
    using bad that times_none [of t] by (auto simp: m_then_def list_all_iff)
  ultimately show ?thesis
    unfolding BILLING_VAR_REGEX_def using wins_then_at
      [where p = "m_alt (map var_key BILLING_PRICING_VARS)" and f = "\<lambda>v. m_then m_times (\<lambda>y. m_return (v, y))", OF alt]
    by (simp add: term_text_def js_def)
qed

lemma variable_none: "c \<in> {32, 43} \<Longrightarrow> BILLING_VAR_REGEX w (c # s) = []"
  unfolding BILLING_VAR_REGEX_def pricing_keys by (auto simp: alt_eval)

section \<open>The matches of a text\<close>

lemma exec_match:
  assumes "wins (m w) (a @ r) x r" "a \<noteq> []"
  shows "exec_all m w (a @ r) = x # exec_all m (is_word (last a)) r"
proof (cases a)
  case (Cons c a')
  have "(a @ r) ! (length a - 1) = last a" using assms(2) by (simp add: nth_append last_conv_nth)
  then show ?thesis using wins_first [OF assms(1)] Cons by simp
qed (use assms in simp)

lemma exec_skip: "m w (c # s) = [] \<Longrightarrow> exec_all m w (c # s) = exec_all m (is_word c) s"
  by (simp add: m_first_def)

declare exec_all.simps(2) [simp del]

lemma body_matches:
  assumes "list_all (\<lambda>(v, x). cost_ok x) ts" "fst ` set ts \<subseteq> set (map var_key BILLING_PRICING_VARS)"
  shows "exec_all BILLING_VAR_REGEX False (join (js '' + '') (map (\<lambda>(v, x). term_text v x) ts)) = map (\<lambda>(v, x). (v, String x)) ts"
  using assms
proof (induction ts)
  case (Cons t ts)
  obtain v x where t: "t = (v, x)" by (cases t)
  have ok: "v \<in> set (map var_key BILLING_PRICING_VARS)" "cost_ok x" using Cons.prems by (auto simp: t)
  have ne: "term_text v x \<noteq> []" by (simp add: term_text_def js_def)
  have first: "exec_all BILLING_VAR_REGEX False (term_text v x @ r) =
      (v, String x) # exec_all BILLING_VAR_REGEX (is_word (last (term_text v x))) r" if "stop is_num_char r" for r
    using wins_variable [OF ok that] ne by (rule exec_match [where m = BILLING_VAR_REGEX])
  show ?case
  proof (cases ts)
    case Nil
    then show ?thesis using first [of "[]"] by (simp add: t)
  next
    case (Cons t' ts')
    let ?r = "join (js '' + '') (map (\<lambda>(v, x). term_text v x) ts)"
    have "exec_all BILLING_VAR_REGEX w (js '' + '' @ ?r) = exec_all BILLING_VAR_REGEX False ?r" for w
      by (simp add: js_def exec_skip variable_none is_word_def is_digit_def)
    moreover have "stop is_num_char (js '' + '' @ ?r)" by (simp add: js_def is_num_char_def is_digit_def)
    ultimately show ?thesis using first [of "js '' + '' @ ?r"] Cons Cons.prems Cons.IH by (simp add: t)
  qed
qed simp

section \<open>The prices\<close>

lemma coeffs_all:
  "distinct (map fst acc @ map fst ts) \<Longrightarrow> list_all (\<lambda>(v, x). cost_ok x) ts \<Longrightarrow>
     foldl add_coeff acc (map (\<lambda>(v, x). (v, String x)) ts) = acc @ ts"
proof (induction ts arbitrary: acc)
  case (Cons t ts)
  obtain v x where t: "t = (v, x)" by (cases t)
  have "add_coeff acc (v, String x) = acc @ [(v, x)]" using Cons.prems by (auto simp: add_coeff_def t cost_ok_def)
  then show ?case using Cons.IH [of "acc @ [(v, x)]"] Cons.prems by (simp add: t)
qed simp

lemma coeff_filter:
  "distinct (map fst xs) \<Longrightarrow> coeff_or_zero (filter (\<lambda>(v, x). x \<noteq> Fin 0) xs) k = coeff_or_zero xs k"
proof (induction xs)
  case (Cons a xs)
  obtain v x where a: "a = (v, x)" by (cases a)
  have "map_of (filter (\<lambda>(v, x). x \<noteq> Fin 0) xs) v = None" using Cons.prems by (force simp: a map_of_eq_None_iff)
  then show ?case using Cons by (cases "k = v") (auto simp: a coeff_or_zero_def num_truthy_def)
qed simp

lemma coeff_Cons: "coeff_or_zero ((v, x) # xs) k = (if k = v then (if num_truthy x then x else Fin 0) else coeff_or_zero xs k)"
  by (simp add: coeff_or_zero_def)

lemma number_or_zero_idem: "(if num_truthy (number_or_zero v) then number_or_zero v else Fin 0) = number_or_zero v"
  by (simp add: number_or_zero_def)

lemma cache_vars: "BILLING_CACHE_VAR_MAP = [(''cache_read_unit_cost'', ''cr''), (''cache_create_unit_cost'', ''cc''),
    (''cache_create_1h_unit_cost'', ''cc1h''), (''image_unit_cost'', ''img''), (''image_output_unit_cost'', ''img_o''),
    (''audio_input_unit_cost'', ''ai''), (''audio_output_unit_cost'', ''ao'')]"
  by (simp add: BILLING_CACHE_VAR_MAP_def BILLING_EXTRA_VARS_def BILLING_VARS_def priced_def)

definition extra_terms :: "jsobj \<Rightarrow> (string \<times> jsnum) list" where
  "extra_terms tier = map (\<lambda>(field, v). (v, number_or_zero (obj_get tier (js field)))) BILLING_CACHE_VAR_MAP"

lemma extra_keys: "map fst (extra_terms tier) = [''cr'', ''cc'', ''cc1h'', ''img'', ''img_o'', ''ai'', ''ao'']"
  by (simp add: extra_terms_def cache_vars)

lemma body_keys: "distinct (map fst (body_terms tier))" "fst ` set (body_terms tier) \<subseteq> set (map var_key BILLING_PRICING_VARS)"
proof -
  let ?nz = "filter (\<lambda>(v, x). x \<noteq> Fin 0) (extra_terms tier)"
  have sub: "fst ` set ?nz \<subseteq> set (map fst (extra_terms tier))" by auto
  have "distinct (map fst ?nz)" using extra_keys [of tier] by (simp add: distinct_map_filter)
  then show "distinct (map fst (body_terms tier))"
    using sub unfolding body_terms_def extra_terms_def [symmetric] extra_keys by auto
  show "fst ` set (body_terms tier) \<subseteq> set (map var_key BILLING_PRICING_VARS)"
    using sub unfolding body_terms_def extra_terms_def [symmetric] extra_keys pricing_keys by auto
qed

text \<open>The prices of a tier under the names of the price table.\<close>

definition tier_costs :: "jsobj \<Rightarrow> (string \<times> jsnum) list" where
  "tier_costs tier = map (\<lambda>v. (the (var_field v), number_or_zero (obj_get tier (js (the (var_tierField v)))))) BILLING_PRICING_VARS"

lemma body_read:
  assumes "list_all (\<lambda>(v, x). cost_ok x) (body_terms tier)"
  shows "parseTierBody (buildTierBodyExpr tier) = tier_costs tier"
proof -
  have "foldl add_coeff [] (exec_all BILLING_VAR_REGEX False (buildTierBodyExpr tier)) = body_terms tier"
    unfolding buildTierBodyExpr_def body_matches [OF assms body_keys(2)] using coeffs_all [of "[]"] body_keys(1) assms by simp
  moreover have "coeff_or_zero (body_terms tier) k = coeff_or_zero
      ((''p'', number_or_zero (obj_get tier (js ''input_unit_cost''))) # (''c'', number_or_zero (obj_get tier (js ''output_unit_cost''))) #
       extra_terms tier) k" for k
    unfolding body_terms_def extra_terms_def [symmetric] coeff_Cons using coeff_filter [of "extra_terms tier"] extra_keys [of tier] by simp
  ultimately show ?thesis
    by (simp add: parseTierBody_def Let_def tier_costs_def BILLING_VAR_KEY_TO_FIELD_def BILLING_PRICING_VARS_def BILLING_VARS_def
        priced_def coeff_Cons number_or_zero_idem extra_terms_def cache_vars)
qed

section \<open>Conditions\<close>

definition shown_condition :: "jsval \<Rightarrow> tier_condition" where
  "shown_condition c = \<lparr>cond_var = map char_of (str_of (js_get c (js ''var''))), cond_op = map char_of (str_of (js_get c (js ''op''))),
     cond_value = Number (js_string (js_get c (js ''value'')))\<rparr>"

lemma char_of_js [simp]: "map char_of (js s) = s"
  by (simp add: js_def comp_def)

lemma bound_char_facts: "is_bound_char c \<Longrightarrow> \<not> is_ws c \<and> c \<noteq> 38"
  by (auto simp: is_bound_char_def is_digit_def is_ws_def)

lemma plus_none: "stop f s \<Longrightarrow> m_plus f s = []"
  by (cases s) (auto simp: m_plus_def prefixes_down_def)

definition m_bound :: "string \<Rightarrow> string \<Rightarrow> (string \<times> string \<times> jstr) matcher" where
  "m_bound v p = m_seq m_ws (m_then (m_plus is_bound_char) (\<lambda>x. m_return (v, p, x)))"

lemma wins_bound:
  assumes "x \<noteq> []" "list_all is_bound_char x" "stop is_bound_char r"
  shows "wins (m_bound v p) (32 # x @ r) (v, p, x) r"
proof -
  have "\<not> is_ws (hd (x @ r))" using assms(1,2) bound_char_facts by (cases x) auto
  then have "wins m_ws (32 # x @ r) [32] (x @ r)" by (intro wins_ws) simp
  moreover have "wins (m_then (m_plus is_bound_char) (\<lambda>x. m_return (v, p, x))) (x @ r) (v, p, x) r"
    using wins_plus [OF assms(2,1,3)] wins_return by (rule wins_then)
  ultimately show ?thesis unfolding m_bound_def by (rule wins_seq)
qed

lemma bound_none: "m_bound v p (61 # s) = []"
  by (simp add: m_bound_def m_seq_def m_then_def m_ws_none blank_facts plus_none is_bound_char_def is_digit_def)

lemma alt_ops:
  "m_alt CONDITION_OPS (js ''<'' @ 32 # s) = [] @ (''<'', 32 # s) # []"
  "m_alt CONDITION_OPS (js ''<='' @ 32 # s) = [(''<'', 61 # 32 # s)] @ (''<='', 32 # s) # []"
  "m_alt CONDITION_OPS (js ''>'' @ 32 # s) = [] @ (''>'', 32 # s) # []"
  "m_alt CONDITION_OPS (js ''>='' @ 32 # s) = [(''>'', 61 # 32 # s)] @ (''>='', 32 # s) # []"
  by (simp_all add: CONDITION_OPS_def alt_eval)

lemma wins_op:
  assumes "p \<in> set CONDITION_OPS" "wins (m_bound v p) (32 # s) y r"
  shows "wins (m_then (m_alt CONDITION_OPS) (m_bound v)) (js p @ 32 # s) y r"
proof -
  have "p = ''<'' \<or> p = ''<='' \<or> p = ''>'' \<or> p = ''>=''" using assms(1) by (simp add: CONDITION_OPS_def)
  then show ?thesis using assms(2)
    by (elim disjE; simp add: wins_def m_then_def alt_ops bound_none)
qed

lemma wins_comparison:
  assumes v: "v \<in> set [''p'', ''c'', ''len'']" and p: "p \<in> set CONDITION_OPS"
    and x: "x \<noteq> []" "list_all is_bound_char x" "stop is_bound_char r"
  shows "wins m_comparison (js v @ js '' '' @ js p @ js '' '' @ x @ r) (v, p, x) r"
proof -
  let ?t = "js p @ 32 # x @ r"
  have hd: "\<not> is_ws (hd ?t)" using p by (auto simp: CONDITION_OPS_def js_def blank_facts)
  have "m_alt [''p'', ''c'', ''len''] (js v @ 32 # ?t) = [(v, 32 # ?t)]" using v by (auto simp: alt_eval)
  then have "wins (m_alt [''p'', ''c'', ''len'']) (js v @ 32 # ?t) v (32 # ?t)" by (simp add: wins_def)
  moreover have "wins (m_seq m_ws (m_then (m_alt CONDITION_OPS) (m_bound v))) (32 # ?t) (v, p, x) r"
    using wins_ws [of ?t] hd wins_op [OF p wins_bound [OF x]] by (intro wins_seq) auto
  ultimately show ?thesis
    unfolding m_comparison_def m_bound_def [symmetric] by (auto simp: js_def intro: wins_then)
qed

lemma wins_condition:
  assumes "bound_ok c" "stop is_bound_char r"
  shows "\<exists>y. wins m_comparison (condition_text c @ r) y r \<and>
    \<lparr>cond_var = fst y, cond_op = fst (snd y), cond_value = Number (snd (snd y))\<rparr> = shown_condition c"
proof -
  obtain v p where c: "js_get c (js ''var'') = JStr (js v)" "js_get c (js ''op'') = JStr (js p)"
      "v \<in> set [''p'', ''c'', ''len'']" "p \<in> set CONDITION_OPS"
    using assms(1) by (auto simp: bound_ok_def)
  have x: "js_string (js_get c (js ''value'')) \<noteq> []" "list_all is_bound_char (js_string (js_get c (js ''value'')))"
    using assms(1) by (simp_all add: bound_ok_def)
  show ?thesis using wins_comparison [OF c(3,4) x assms(2)] c(1,2)
    by (intro exI conjI) (auto simp: condition_text_def shown_condition_def)
qed

section \<open>A list of conditions\<close>

lemma bound_text_facts:
  assumes "bound_ok c"
  shows "condition_text c \<noteq> []" "trimmed (condition_text c)" "38 \<notin> set (condition_text c)"
    "hd (condition_text c) \<in> {112, 99, 108}"
proof -
  obtain v p where c: "js_get c (js ''var'') = JStr (js v)" "js_get c (js ''op'') = JStr (js p)"
      "v \<in> set [''p'', ''c'', ''len'']" "p \<in> set CONDITION_OPS"
    using assms by (auto simp: bound_ok_def)
  let ?x = "js_string (js_get c (js ''value''))"
  have x: "?x \<noteq> []" "\<forall>a \<in> set ?x. \<not> is_ws a \<and> a \<noteq> 38"
    using assms bound_char_facts by (auto simp: bound_ok_def list_all_iff)
  have "condition_text c = js v @ js '' '' @ js p @ js '' '' @ ?x" by (simp add: condition_text_def c)
  moreover have "js v \<noteq> []" "hd (js v) \<in> {112, 99, 108}" "38 \<notin> set (js v)" using c(3) by (auto simp: js_def)
  moreover have "38 \<notin> set (js p)" using c(4) by (auto simp: js_def CONDITION_OPS_def)
  moreover have "38 \<notin> set (js '' '')" by (simp add: js_def)
  moreover have "\<not> is_ws (last ?x)" using x by simp
  ultimately show "condition_text c \<noteq> []" "trimmed (condition_text c)" "38 \<notin> set (condition_text c)"
    "hd (condition_text c) \<in> {112, 99, 108}"
    using x by (auto simp: trimmed_def blank_facts)
qed

lemma wins_filter: "wins p s x [] \<Longrightarrow> \<exists>zs. filter (\<lambda>(x, r). r = []) (p s) = (x, []) # zs"
  by (cases "p s") (auto simp: wins_def)

lemma condition_of_text:
  assumes "bound_ok c" "js_trim t = condition_text c"
  shows "condition_of t = Some (shown_condition c)"
proof -
  obtain y where y: "wins m_comparison (condition_text c) y []"
      "\<lparr>cond_var = fst y, cond_op = fst (snd y), cond_value = Number (snd (snd y))\<rparr> = shown_condition c"
    using wins_condition [OF assms(1), of "[]"] by auto
  obtain zs where "filter (\<lambda>(x, r). r = []) (m_comparison (condition_text c)) = (y, []) # zs" using wins_filter [OF y(1)] by blast
  then show ?thesis using y(2) assms(2) by (cases y) (simp add: condition_of_def)
qed

lemma split_and_step: "c \<noteq> 38 \<Longrightarrow> split_and acc (c # s) = split_and (c # acc) s"
  by (cases s) simp_all

lemma split_and_pass: "38 \<notin> set a \<Longrightarrow> split_and acc (a @ s) = split_and (rev a @ acc) s"
  by (induction a arbitrary: acc) (simp_all add: split_and_step)

lemma dropWhile_pad: "list_all f a \<Longrightarrow> stop f s \<Longrightarrow> dropWhile f (a @ s) = s"
  by (induction a) (cases s, auto)

lemma trim_pad:
  assumes "trimmed t" "t \<noteq> []" "list_all is_ws a" "list_all is_ws b"
  shows "js_trim (a @ t @ b) = t"
proof -
  have "dropWhile is_ws (a @ t @ b) = t @ b" using assms by (intro dropWhile_pad) (auto simp: trimmed_def)
  moreover have "dropWhile is_ws (rev b @ rev t) = rev t" using assms
    by (intro dropWhile_pad) (auto simp: trimmed_def list_all_iff hd_rev)
  ultimately show ?thesis by (simp add: js_trim_def)
qed

lemma bounds_read:
  "list_all bound_ok cs \<Longrightarrow> cs \<noteq> [] \<Longrightarrow> list_all is_ws pre \<Longrightarrow>
     List.map_filter condition_of (split_and pre (join (js '' && '') (map condition_text cs))) = map shown_condition cs"
proof (induction cs arbitrary: pre)
  case (Cons c cs)
  have c: "bound_ok c" using Cons.prems by simp
  note f = bound_text_facts [OF c]
  have "list_all is_ws (rev pre)" using Cons.prems(3) by (simp add: list_all_iff)
  then have read: "condition_of (rev pre @ condition_text c @ b) = Some (shown_condition c)" if "list_all is_ws b" for b
    using condition_of_text [OF c] trim_pad [OF f(2,1)] that by blast
  show ?case
  proof (cases cs)
    case Nil
    then show ?thesis using split_and_pass [OF f(3), of pre "[]"] read [of "[]"] by (simp add: map_filter_simps)
  next
    case (Cons c' cs')
    let ?r = "join (js '' && '') (map condition_text cs)"
    have "split_and pre (condition_text c @ js '' && '' @ ?r) = (rev pre @ condition_text c @ [32]) # split_and [32] ?r"
      unfolding split_and_pass [OF f(3)] by (simp add: js_def split_and_step)
    then show ?thesis using Cons Cons.prems Cons.IH [of "[32]"] read [of "[32]"] by (simp add: map_filter_simps blank_facts)
  qed
qed simp

section \<open>A tier\<close>

abbreviation m_and :: "(string \<times> string \<times> jstr) matcher" where
  "m_and \<equiv> m_seq m_ws (m_seq (m_lit ''&&'') (m_seq m_ws m_comparison))"

lemma wins_and_list:
  "list_all bound_ok cs \<Longrightarrow> stop is_bound_char r \<Longrightarrow> m_and r = [] \<Longrightarrow>
     \<exists>ys. wins (m_many m_and) (concat (map (\<lambda>c. js '' && '' @ condition_text c) cs) @ r) ys r"
proof (induction cs)
  case Nil
  then show ?case using wins_many_stop [of m_and r] by auto
next
  case (Cons c cs)
  let ?r = "concat (map (\<lambda>c. js '' && '' @ condition_text c) cs) @ r"
  have c: "bound_ok c" using Cons.prems by simp
  note f = bound_text_facts [OF c]
  obtain ys where ys: "wins (m_many m_and) ?r ys r" using Cons by auto
  have stop: "stop is_bound_char ?r"
    using Cons.prems(2) by (cases cs) (auto simp: js_def is_bound_char_def is_digit_def)
  obtain y where y: "wins m_comparison (condition_text c @ ?r) y ?r" using wins_condition [OF c stop] by blast
  have hd: "\<not> is_ws (hd (condition_text c @ ?r))" using f by (auto simp: trimmed_def)
  have amp: "wins (m_lit ''&&'') (38 # 38 # s) () s" for s by (simp add: wins_def m_lit_eval)
  have "wins m_and (32 # 38 # 38 # 32 # condition_text c @ ?r) y ?r"
    using wins_ws [of "38 # 38 # 32 # condition_text c @ ?r"] wins_ws [of "condition_text c @ ?r"] hd amp y
    by (auto simp: blank_facts intro!: wins_seq)
  then have "wins (m_many m_and) (32 # 38 # 38 # 32 # condition_text c @ ?r) (y # ys) r"
    by (rule wins_many_step [OF _ _ ys]) simp
  then show ?case by (intro exI) (simp add: js_def)
qed

lemma join_separated: "join sep (x # xs) = x @ concat (map (\<lambda>y. sep @ y) xs)"
  by (induction xs arbitrary: x) simp_all

lemma wins_condGroup:
  assumes "list_all bound_ok cs" "cs \<noteq> []" "stop is_bound_char r" "m_and r = []"
  shows "wins condGroup (join (js '' && '') (map condition_text cs) @ r) (join (js '' && '') (map condition_text cs)) r"
proof -
  obtain c cs' where cs: "cs = c # cs'" using assms(2) by (cases cs) auto
  let ?r = "concat (map (\<lambda>c. js '' && '' @ condition_text c) cs') @ r"
  have j: "join (js '' && '') (map condition_text cs) = condition_text c @ concat (map (\<lambda>c. js '' && '' @ condition_text c) cs')"
    by (simp add: cs join_separated comp_def del: join.simps)
  have stop: "stop is_bound_char ?r" using assms(3) by (cases cs') (auto simp: js_def is_bound_char_def is_digit_def)
  have c: "bound_ok c" using assms(1) cs by simp
  obtain y where "wins m_comparison (condition_text c @ ?r) y ?r" using wins_condition [OF c stop] by blast
  moreover obtain ys where "wins (m_many m_and) ?r ys r" using wins_and_list [of cs' r] assms cs by auto
  ultimately have "wins (m_seq m_comparison (m_many m_and)) (condition_text c @ ?r) ys r" by (rule wins_seq)
  then show ?thesis unfolding condGroup_def j by (intro wins_text) simp
qed

lemma and_none: "m_and (32 # 63 # s) = []" "m_and (63 # s) = []"
  by (simp_all add: m_seq_def m_then_def m_ws_one m_ws_none blank_facts m_lit_eval)

lemma comparison_none: "c \<notin> {112, 99, 108} \<Longrightarrow> m_comparison (c # s) = []"
  by (simp add: m_comparison_def m_then_def m_alt_def m_seq_def m_return_def m_lit_eval)

lemma condition_none: "c \<notin> {112, 99, 108} \<Longrightarrow> m_condition (c # s) = [(None, c # s)]"
  by (simp add: m_condition_def m_opt_def m_then_def condGroup_def m_text_def m_seq_def comparison_none)

definition condition_prefix :: "jsval list \<Rightarrow> jstr" where
  "condition_prefix cs = (if cs = [] then [] else join (js '' && '') (map condition_text cs) @ js '' ? '')"

definition condition_capture :: "jsval list \<Rightarrow> jstr option" where
  "condition_capture cs = (if cs = [] then None else Some (join (js '' && '') (map condition_text cs)))"

lemma wins_m_condition:
  assumes "list_all bound_ok cs"
  shows "wins m_condition (condition_prefix cs @ js ''tier('' @ s) (condition_capture cs) (js ''tier('' @ s)"
proof (cases "cs = []")
  case True
  then show ?thesis using condition_none [of 116] by (simp add: condition_prefix_def condition_capture_def wins_def js_def)
next
  case False
  let ?j = "join (js '' && '') (map condition_text cs)" and ?t = "js ''tier('' @ s"
  have "wins condGroup (?j @ 32 # 63 # 32 # ?t) ?j (32 # 63 # 32 # ?t)"
    using assms False and_none by (intro wins_condGroup) (auto simp: is_bound_char_def is_digit_def)
  moreover have "wins (m_seq m_ws (m_seq (m_lit ''?'') (m_seq m_ws (m_return ?j)))) (32 # 63 # 32 # ?t) ?j ?t"
    by (simp add: wins_def m_seq_def m_then_def m_ws_one m_lit_eval m_return_def blank_facts js_def)
  ultimately have "wins m_condition (?j @ 32 # 63 # 32 # ?t) (Some ?j) ?t"
    unfolding m_condition_def by (intro wins_opt wins_then)
  then show ?thesis using False by (simp add: condition_prefix_def condition_capture_def js_def)
qed

section \<open>The whole expression\<close>

lemma body_chars:
  assumes "list_all (\<lambda>(v, x). cost_ok x) (body_terms tier)"
  shows "list_all (\<lambda>c. c \<noteq> 41) (buildTierBodyExpr tier)" "\<exists>s. buildTierBodyExpr tier = 112 # s"
proof -
  have "41 \<notin> set (term_text v x)" if "(v, x) \<in> set (body_terms tier)" for v x
  proof -
    have "cost_ok x" using assms that by (auto simp: list_all_iff)
    then have "41 \<notin> set (String x)" using num_char_ws by (auto simp: cost_ok_def list_all_iff)
    moreover have "v \<in> set (map var_key BILLING_PRICING_VARS)" using body_keys(2) [of tier] that by force
    then have "41 \<notin> set (js v)" unfolding pricing_keys by (auto simp: js_def)
    ultimately show ?thesis by (simp add: term_text_def js_def)
  qed
  then have texts: "\<forall>t \<in> set (map (\<lambda>(v, x). term_text v x) (body_terms tier)). 41 \<notin> set t" by auto
  have "41 \<notin> set (join (js '' + '') ts)" if "\<forall>t \<in> set ts. 41 \<notin> set t" for ts
    using that by (induction "js '' + ''" ts rule: join.induct) (auto simp: js_def)
  then show "list_all (\<lambda>c. c \<noteq> 41) (buildTierBodyExpr tier)"
    using texts unfolding buildTierBodyExpr_def list_all_iff by metis
  show "\<exists>s. buildTierBodyExpr tier = 112 # s"
    by (simp add: buildTierBodyExpr_def body_terms_def term_text_def js_def)
qed

lemma wins_label:
  assumes "34 \<notin> set l" "stop is_ws s"
  shows "wins m_label (js ''tier('' @ [34] @ l @ [34] @ js '', '' @ s) l s"
proof -
  have "wins (m_lit (''tier('' @ [CHR 0x22])) (js ''tier('' @ 34 # l @ 34 # js '', '' @ s) () (l @ 34 # js '', '' @ s)"
    by (simp add: wins_def m_lit_eval js_def)
  moreover have "wins (m_star (\<lambda>c. c \<noteq> 34)) (l @ 34 # js '', '' @ s) l (34 # js '', '' @ s)"
    using assms(1) by (intro wins_star) (auto simp: list_all_iff)
  moreover have "wins (m_seq (m_lit (CHR 0x22 # '','')) (m_seq m_ws (m_return l))) (34 # js '', '' @ s) l s"
    using assms(2) by (simp add: wins_def m_seq_def m_then_def m_lit_eval m_ws_one m_return_def js_def)
  ultimately show ?thesis unfolding m_label_def using wins_seq wins_then by fastforce
qed

lemma wins_tier:
  assumes cs: "list_all bound_ok cs" and l: "34 \<notin> set l" and t: "list_all (\<lambda>(v, x). cost_ok x) (body_terms tier)"
  shows "wins tierRe (condition_prefix cs @ tier_call l tier @ r) (condition_capture cs, l, buildTierBodyExpr tier) r"
proof -
  let ?b = "buildTierBodyExpr tier"
  have b: "list_all (\<lambda>c. c \<noteq> 41) ?b" "?b \<noteq> []" "stop is_ws (?b @ 41 # r)" using body_chars [OF t] by (auto simp: blank_facts)
  have label: "wins m_label (js ''tier('' @ [34] @ l @ [34] @ js '', '' @ ?b @ 41 # r) l (?b @ 41 # r)"
    using wins_label [OF l b(3)] by simp
  have body: "wins (m_plus (\<lambda>c. c \<noteq> 41)) (?b @ 41 # r) ?b (41 # r)" using b(1,2) by (intro wins_plus) auto
  have close: "wins (m_seq (m_lit '')'') (m_return (condition_capture cs, l, ?b))) (41 # r) (condition_capture cs, l, ?b) r"
    by (simp add: wins_def m_seq_def m_then_def m_lit_eval m_return_def)
  have "wins tierRe (condition_prefix cs @ js ''tier('' @ [34] @ l @ [34] @ js '', '' @ ?b @ 41 # r) (condition_capture cs, l, ?b) r"
    unfolding tierRe_def
    by (rule wins_then [OF wins_m_condition [OF cs]], rule wins_then [OF label], rule wins_then [OF body], rule close)
  then show ?thesis by (simp add: tier_call_def js_def)
qed

lemma tier_none: "c \<notin> {112, 99, 108, 116} \<Longrightarrow> tierRe (c # s) = []"
  by (simp add: tierRe_def m_then_def condition_none m_label_def m_seq_def m_lit_eval)

text \<open>What the table shows of a tier written with a label and conditions.\<close>

definition shown_tier :: "jstr \<Rightarrow> jsval list \<Rightarrow> jsobj \<Rightarrow> parsed_tier" where
  "shown_tier l cs tier = \<lparr>prices = tier_costs tier, parsed_label = l, parsed_conditions = map shown_condition cs\<rparr>"

fun shown_chain :: "nat \<Rightarrow> jsobj list \<Rightarrow> parsed_tier list" where
  "shown_chain i [] = []"
| "shown_chain i (t # ts) = shown_tier (label_or t (js ''tier_'' @ show_nat (i + 1))) (if ts = [] then [] else usable_conditions t) t #
     shown_chain (Suc i) ts"

text \<open>A tier alone keeps its conditions; in a chain the last tier is the fallback and shows none.\<close>

definition shown_tiers :: "jsobj list \<Rightarrow> parsed_tier list" where
  "shown_tiers ts = (case ts of [t] \<Rightarrow> [shown_tier (label_or t (js ''default'')) (usable_conditions t) t] | _ \<Rightarrow> shown_chain 0 ts)"

lemma capture_read: "list_all bound_ok cs \<Longrightarrow> conditions_of (condition_capture cs) = map shown_condition cs"
proof (cases cs)
  case (Cons c cs')
  assume ok: "list_all bound_ok cs"
  then have "join (js '' && '') (map condition_text cs) \<noteq> []"
    using bound_text_facts(1) [of c] Cons by (simp add: join_separated del: join.simps)
  then show ?thesis using bounds_read [OF ok, of "[]"] Cons by (simp add: conditions_of_def condition_capture_def)
qed (simp add: conditions_of_def condition_capture_def)

lemma tier_read:
  assumes "list_all bound_ok cs" "34 \<notin> set l" "list_all (\<lambda>(v, x). cost_ok x) (body_terms tier)"
  shows "map parsed_of (exec_all (\<lambda>_. tierRe) w (condition_prefix cs @ tier_call l tier @ r)) =
    shown_tier l cs tier # map parsed_of (exec_all (\<lambda>_. tierRe) False r)"
proof -
  let ?a = "condition_prefix cs @ tier_call l tier"
  have ne: "?a \<noteq> []" and last: "last ?a = 41" by (simp_all add: tier_call_def js_def)
  have "wins tierRe (?a @ r) (condition_capture cs, l, buildTierBodyExpr tier) r" using wins_tier [OF assms] by simp
  then have "exec_all (\<lambda>_. tierRe) w (?a @ r) = (condition_capture cs, l, buildTierBodyExpr tier) # exec_all (\<lambda>_. tierRe) (is_word (last ?a)) r"
    using ne by (rule exec_match [where m = "\<lambda>_. tierRe"])
  then show ?thesis unfolding last
    by (simp add: parsed_of_def shown_tier_def capture_read [OF assms(1)] body_read [OF assms(3)] is_word_def is_digit_def)
qed

lemma condition_str:
  "writable t \<Longrightarrow> buildConditionStr (obj_get t (js ''conditions'')) = Some (join (js '' && '') (map condition_text (usable_conditions t)))"
  by (auto simp: buildConditionStr_def usable_conditions_def writable_def)

lemma condition_str_empty:
  "list_all bound_ok (usable_conditions t) \<Longrightarrow> join (js '' && '') (map condition_text (usable_conditions t)) = [] \<longleftrightarrow> usable_conditions t = []"
  using bound_text_facts(1)
  by (cases "usable_conditions t") (auto simp: join_separated simp del: join.simps(2-))

text \<open>The texts that are written when no condition throws.\<close>

definition part_text :: "nat \<Rightarrow> nat \<Rightarrow> jsobj \<Rightarrow> jstr" where
  "part_text n i t = condition_prefix (if i + 1 < n then usable_conditions t else []) @
     tier_call (label_or t (js ''tier_'' @ show_nat (i + 1))) t"

fun part_texts :: "nat \<Rightarrow> nat \<Rightarrow> jsobj list \<Rightarrow> jstr list" where
  "part_texts n i [] = []"
| "part_texts n i (t # ts) = part_text n i t # part_texts n (Suc i) ts"

definition single_text :: "jsobj \<Rightarrow> jstr" where
  "single_text t = condition_prefix (usable_conditions t) @ tier_call (label_or t (js ''default'')) t @
     (if usable_conditions t = [] then [] else js '' : p * 0 + c * 0'')"

definition config_text :: "jsobj list \<Rightarrow> jstr" where
  "config_text ts = (case ts of [t] \<Rightarrow> single_text t | _ \<Rightarrow> join (js '' : '') (part_texts (length ts) 0 ts))"

lemma tier_part_text: "writable t \<Longrightarrow> list_all bound_ok (usable_conditions t) \<Longrightarrow> tier_part n i t = Some (part_text n i t)"
  using condition_str_empty [of t] by (auto simp: tier_part_def part_text_def Let_def condition_prefix_def condition_str)

lemma tier_parts_texts:
  "list_all (\<lambda>t. writable t \<and> list_all bound_ok (usable_conditions t)) ts \<Longrightarrow> tier_parts n i ts = Some (part_texts n i ts)"
  by (induction ts arbitrary: i) (simp_all add: tier_part_text)

lemma visual_text_written:
  assumes "config_tiers cfg \<noteq> []" "list_all (\<lambda>t. writable t \<and> list_all bound_ok (usable_conditions t)) (config_tiers cfg)"
  shows "generateExprFromVisualConfig (Some cfg) = Some (config_text (config_tiers cfg))"
proof -
  consider t where "config_tiers cfg = [t]" | t u ts where "config_tiers cfg = t # u # ts" using assms(1) by (metis list.exhaust)
  then show ?thesis
  proof cases
    case 1
    then show ?thesis using assms(2) condition_str_empty [of t]
      by (auto simp: generateExprFromVisualConfig_def config_text_def single_text_def Let_def condition_prefix_def condition_str)
  next
    case 2
    then show ?thesis using tier_parts_texts [OF assms(2), of "length (config_tiers cfg)" 0]
      by (simp add: generateExprFromVisualConfig_def config_text_def)
  qed
qed

lemma visual_writable: "list_all visual_ok ts \<Longrightarrow> list_all (\<lambda>t. writable t \<and> list_all bound_ok (usable_conditions t)) ts"
  by (simp add: list_all_iff visual_ok_def)

lemma label_quote: "34 \<notin> set (label_or t []) \<Longrightarrow> 34 \<notin> set d \<Longrightarrow> 34 \<notin> set (label_or t d)"
  by (auto simp: label_or_def js_or_def split: if_splits)

lemma numbered_quote: "34 \<notin> set (js ''tier_'' @ show_nat n)"
  using show_nat_digits [of 34 n] by (auto simp: js_def is_digit_def)

lemma exec_colon: "exec_all (\<lambda>_. tierRe) w (js '' : '' @ r) = exec_all (\<lambda>_. tierRe) False r"
  by (simp add: js_def exec_skip tier_none is_word_def is_digit_def)

lemma visual_chain_read:
  "list_all visual_ok ts \<Longrightarrow> n = i + length ts \<Longrightarrow>
     map parsed_of (exec_all (\<lambda>_. tierRe) False (join (js '' : '') (part_texts n i ts))) = shown_chain i ts"
proof (induction ts arbitrary: i)
  case (Cons t ts)
  have ok: "list_all bound_ok (usable_conditions t)" "list_all (\<lambda>(v, x). cost_ok x) (body_terms t)" "34 \<notin> set (label_or t [])"
    using Cons.prems by (simp_all add: visual_ok_def)
  note l = label_quote [OF ok(3) numbered_quote, of "i + 1"]
  show ?case
  proof (cases ts)
    case Nil
    then show ?thesis using tier_read [of "[]", OF _ l ok(2), of False "[]"] Cons.prems
      by (simp add: part_text_def condition_prefix_def)
  next
    case (Cons t' ts')
    then show ?thesis using tier_read [OF ok(1) l ok(2)] Cons.prems Cons.IH [of "Suc i"]
      by (simp add: part_text_def exec_colon)
  qed
qed simp

lemma zero_tail: "exec_all (\<lambda>_. tierRe) False (js '' : p * 0 + c * 0'') = []"
  by code_simp

lemma unversioned: "s \<noteq> [] \<Longrightarrow> hd s \<noteq> 118 \<Longrightarrow> snd (stripExprVersion s) = s"
  by (cases s) (simp_all add: stripExprVersion_def Let_def)

lemma tier_text_start:
  assumes "list_all bound_ok cs"
  shows "condition_prefix cs @ tier_call l t @ r \<noteq> []" "hd (condition_prefix cs @ tier_call l t @ r) \<noteq> 118"
proof -
  show "condition_prefix cs @ tier_call l t @ r \<noteq> []" by (simp add: tier_call_def js_def)
  show "hd (condition_prefix cs @ tier_call l t @ r) \<noteq> 118"
    using assms bound_text_facts [of "hd cs"]
    by (cases cs) (auto simp: condition_prefix_def tier_call_def js_def join_separated simp del: join.simps)
qed

lemma config_text_read:
  assumes "ts \<noteq> []" "list_all visual_ok ts"
  shows "parseTiersFromExpr (config_text ts) = shown_tiers ts"
proof -
  obtain t us where ts: "ts = t # us" using assms(1) by (cases ts) auto
  have ok: "list_all bound_ok (usable_conditions t)" "list_all (\<lambda>(v, x). cost_ok x) (body_terms t)" "34 \<notin> set (label_or t [])"
    using assms(2) by (simp_all add: ts visual_ok_def)
  show ?thesis
  proof (cases us)
    case Nil
    let ?l = "label_or t (js ''default'')" and ?cs = "usable_conditions t"
    let ?r = "if ?cs = [] then [] else js '' : p * 0 + c * 0''"
    have l: "34 \<notin> set ?l" using label_quote [OF ok(3)] by (simp add: js_def)
    show ?thesis using tier_text_start [OF ok(1), of ?l t ?r] tier_read [OF ok(1) l ok(2), of False ?r] zero_tail
      by (simp add: parseTiersFromExpr_def unversioned shown_tiers_def ts Nil config_text_def single_text_def)
  next
    case (Cons t' ts')
    let ?e = "join (js '' : '') (part_texts (length (t # us)) 0 (t # us))"
    have e: "config_text ts = ?e" by (simp add: config_text_def ts Cons)
    have "?e = condition_prefix (usable_conditions t) @ tier_call (label_or t (js ''tier_'' @ show_nat 1)) t @
        js '' : '' @ join (js '' : '') (part_texts (length (t # us)) 1 us)"
      by (simp add: Cons part_text_def)
    then have "?e \<noteq> [] \<and> hd ?e \<noteq> 118" using tier_text_start [OF ok(1)] by metis
    then show ?thesis using visual_chain_read [of "t # us" "length (t # us)" 0] assms(2) Cons
      unfolding e by (simp add: parseTiersFromExpr_def unversioned shown_tiers_def ts)
  qed
qed

text \<open>
  C16: For a configuration of the visual tier editor with at least one tier, labels without quotes, conditions in
  an array, prices and bounds whose text is a number, an expression is generated and the price table reads it as
  exactly the tiers of the configuration: every tier in order with its label (or the default one), the price of each of the nine
  variables, zero ones included, and its conditions, where the last of several tiers is the fallback and has
  no condition.
\<close>

theorem visual_tiers_shown:
  assumes "config_tiers cfg \<noteq> []" "list_all visual_ok (config_tiers cfg)"
  shows "map_option parseTiersFromExpr (generateExprFromVisualConfig (Some cfg)) = Some (shown_tiers (config_tiers cfg))"
  using visual_text_written [OF assms(1) visual_writable [OF assms(2)]] config_text_read [OF assms] by simp

definition sample_visual :: jsobj where
  "sample_visual = [(js ''tiers'', JArr
     [JObj [(js ''label'', JStr (js ''short'')), (js ''input_unit_cost'', JNum (Fin 2)), (js ''output_unit_cost'', JNum (Fin 10)),
        (js ''cache_create_1h_unit_cost'', JNum (Fin 4)),
        (js ''conditions'', JArr [JObj [(js ''var'', JStr (js ''len'')), (js ''op'', JStr (js ''<='')), (js ''value'', JNum (Fin 200000))]])],
      JObj [(js ''label'', JStr []), (js ''input_unit_cost'', JNum (Fin 3)), (js ''output_unit_cost'', JNum (Fin 15))]])]"

theorem visual_tiers_shown_witness:
  "config_tiers sample_visual \<noteq> [] \<and> list_all visual_ok (config_tiers sample_visual) \<and>
   map_option parseTiersFromExpr (generateExprFromVisualConfig (Some sample_visual)) = Some (shown_tiers (config_tiers sample_visual)) \<and>
   map parsed_label (shown_tiers (config_tiers sample_visual)) = [js ''short'', js ''tier_2'']"
proof -
  have a: "config_tiers sample_visual \<noteq> []" by code_simp
  have b: "list_all visual_ok (config_tiers sample_visual)" by code_simp
  have c: "map parsed_label (shown_tiers (config_tiers sample_visual)) = [js ''short'', js ''tier_2'']" by code_simp
  show ?thesis using a b c visual_tiers_shown [OF a b] by blast
qed

section \<open>Two limits of the grammar\<close>

text \<open>
  The class of a price contains the plus sign, so a sum written without blanks loses its first price: the text
  after \<open>p*\<close> is \<open>2+\<close>, which is no number.
\<close>

lemma compact_sum_loses_price:
  "map_of (parseTierBody (js ''p*2+c*10'')) ''inputPrice'' = Some (Fin 0)"
  "map_of (parseTierBody (js ''p * 2 + c * 10'')) ''inputPrice'' = Some (Fin 2)"
  by code_simp+

text \<open>A tier that is not the last and has no condition is written as a call followed by a colon, with no question mark.\<close>

lemma unconditional_middle_tier:
  "generateExprFromVisualConfig (Some [(js ''tiers'', JArr [JObj [(js ''label'', JStr (js ''a''))], JObj [(js ''label'', JStr (js ''b''))]])]) =
     Some (tier_call (js ''a'') [] @ js '' : '' @ tier_call (js ''b'') [])"
  by code_simp

end
