(* ===== verification/TierNormal.thy ===== *)
theory TierNormal
  imports TierRoundtrip
begin

text \<open>
  Normalising visual tiers: what each property of a normalised tier is, and that no generated expression
  changes.
\<close>

section \<open>Properties of a spread object\<close>

lemma map_of_spread: "map_of (spread a b) k = (case map_of (rev b) k of Some v \<Rightarrow> Some v | None \<Rightarrow> map_of a k)"
proof (induction b arbitrary: a)
  case (Cons p b)
  obtain x v where p: "p = (x, v)" by (cases p)
  have "spread a (p # b) = spread (obj_put x v a) b" by (simp add: spread_def p)
  then show ?case by (simp add: Cons.IH p map_of_append map_add_def split: option.split)
qed (simp add: spread_def)

lemma map_of_rev: "distinct (map fst b) \<Longrightarrow> map_of (rev b) = map_of b"
  by (simp add: map_of_inject_set flip: rev_map)

lemma obj_get_eq: "map_of a k = map_of b l \<Longrightarrow> obj_get a k = obj_get b l"
  by (simp add: obj_get_def)

text \<open>An object has each property once.\<close>

definition is_obj :: "jsobj \<Rightarrow> bool" where
  "is_obj t \<longleftrightarrow> distinct (map fst t)"

lemma extra_entry:
  "map_of (rev (map (cost_entry t) EXTRA_COST_FIELDS)) k =
     (if k \<in> js ` set EXTRA_COST_FIELDS then Some (JNum (number_or_zero (obj_get t k))) else None)"
  by (auto simp: EXTRA_COST_FIELDS_def cost_entry_def js_inject)

lemma normal_lookup:
  assumes "is_obj t"
  shows "map_of (normalizeVisualTier t) k =
    (if k \<in> js ` set EXTRA_COST_FIELDS then Some (JNum (number_or_zero (obj_get t k)))
     else case map_of t k of Some v \<Rightarrow> Some v
     | None \<Rightarrow> if k = js ''label'' then Some (JStr []) else if k = js ''input_unit_cost'' \<or> k = js ''output_unit_cost'' then Some (JNum (Fin 0))
       else if k = js ''cache_mode'' then Some (JStr (getTierCacheMode t)) else if k = js ''conditions'' then Some (JArr []) else None)"
proof -
  have undef: "obj_get t k = JUndef" if "map_of t k = None" for k using that by (simp add: obj_get_def)
  have z: "number_or_zero JUndef = Fin 0" by (simp add: number_or_zero_def num_truthy_def)
  show ?thesis
    unfolding normalizeVisualTier_def map_of_spread extra_entry map_of_rev [OF assms [unfolded is_obj_def]]
    by (auto simp: cost_entry_def js_inject undef z js_coalesce_def nullish_def split: option.split)
qed

section \<open>Normalising keeps the text\<close>

definition COST_FIELDS :: "string list" where
  "COST_FIELDS = ''input_unit_cost'' # ''output_unit_cost'' # EXTRA_COST_FIELDS"

lemma normal_cost:
  assumes "is_obj t" "f \<in> set COST_FIELDS"
  shows "number_or_zero (obj_get (normalizeVisualTier t) (js f)) = number_or_zero (obj_get t (js f))"
proof (cases "f \<in> set EXTRA_COST_FIELDS")
  case True
  then show ?thesis by (simp add: obj_get_def normal_lookup [OF assms(1)] number_or_zero_def)
next
  case False
  then have f: "f = ''input_unit_cost'' \<or> f = ''output_unit_cost''" using assms(2) by (simp add: COST_FIELDS_def)
  have out: "js f \<notin> js ` set EXTRA_COST_FIELDS" using False by (auto simp: js_inject)
  show ?thesis using f out by (auto simp: obj_get_def normal_lookup [OF assms(1)] number_or_zero_def num_truthy_def js_inject split: option.split)
qed

lemma normal_label: "is_obj t \<Longrightarrow> label_or (normalizeVisualTier t) d = label_or t d"
  by (auto simp: label_or_def obj_get_def normal_lookup js_or_def EXTRA_COST_FIELDS_def js_inject split: option.split)

lemma normal_conditions:
  "is_obj t \<Longrightarrow> condition_list (obj_get (normalizeVisualTier t) (js ''conditions'')) = condition_list (obj_get t (js ''conditions''))"
  by (auto simp: obj_get_def normal_lookup EXTRA_COST_FIELDS_def js_inject split: option.split)

text \<open>What the writer sees of a tier.\<close>

definition same_text :: "jsobj \<Rightarrow> jsobj \<Rightarrow> bool" where
  "same_text t u \<longleftrightarrow> (\<forall>f \<in> set COST_FIELDS. number_or_zero (obj_get t (js f)) = number_or_zero (obj_get u (js f))) \<and>
     (\<forall>d. label_or t d = label_or u d) \<and>
     buildConditionStr (obj_get t (js ''conditions'')) = buildConditionStr (obj_get u (js ''conditions''))"

lemma normal_same_text: "is_obj t \<Longrightarrow> same_text (normalizeVisualTier t) t"
  by (simp add: same_text_def normal_cost normal_label buildConditionStr_def normal_conditions)

lemma same_text_body: "same_text t u \<Longrightarrow> body_terms t = body_terms u"
  by (auto simp: same_text_def body_terms_def cache_vars COST_FIELDS_def EXTRA_COST_FIELDS_def)

lemma same_text_call: "same_text t u \<Longrightarrow> tier_call l t = tier_call l u"
  by (simp add: tier_call_def buildTierBodyExpr_def same_text_body)

lemma same_text_part:
  assumes "same_text t u"
  shows "tier_part n i t = tier_part n i u"
proof -
  have "label_or t d = label_or u d" for d using assms by (simp add: same_text_def)
  moreover have "buildConditionStr (obj_get t (js ''conditions'')) = buildConditionStr (obj_get u (js ''conditions''))"
    using assms by (simp add: same_text_def)
  ultimately show ?thesis unfolding tier_part_def Let_def same_text_call [OF assms] by metis
qed

lemma same_text_parts: "list_all2 same_text ts us \<Longrightarrow> tier_parts n i ts = tier_parts n i us"
  by (induction ts us arbitrary: i rule: list_all2_induct) (simp_all add: same_text_part)

lemma same_text_expr:
  assumes "list_all2 same_text (config_tiers c) (config_tiers d)"
  shows "generateExprFromVisualConfig (Some c) = generateExprFromVisualConfig (Some d)"
proof -
  note len = list_all2_lengthD [OF assms]
  consider "config_tiers d = []" | u where "config_tiers d = [u]" | u v us where "config_tiers d = u # v # us"
    by (metis list.exhaust)
  then show ?thesis
  proof cases
    case 1
    then show ?thesis using len by (simp add: generateExprFromVisualConfig_def)
  next
    case 2
    then obtain t where t: "config_tiers c = [t]" "same_text t u" using assms by (auto simp: list_all2_Cons2)
    have "label_or t d = label_or u d" for d using t(2) by (simp add: same_text_def)
    moreover have "buildConditionStr (obj_get t (js ''conditions'')) = buildConditionStr (obj_get u (js ''conditions''))"
      using t(2) by (simp add: same_text_def)
    ultimately show ?thesis using 2 t same_text_call [OF t(2)] unfolding generateExprFromVisualConfig_def Let_def by (simp cong: if_cong)
  next
    case 3
    then obtain t s ts where t: "config_tiers c = t # s # ts" using assms by (auto simp: list_all2_Cons2)
    then show ?thesis using 3 same_text_parts [OF assms, of "length (config_tiers d)" 0] len
      by (simp add: generateExprFromVisualConfig_def)
  qed
qed

lemma config_tiers_of: "config_tiers [(js ''tiers'', JArr (map JObj ts))] = ts"
  by (simp add: config_tiers_def obj_get_def comp_def)

lemma normal_config_tiers:
  assumes "config_tiers cfg \<noteq> []"
  shows "config_tiers (normalizeVisualConfig (Some cfg)) = map normalizeVisualTier (config_tiers cfg)"
proof -
  obtain t ts where "obj_get cfg (js ''tiers'') = JArr (t # ts)"
    using assms by (cases "obj_get cfg (js ''tiers'')") (auto simp: config_tiers_def neq_Nil_conv)
  then show ?thesis by (simp add: normalizeVisualConfig_def config_tiers_def) (simp add: obj_get_def)
qed

text \<open>
  C21: Normalising a configuration of the visual editor with at least one tier, where the tiers are objects, never
  changes what the writer makes of it, whatever values the tiers carry: missing, of another type, or with further
  properties.  Either both are written as the same expression, or both throw, as for conditions that are neither
  falsy nor empty nor an array.  (A configuration without tiers is replaced by the default tier.)
\<close>

theorem normalizing_keeps_expression:
  assumes "obj_get cfg (js ''tiers'') = JArr (map JObj ts)" "ts \<noteq> []" "list_all is_obj ts"
  shows "generateExprFromVisualConfig (Some (normalizeVisualConfig (Some cfg))) = generateExprFromVisualConfig (Some cfg)"
proof -
  have ts: "config_tiers cfg = ts" using assms(1) by (simp add: config_tiers_def comp_def)
  have "list_all2 same_text (map normalizeVisualTier ts) ts"
    using assms(3) normal_same_text by (auto simp: list_all2_conv_all_nth list_all_length)
  then show ?thesis by (intro same_text_expr) (simp add: normal_config_tiers ts assms(2))
qed

definition rough_tiers :: "jsobj list" where
  "rough_tiers = [[(js ''input_unit_cost'', JStr (js ''2.5'')), (js ''image_unit_cost'', JStr (js ''free'')), (js ''note'', JBool True)],
     [(js ''label'', JNull), (js ''output_unit_cost'', JNum (Fin 3)), (js ''conditions'', JBool False)]]"

definition rough_config :: "jsobj list \<Rightarrow> jsobj" where
  "rough_config ts = [(js ''tiers'', JArr (map JObj ts))]"

theorem normalizing_keeps_expression_witness:
  "list_all is_obj rough_tiers \<and>
   generateExprFromVisualConfig (Some (normalizeVisualConfig (Some (rough_config rough_tiers)))) =
     Some (js ''tier('' @ [34] @ js ''tier_1'' @ [34] @ js '', p * 2.5 + c * 0) : tier('' @ [34] @ js ''tier_2'' @ [34] @ js '', p * 0 + c * 3)'') \<and>
   generateExprFromVisualConfig (Some (normalizeVisualConfig (Some (rough_config [[(js ''conditions'', JStr (js ''none''))]])))) = None"
proof -
  have a: "obj_get (rough_config ts) (js ''tiers'') = JArr (map JObj ts)" for ts by (simp add: rough_config_def obj_get_def)
  have b: "list_all is_obj rough_tiers" "list_all is_obj [[(js ''conditions'', JStr (js ''none''))]]" by code_simp+
  have c: "generateExprFromVisualConfig (Some (rough_config rough_tiers)) =
     Some (js ''tier('' @ [34] @ js ''tier_1'' @ [34] @ js '', p * 2.5 + c * 0) : tier('' @ [34] @ js ''tier_2'' @ [34] @ js '', p * 0 + c * 3)'')"
    by code_simp
  have d: "generateExprFromVisualConfig (Some (rough_config [[(js ''conditions'', JStr (js ''none''))]])) = None" by code_simp
  have "rough_tiers \<noteq> []" by (simp add: rough_tiers_def)
  then show ?thesis using b(1) c d normalizing_keeps_expression [OF a _ b(1)] normalizing_keeps_expression [OF a _ b(2)] by simp
qed

end
