(* ===== verification/TierReading.thy ===== *)
theory TierReading
  imports TierNormal
begin

text \<open>
  The types of the visual reader: what it returns has the declared types, although the source builds it
  through casts from \<open>Record<string, unknown>\<close>.
\<close>

section \<open>The types of a visual tier\<close>

text \<open>\<open>TierConditionInput\<close> and \<open>VisualTier\<close> as predicates on values.\<close>

definition condition_typed :: "jsval \<Rightarrow> bool" where
  "condition_typed c \<longleftrightarrow> js_get c (js ''var'') \<in> (\<lambda>v. JStr (js v)) ` {''p'', ''c'', ''len''} \<and>
     js_get c (js ''op'') \<in> (\<lambda>p. JStr (js p)) ` set CONDITION_OPS \<and> is_number (js_get c (js ''value''))"

definition visual_typed :: "jsobj \<Rightarrow> bool" where
  "visual_typed t \<longleftrightarrow> is_string (obj_get t (js ''label'')) \<and>
     is_array (obj_get t (js ''conditions'')) \<and> list_all condition_typed (elements (obj_get t (js ''conditions''))) \<and>
     obj_get t (js ''cache_mode'') \<in> {JStr CACHE_MODE_TIMED, JStr CACHE_MODE_GENERIC} \<and>
     list_all (\<lambda>f. is_number (obj_get t (js f))) COST_FIELDS"

text \<open>The tier that the reader builds before it is normalised.\<close>

definition raw_visual :: "tier_condition list \<Rightarrow> jstr \<times> jstr \<times> jstr \<times> jstr option list \<Rightarrow> jsobj" where
  "raw_visual conds m = (case m of (l, a, b, xs) \<Rightarrow> spread
     [(js ''conditions'', JArr (map condition_object conds)), (js ''input_unit_cost'', JNum (Number a)),
      (js ''output_unit_cost'', JNum (Number b)), (js ''label'', JStr l)]
     (List.map_filter (\<lambda>((field, _), x). map_option (\<lambda>y. (js field, JNum (Number y))) x) (zip BILLING_CACHE_VAR_MAP xs)))"

lemma read_visual_raw: "read_visual conds m = normalizeVisualTier (raw_visual conds m)"
  by (simp add: read_visual_def raw_visual_def split: prod.split)

lemma normal_is_obj: "is_obj (normalizeVisualTier t)"
  unfolding is_obj_def normalizeVisualTier_def by (intro distinct_spread) (simp add: cost_entry_def js_inject)

lemma raw_is_obj: "is_obj (raw_visual conds m)"
  unfolding is_obj_def raw_visual_def by (cases m) (auto intro!: distinct_spread simp: js_inject)

lemma read_is_obj: "is_obj (read_visual conds m)"
  by (simp add: read_visual_raw normal_is_obj)

text \<open>The further prices are the only properties that the optional groups can set.\<close>

lemma cache_entries_keys:
  "k \<in> fst ` set (List.map_filter (\<lambda>((field, _), x). map_option (\<lambda>y. (js field, JNum (Number y))) x) (zip BILLING_CACHE_VAR_MAP xs)) \<Longrightarrow>
     k \<in> js ` set EXTRA_COST_FIELDS"
  unfolding List.map_filter_def by (auto simp: cache_vars EXTRA_COST_FIELDS_def dest!: set_zip_leftD)

lemma raw_lookup:
  assumes "k \<notin> js ` set EXTRA_COST_FIELDS"
  shows "map_of (raw_visual conds (l, a, b, xs)) k = map_of
     [(js ''conditions'', JArr (map condition_object conds)), (js ''input_unit_cost'', JNum (Number a)),
      (js ''output_unit_cost'', JNum (Number b)), (js ''label'', JStr l)] k"
proof -
  have "map_of (rev (List.map_filter (\<lambda>((field, _), x). map_option (\<lambda>y. (js field, JNum (Number y))) x) (zip BILLING_CACHE_VAR_MAP xs))) k = None"
    using cache_entries_keys [of k xs] assms unfolding map_of_eq_None_iff by (metis set_rev)
  then show ?thesis unfolding raw_visual_def prod.case map_of_spread by simp
qed

lemma main_fields: "js f \<notin> js ` set EXTRA_COST_FIELDS" if "f \<in> {''conditions'', ''input_unit_cost'', ''output_unit_cost'', ''label'', ''cache_mode''}"
  using that by (auto simp: EXTRA_COST_FIELDS_def js_inject)

lemma set_then: "(y, t) \<in> set (m_then p f s) \<longleftrightarrow> (\<exists>x r. (x, r) \<in> set (p s) \<and> (y, t) \<in> set (f x r))"
  by (force simp: m_then_def)

lemma set_alt: "(v, r) \<in> set (m_alt ps s) \<Longrightarrow> v \<in> set ps"
  by (auto simp: m_alt_def m_seq_def m_then_def m_return_def)

lemma comparison_vars: "((v, p, x), r) \<in> set (m_comparison s) \<Longrightarrow> v \<in> {''p'', ''c'', ''len''} \<and> p \<in> set CONDITION_OPS"
  unfolding m_comparison_def m_seq_def set_then by (auto simp: m_return_def dest!: set_alt)

lemma condition_of_typed:
  assumes "condition_of cp = Some c"
  shows "condition_typed (condition_object c)"
proof -
  obtain v p x r zs where m: "filter (\<lambda>(x, r). r = []) (m_comparison (js_trim cp)) = ((v, p, x), r) # zs"
      "c = \<lparr>cond_var = v, cond_op = p, cond_value = Number x\<rparr>"
    using assms by (auto simp: condition_of_def split: list.splits)
  have "((v, p, x), r) \<in> set (m_comparison (js_trim cp))" using m(1) filter_is_subset [of _ "m_comparison (js_trim cp)"] by (metis list.set_intros(1) subsetD)
  then show ?thesis using comparison_vars m(2) by (fastforce simp: condition_typed_def condition_object_def obj_get_def js_inject)
qed

lemma conditions_of_typed: "c \<in> set (conditions_of t) \<Longrightarrow> condition_typed (condition_object c)"
  unfolding conditions_of_def by (auto simp: List.map_filter_def condition_of_typed split: option.splits if_splits)

lemma read_typed:
  assumes "\<forall>c \<in> set conds. condition_typed (condition_object c)"
  shows "visual_typed (read_visual conds m)"
proof -
  obtain l a b xs where m: "m = (l, a, b, xs)" by (cases m)
  let ?t = "raw_visual conds (l, a, b, xs)"
  note look = normal_lookup [OF raw_is_obj [of conds "(l, a, b, xs)"]]
  have raw: "map_of ?t (js ''label'') = Some (JStr l)" "map_of ?t (js ''conditions'') = Some (JArr (map condition_object conds))"
      "map_of ?t (js ''input_unit_cost'') = Some (JNum (Number a))" "map_of ?t (js ''output_unit_cost'') = Some (JNum (Number b))"
      "map_of ?t (js ''cache_mode'') = None"
    by (simp_all add: raw_lookup main_fields js_inject)
  have costs: "list_all (\<lambda>f. is_number (obj_get (normalizeVisualTier ?t) (js f))) COST_FIELDS"
    unfolding COST_FIELDS_def list_all_iff by (auto simp: obj_get_def look raw main_fields)
  have mode: "getTierCacheMode ?t \<in> {CACHE_MODE_TIMED, CACHE_MODE_GENERIC}" by (simp add: getTierCacheMode_def)
  show ?thesis unfolding m read_visual_raw visual_typed_def using assms costs mode
    by (auto simp: obj_get_def look raw main_fields js_inject list_all_iff)
qed

text \<open>Normalising a second time, as \<open>normalizeVisualConfig\<close> does, keeps the types.\<close>

lemma normal_main:
  assumes "is_obj t" "f \<in> {''conditions'', ''input_unit_cost'', ''output_unit_cost'', ''label'', ''cache_mode''}" "obj_get t (js f) \<noteq> JUndef"
  shows "obj_get (normalizeVisualTier t) (js f) = obj_get t (js f)"
proof -
  obtain v where "map_of t (js f) = Some v" using assms(3) by (cases "map_of t (js f)") (auto simp: obj_get_def)
  then show ?thesis by (simp add: obj_get_def normal_lookup [OF assms(1)] main_fields [OF assms(2)])
qed

lemma normal_typed:
  assumes "is_obj t" "visual_typed t"
  shows "visual_typed (normalizeVisualTier t)"
proof -
  have ty: "is_string (obj_get t (js ''label''))" "is_array (obj_get t (js ''conditions''))"
      "obj_get t (js ''cache_mode'') \<in> {JStr CACHE_MODE_TIMED, JStr CACHE_MODE_GENERIC}"
      "is_number (obj_get t (js ''input_unit_cost''))" "is_number (obj_get t (js ''output_unit_cost''))"
    using assms(2) by (simp_all add: visual_typed_def COST_FIELDS_def)
  have def: "obj_get t (js ''label'') \<noteq> JUndef" "obj_get t (js ''conditions'') \<noteq> JUndef" "obj_get t (js ''cache_mode'') \<noteq> JUndef"
      "obj_get t (js ''input_unit_cost'') \<noteq> JUndef" "obj_get t (js ''output_unit_cost'') \<noteq> JUndef"
    using ty by auto
  have main: "obj_get (normalizeVisualTier t) (js ''label'') = obj_get t (js ''label'')"
      "obj_get (normalizeVisualTier t) (js ''conditions'') = obj_get t (js ''conditions'')"
      "obj_get (normalizeVisualTier t) (js ''cache_mode'') = obj_get t (js ''cache_mode'')"
      "obj_get (normalizeVisualTier t) (js ''input_unit_cost'') = obj_get t (js ''input_unit_cost'')"
      "obj_get (normalizeVisualTier t) (js ''output_unit_cost'') = obj_get t (js ''output_unit_cost'')"
    using def by (simp_all add: normal_main [OF assms(1)])
  have "is_number (obj_get (normalizeVisualTier t) (js f))" if "f \<in> set EXTRA_COST_FIELDS" for f
    using that by (simp add: obj_get_def normal_lookup [OF assms(1)])
  then show ?thesis using assms(2) ty unfolding visual_typed_def COST_FIELDS_def main by (simp add: list_all_iff main)
qed

definition from_reader :: "jsobj \<Rightarrow> bool" where
  "from_reader t \<longleftrightarrow> (\<exists>conds m. t = read_visual conds m \<and> (\<forall>c \<in> set conds. condition_typed (condition_object c)))"

lemma from_reader_typed: "from_reader t \<Longrightarrow> visual_typed (normalizeVisualTier t)"
  unfolding from_reader_def using normal_typed [OF read_is_obj read_typed] by blast

lemma tiers_config_tiers: "ts \<noteq> [] \<Longrightarrow> config_tiers (tiers_config ts) = map normalizeVisualTier ts"
  using normal_config_tiers [of "[(js ''tiers'', JArr (map JObj ts))]"] by (simp add: tiers_config_def config_tiers_of)

lemma reader_tiers:
  assumes "tryParseVisualConfig s = Some cfg"
  shows "\<exists>ts. cfg = tiers_config ts \<and> ts \<noteq> [] \<and> list_all from_reader ts"
proof -
  obtain e where e: "s = Some e" "e \<noteq> []" using assms by (auto simp: tryParseVisualConfig_def split: option.splits if_splits)
  let ?b = "snd (stripExprVersion e)"
  show ?thesis
  proof (cases "singleRe ?b")
    case (Some m)
    have "from_reader (read_visual [] m)" unfolding from_reader_def by (intro exI [of _ "[]"] exI [of _ m]) simp
    then show ?thesis using assms e Some by (intro exI [of _ "[read_visual [] m]"]) (simp add: tryParseVisualConfig_def Let_def)
  next
    case None
    let ?ts = "map (\<lambda>(t, m). read_visual (conditions_of t) m) (exec_all (\<lambda>_. visualTierRe) False ?b)"
    have "?ts \<noteq> [] \<and> cfg = tiers_config ?ts"
      using assms e None by (auto simp: tryParseVisualConfig_def Let_def split: if_splits option.splits)
    moreover have "from_reader (read_visual (conditions_of t) m)" for t m
      unfolding from_reader_def using conditions_of_typed by blast
    then have "list_all from_reader ?ts" by (auto simp: list_all_iff)
    ultimately show ?thesis by blast
  qed
qed

text \<open>
  C20: Whatever text it is given, the visual reader either refuses it or returns a configuration of the declared
  type with at least one tier: in each tier the label is a string, the cache mode one of the two modes, all
  nine prices are numbers, and the conditions are an array of a variable, an operator and a number each.
\<close>

theorem visual_reader_typed:
  assumes "tryParseVisualConfig s = Some cfg"
  shows "config_tiers cfg \<noteq> [] \<and> list_all visual_typed (config_tiers cfg)"
proof -
  obtain ts where ts: "cfg = tiers_config ts" "ts \<noteq> []" "list_all from_reader ts" using reader_tiers [OF assms] by blast
  then show ?thesis using from_reader_typed by (auto simp: tiers_config_tiers list_all_iff)
qed

theorem visual_reader_typed_witness:
  "\<exists>cfg. tryParseVisualConfig (Some (js ''v1:tier(\"a\",p*3 + c * 0.5 + cc * 1)'')) = Some cfg \<and>
     config_tiers cfg \<noteq> [] \<and> list_all visual_typed (config_tiers cfg)"
proof -
  let ?e = "js ''v1:tier(\"a\",p*3 + c * 0.5 + cc * 1)''"
  have "singleRe (snd (stripExprVersion ?e)) \<noteq> None" by code_simp
  moreover have "?e \<noteq> []" by (simp add: js_def)
  ultimately obtain cfg where "tryParseVisualConfig (Some ?e) = Some cfg" by (auto simp: tryParseVisualConfig_def Let_def)
  then show ?thesis using visual_reader_typed by blast
qed

end
