(* ===== verification/TierReadBack.thy ===== *)
theory TierReadBack
  imports TierReading
begin

text \<open>
  The visual reader on the text of the visual editor: it reads a configuration back for which the same text
  is written.
\<close>

section \<open>The body\<close>

definition captured :: "jsnum \<Rightarrow> jstr option" where
  "captured x = (if x = Fin 0 then None else Some (String x))"

definition added_term :: "string \<times> jsnum \<Rightarrow> jstr" where
  "added_term t = (if snd t = Fin 0 then [] else js '' + '' @ term_text (fst t) (snd t))"

lemma wins_term: "cost_ok x \<Longrightarrow> stop is_num_char r \<Longrightarrow> wins (m_term v) (term_text v x @ r) (String x) r"
  unfolding m_term_def term_text_def append_assoc by (rule wins_seq [OF wins_lit wins_times]) (simp_all add: cost_ok_def)

lemma wins_add:
  assumes "wins p s x r" "stop is_ws s"
  shows "wins (m_add p) (js '' + '' @ s) x r"
proof -
  have plus: "wins (m_lit ''+'') (43 # 32 # s) () (32 # s)" by (simp add: wins_def m_lit_eval)
  have "wins (m_add p) (32 # 43 # 32 # s) x r"
    unfolding m_add_def using wins_ws [of "43 # 32 # s"] wins_ws [of s] plus assms by (intro wins_seq) (auto simp: blank_facts)
  then show ?thesis by (simp add: js_def)
qed

definition cache_keys :: "string list" where
  "cache_keys = [''cr'', ''cc'', ''cc1h'', ''img'', ''img_o'', ''ai'', ''ao'']"

text \<open>A variable that is a prefix of the one in the text is not followed by a multiplication.\<close>

lemma other_term:
  assumes "v \<in> set cache_keys" "u \<in> set cache_keys" "v \<noteq> u"
  shows "m_term v (js u @ 32 # s) = []"
proof -
  have t: "m_times (49 # s') = []" "m_times (95 # s') = []" for s' by (simp_all add: times_none is_ws_def)
  show ?thesis using assms by (auto simp: cache_keys_def m_term_def m_seq_def m_then_def m_lit_eval js_def t)
qed

lemma add_none: "m_add p (41 # s) = []"
  by (simp add: m_add_def m_seq_def m_then_def m_ws_none blank_facts m_lit_eval)

lemma add_other:
  assumes "v \<in> set cache_keys" "u \<in> set cache_keys" "v \<noteq> u"
  shows "m_add (m_term v) (js '' + '' @ js u @ 32 # s) = []"
proof -
  have hd: "js u \<noteq> []" "\<not> is_ws (hd (js u))" using assms(2) by (auto simp: cache_keys_def js_def is_ws_def)
  have blank: "m_term v (32 # t) = []" for t using assms(1) by (auto simp: cache_keys_def m_term_def m_seq_def m_then_def m_lit_eval)
  have "m_ws (32 # js u @ 32 # s) = [([32], js u @ 32 # s), ([], 32 # js u @ 32 # s)]" using hd by (intro m_ws_one) simp
  then have "m_add (m_term v) (32 # 43 # 32 # js u @ 32 # s) = []"
    by (simp add: m_add_def m_seq_def m_then_def m_ws_one blank_facts m_lit_eval other_term [OF assms] blank)
  then show ?thesis by (simp add: js_def)
qed

lemma added_start:
  "concat (map added_term ts) = [] \<or> (\<exists>u s. u \<in> fst ` set ts \<and> concat (map added_term ts) = js '' + '' @ js u @ 32 # s)"
proof (induction ts)
  case (Cons t ts)
  show ?case
  proof (cases "snd t = Fin 0")
    case True
    then show ?thesis using Cons by (auto simp: added_term_def)
  next
    case False
    then have "concat (map added_term (t # ts)) = js '' + '' @ js (fst t) @ 32 # (js ''* '' @ String (snd t) @ concat (map added_term ts))"
      by (simp add: added_term_def term_text_def js_def)
    then show ?thesis by (metis image_eqI list.set_intros(1))
  qed
qed simp

lemma added_stop: "stop is_num_char (concat (map added_term ts) @ 41 # r)"
  using added_start [of ts]
  by (elim disjE exE conjE) (simp_all add: js_def is_num_char_def is_digit_def del: concat_eq_Nil_conv)

lemma wins_optional:
  "distinct (map fst ts) \<Longrightarrow> fst ` set ts \<subseteq> set cache_keys \<Longrightarrow> list_all (\<lambda>(v, x). x = Fin 0 \<or> cost_ok x) ts \<Longrightarrow>
     wins (m_optional_terms (map fst ts)) (concat (map added_term ts) @ 41 # r) (map (\<lambda>t. captured (snd t)) ts) (41 # r)"
proof (induction ts)
  case Nil
  then show ?case by (simp add: wins_return)
next
  case (Cons t ts)
  obtain v x where t: "t = (v, x)" by (cases t)
  let ?r = "concat (map added_term ts) @ 41 # r"
  have v: "v \<in> set cache_keys" "v \<notin> fst ` set ts" using Cons.prems by (auto simp: t)
  have ih: "wins (m_optional_terms (map fst ts)) ?r (map (\<lambda>t. captured (snd t)) ts) (41 # r)" using Cons by simp
  have "wins (m_opt (m_add (m_term v))) (added_term t @ ?r) (captured x) ?r"
  proof (cases "x = Fin 0")
    case True
    have "m_add (m_term v) ?r = []" using added_start [of ts]
    proof
      assume "\<exists>u s. u \<in> fst ` set ts \<and> concat (map added_term ts) = js '' + '' @ js u @ 32 # s"
      then obtain u s where u: "u \<in> fst ` set ts" "concat (map added_term ts) = js '' + '' @ js u @ 32 # s" by blast
      have "v \<noteq> u" "u \<in> set cache_keys" using u(1) v(2) Cons.prems(2) by auto
      then show ?thesis unfolding u(2) append_assoc append_Cons using add_other [OF v(1)] by blast
    qed (simp add: add_none del: concat_eq_Nil_conv)
    then show ?thesis using True wins_skip [of "m_add (m_term v)" ?r] by (simp add: t added_term_def captured_def)
  next
    case False
    then have "cost_ok x" using Cons.prems by (simp add: t)
    then have "wins (m_term v) (term_text v x @ ?r) (String x) ?r" using added_stop by (intro wins_term)
    moreover have "stop is_ws (term_text v x @ ?r)" using v(1) by (auto simp: cache_keys_def term_text_def js_def is_ws_def)
    ultimately have "wins (m_add (m_term v)) (js '' + '' @ term_text v x @ ?r) (String x) ?r" by (rule wins_add)
    then show ?thesis using False wins_opt by (simp add: t added_term_def captured_def)
  qed
  then show ?case using ih by (auto simp: t intro!: wins_then wins_return)
qed

definition captures :: "jsobj \<Rightarrow> jstr \<times> jstr \<times> jstr option list" where
  "captures t = (String (number_or_zero (obj_get t (js ''input_unit_cost''))), String (number_or_zero (obj_get t (js ''output_unit_cost''))),
     map (\<lambda>e. captured (snd e)) (extra_terms t))"

lemma body_text:
  "buildTierBodyExpr t = term_text ''p'' (number_or_zero (obj_get t (js ''input_unit_cost''))) @
     js '' + '' @ term_text ''c'' (number_or_zero (obj_get t (js ''output_unit_cost''))) @ concat (map added_term (extra_terms t))"
proof -
  have "concat (map (\<lambda>y. js '' + '' @ y) (map (\<lambda>(v, x). term_text v x) (filter (\<lambda>(v, x). x \<noteq> Fin 0) es))) = concat (map added_term es)" for es
    by (induction es) (auto simp: added_term_def)
  then show ?thesis unfolding buildTierBodyExpr_def body_terms_def extra_terms_def [symmetric] list.map prod.case join_separated by simp
qed

lemma extra_ok:
  assumes "list_all (\<lambda>(v, x). cost_ok x) (body_terms t)"
  shows "list_all (\<lambda>(v, x). x = Fin 0 \<or> cost_ok x) (extra_terms t)"
    "cost_ok (number_or_zero (obj_get t (js ''input_unit_cost'')))" "cost_ok (number_or_zero (obj_get t (js ''output_unit_cost'')))"
  using assms unfolding body_terms_def extra_terms_def [symmetric] by (auto simp: list_all_iff)

lemma wins_bodyPat:
  assumes "list_all (\<lambda>(v, x). cost_ok x) (body_terms t)"
  shows "wins bodyPat (buildTierBodyExpr t @ 41 # r) (captures t) (41 # r)"
proof -
  let ?i = "number_or_zero (obj_get t (js ''input_unit_cost''))" and ?o = "number_or_zero (obj_get t (js ''output_unit_cost''))"
  let ?s = "concat (map added_term (extra_terms t)) @ 41 # r"
  note ok = extra_ok [OF assms]
  have vars: "map snd BILLING_CACHE_VAR_MAP = map fst (extra_terms t)" by (simp add: cache_vars extra_keys)
  have i: "wins (m_term ''p'') (term_text ''p'' ?i @ js '' + '' @ term_text ''c'' ?o @ ?s) (String ?i) (js '' + '' @ term_text ''c'' ?o @ ?s)"
    using ok(2) by (intro wins_term) (simp_all add: js_def is_num_char_def is_digit_def)
  have o: "wins (m_add (m_term ''c'')) (js '' + '' @ term_text ''c'' ?o @ ?s) (String ?o) ?s"
    using ok(3) added_stop by (intro wins_add wins_term) (simp_all add: term_text_def js_def blank_facts)
  have e: "wins (m_optional_terms (map fst (extra_terms t))) ?s (map (\<lambda>e. captured (snd e)) (extra_terms t)) (41 # r)"
    using ok(1) extra_keys [of t] by (intro wins_optional) (simp_all add: cache_keys_def flip: set_map)
  have "wins bodyPat (term_text ''p'' ?i @ js '' + '' @ term_text ''c'' ?o @ ?s) (captures t) (41 # r)"
    unfolding bodyPat_def captures_def vars by (rule wins_then [OF i], rule wins_then [OF o], rule wins_then [OF e], rule wins_return)
  then show ?thesis by (simp add: body_text)
qed

section \<open>A tier\<close>

lemma wins_call:
  assumes l: "34 \<notin> set l" and t: "list_all (\<lambda>(v, x). cost_ok x) (body_terms t)"
  shows "wins m_call (tier_call l t @ r) (l, captures t) r"
proof -
  let ?b = "buildTierBodyExpr t"
  have b: "stop is_ws (?b @ 41 # r)" using body_chars [OF t] by (auto simp: blank_facts)
  have label: "wins m_label (js ''tier('' @ [34] @ l @ [34] @ js '', '' @ ?b @ 41 # r) l (?b @ 41 # r)"
    by (rule wins_label [OF l b])
  have close: "wins (m_seq (m_lit '')'') (m_return (l, captures t))) (41 # r) (l, captures t) r"
    by (simp add: wins_def m_seq_def m_then_def m_lit_eval m_return_def)
  have "wins m_call (js ''tier('' @ [34] @ l @ [34] @ js '', '' @ ?b @ 41 # r) (l, captures t) r"
    unfolding m_call_def by (rule wins_then [OF label], rule wins_then [OF wins_bodyPat [OF t]], rule close)
  then show ?thesis by (simp add: tier_call_def js_def)
qed

lemma wins_visual:
  assumes "list_all bound_ok cs" "34 \<notin> set l" "list_all (\<lambda>(v, x). cost_ok x) (body_terms t)"
  shows "wins visualTierRe (condition_prefix cs @ tier_call l t @ r) (condition_capture cs, l, captures t) r"
proof -
  obtain s where s: "tier_call l t @ r = js ''tier('' @ s" by (simp add: tier_call_def)
  have cond: "wins m_condition (condition_prefix cs @ tier_call l t @ r) (condition_capture cs) (tier_call l t @ r)"
    unfolding s by (rule wins_m_condition [OF assms(1)])
  show ?thesis unfolding visualTierRe_def
    by (rule wins_then [OF cond], rule wins_then [OF wins_call [OF assms(2,3)]], rule wins_return)
qed

lemma call_none: "c \<noteq> 116 \<Longrightarrow> m_call (c # s) = []"
  by (simp add: m_call_def m_then_def m_label_def m_seq_def m_lit_eval)

lemma visual_none: "c \<notin> {112, 99, 108, 116} \<Longrightarrow> visualTierRe (c # s) = []"
  by (simp add: visualTierRe_def m_then_def condition_none call_none)

section \<open>The single pattern on a chain\<close>

text \<open>A matcher spares a character if no way to match consumes it.\<close>

definition spares :: "jchar \<Rightarrow> 'a matcher \<Rightarrow> bool" where
  "spares c p \<longleftrightarrow> (\<forall>s x r. (x, r) \<in> set (p s) \<longrightarrow> (\<exists>a. s = a @ r \<and> c \<notin> set a))"

lemma spares_then: "spares c p \<Longrightarrow> (\<And>x. spares c (f x)) \<Longrightarrow> spares c (m_then p f)"
  unfolding spares_def set_then by (metis UnE append_assoc set_append)

lemma spares_seq: "spares c p \<Longrightarrow> spares c q \<Longrightarrow> spares c (m_seq p q)"
  by (simp add: m_seq_def spares_then)

lemma spares_return: "spares c (m_return x)"
  by (simp add: spares_def m_return_def)

lemma spares_lit: "c \<notin> set (js l) \<Longrightarrow> spares c (m_lit l)"
  unfolding spares_def m_lit_def lit_def starts_with_def
  by (auto split: if_splits option.splits) (metis append_take_drop_id js_def length_map)

lemma prefixes_memD:
  assumes "(x, r) \<in> set (prefixes_down lo hi s)"
  shows "\<exists>n \<le> hi. x = take n s \<and> r = drop n s"
proof -
  obtain n where "n \<in> set [lo..<Suc hi]" "x = take n s" "r = drop n s"
    using assms by (auto simp: prefixes_down_def simp del: upt_Suc)
  then show ?thesis by (intro exI [of _ n]) auto
qed

lemma class_prefix:
  assumes "n \<le> length (takeWhile f s)" "c \<in> set (take n s)"
  shows "f c"
proof -
  have "take n s = take n (takeWhile f s)" using assms(1) by (metis min.absorb1 takeWhile_eq_take take_take)
  then have "c \<in> set (takeWhile f s)" using assms(2) by (metis in_set_takeD)
  then show ?thesis by (metis set_takeWhileD)
qed

lemma spares_class: "\<not> f c \<Longrightarrow> spares c (m_star f)" "\<not> f c \<Longrightarrow> spares c (m_plus f)"
  unfolding spares_def m_star_def m_plus_def by (metis append_take_drop_id class_prefix prefixes_memD)+

lemma spares_opt: "spares c p \<Longrightarrow> spares c (m_opt p)"
  by (fastforce simp: spares_def m_opt_def)

lemma spares_times: "spares 41 m_times"
  unfolding m_times_def m_ws_def
  by (intro spares_seq spares_lit spares_class) (simp_all add: blank_facts js_def is_num_char_def is_digit_def)

lemma spares_term: "41 \<notin> set (js v) \<Longrightarrow> spares 41 (m_term v)"
  unfolding m_term_def by (intro spares_seq spares_lit spares_times)

lemma spares_add: "spares 41 p \<Longrightarrow> spares 41 (m_add p)"
  unfolding m_add_def m_ws_def by (intro spares_seq spares_lit spares_class) (simp_all add: blank_facts js_def)

lemma spares_optional: "\<forall>v \<in> set vs. 41 \<notin> set (js v) \<Longrightarrow> spares 41 (m_optional_terms vs)"
  by (induction vs) (auto intro!: spares_then spares_return spares_opt spares_add spares_term)

lemma spares_bodyPat: "spares 41 bodyPat"
  unfolding bodyPat_def
  by (intro spares_then spares_return spares_term spares_add spares_optional) (auto simp: cache_vars js_def)

lemma cut_unique: "c \<notin> set a \<Longrightarrow> c \<notin> set b \<Longrightarrow> a @ c # r = b @ c # s \<Longrightarrow> r = s"
  by (induction a arbitrary: b) (metis append_Nil list.inject list.set_intros(1) append_Cons neq_Nil_conv,
    metis append_Cons append_Nil list.inject list.set_intros(1,2) neq_Nil_conv)

lemma label_rests:
  assumes "34 \<notin> set l" "(x, y) \<in> set (m_label (js ''tier('' @ [34] @ l @ [34] @ js '', '' @ s))" "stop is_ws s"
  shows "y = s \<or> y = 32 # s"
proof -
  let ?q = "34 # 44 # 32 # s"
  have lit: "m_lit (''tier('' @ [CHR 0x22]) (js ''tier('' @ [34] @ l @ [34] @ js '', '' @ s) = [((), l @ ?q)]"
    by (simp add: m_lit_eval js_def)
  obtain u v where u: "(u, v) \<in> set (m_star (\<lambda>c. c \<noteq> 34) (l @ ?q))" "(x, y) \<in> set (m_seq (m_lit (CHR 0x22 # '','')) (m_seq m_ws (m_return u)) v)"
    using assms(2) unfolding m_label_def m_seq_def [of "m_lit (''tier('' @ [CHR 0x22])"] set_then lit by auto
  have "takeWhile (\<lambda>c. c \<noteq> 34) (l @ ?q) = l" using assms(1) by (intro takeWhile_run) (auto simp: list_all_iff)
  then obtain n where n: "n \<le> length l" "v = drop n (l @ ?q)" using u(1) prefixes_memD unfolding m_star_def by (metis (no_types, lifting))
  have "n = length l"
  proof (rule ccontr)
    assume "n \<noteq> length l"
    then have "v = l ! n # drop (Suc n) l @ ?q" using n by (simp add: Cons_nth_drop_Suc [symmetric])
    moreover have "l ! n \<noteq> 34" using assms(1) n(1) \<open>n \<noteq> length l\<close> by (metis le_neq_implies_less nth_mem)
    ultimately show False using u(2) by (simp add: m_seq_def m_then_def m_lit_eval)
  qed
  then have "v = ?q" using n by simp
  then show ?thesis using u(2) assms(3) by (auto simp: m_seq_def m_then_def m_lit_eval m_ws_one m_return_def)
qed

lemma call_rest:
  assumes l: "34 \<notin> set l" and t: "list_all (\<lambda>(v, x). cost_ok x) (body_terms t)" and m: "(x, y) \<in> set (m_call (tier_call l t @ r))"
  shows "y = r"
proof -
  let ?b = "buildTierBodyExpr t"
  have b: "41 \<notin> set ?b" "stop is_ws (?b @ 41 # r)" using body_chars [OF t] by (auto simp: list_all_iff blank_facts)
  have e: "tier_call l t @ r = js ''tier('' @ [34] @ l @ [34] @ js '', '' @ ?b @ 41 # r" by (simp add: tier_call_def js_def)
  obtain x1 y1 x2 y2 where s: "(x1, y1) \<in> set (m_label (tier_call l t @ r))" "(x2, y2) \<in> set (bodyPat y1)"
      "(x, y) \<in> set (m_seq (m_lit '')'') (m_return (x1, x2)) y2)"
    using m unfolding m_call_def set_then by blast
  have y1: "y1 = ?b @ 41 # r \<or> y1 = (32 # ?b) @ 41 # r" using label_rests [OF l s(1) [unfolded e] b(2)] by simp
  obtain a where a: "y1 = a @ y2" "41 \<notin> set a" using spares_bodyPat s(2) unfolding spares_def by blast
  have y2: "y2 = 41 # y" using s(3) by (cases y2) (auto simp: m_seq_def m_then_def m_lit_eval m_return_def split: if_splits)
  show ?thesis using y1
  proof
    assume "y1 = ?b @ 41 # r"
    then show ?thesis using cut_unique [OF a(2) b(1)] a(1) y2 by simp
  next
    assume "y1 = (32 # ?b) @ 41 # r"
    then show ?thesis using cut_unique [OF a(2), of "32 # ?b" y r] b(1) a(1) y2 by simp
  qed
qed

text \<open>The anchored pattern accepts one unconditional tier and nothing else the editor writes.\<close>

lemma single_one:
  assumes "34 \<notin> set l" "list_all (\<lambda>(v, x). cost_ok x) (body_terms t)"
  shows "singleRe (tier_call l t) = Some (l, captures t)"
  using wins_filter [OF wins_call [OF assms, of "[]"]] by (auto simp: singleRe_def)

lemma single_none:
  assumes "34 \<notin> set l" "list_all (\<lambda>(v, x). cost_ok x) (body_terms t)" "list_all bound_ok cs" "cs \<noteq> [] \<or> r \<noteq> []"
  shows "singleRe (condition_prefix cs @ tier_call l t @ r) = None"
proof (cases cs)
  case Nil
  have "snd p \<noteq> []" if "p \<in> set (m_call (tier_call l t @ r))" for p
    using call_rest [OF assms(1,2), of "fst p" "snd p" r] that assms(4) Nil by simp
  then have "filter (\<lambda>(x, y). y = []) (m_call (tier_call l t @ r)) = []" by (simp add: filter_empty_conv case_prod_beta)
  then show ?thesis by (simp add: Nil condition_prefix_def singleRe_def)
next
  case (Cons c cs')
  note f = bound_text_facts [of c]
  obtain h s where h: "condition_text c = h # s" "h \<in> {112, 99, 108}" using f(1,4) assms(3) Cons by (cases "condition_text c") auto
  have "condition_prefix cs @ tier_call l t @ r = h # s @ concat (map (\<lambda>y. js '' && '' @ y) (map condition_text cs')) @ js '' ? '' @ tier_call l t @ r"
    by (simp add: condition_prefix_def Cons join_separated h(1) del: join.simps)
  then show ?thesis using call_none [of h] h(2) by (auto simp: singleRe_def)
qed

section \<open>The tier that is read\<close>

definition canonical :: "jsval \<Rightarrow> bool" where
  "canonical c \<longleftrightarrow> String (Number (js_string (js_get c (js ''value'')))) = js_string (js_get c (js ''value''))"

text \<open>A tier the editor can carry, with a label that has a text and bounds written as JavaScript writes numbers.\<close>

definition readable :: "jsobj \<Rightarrow> bool" where
  "readable t \<longleftrightarrow> visual_ok t \<and> label_or t [120] \<noteq> [] \<and> list_all canonical (usable_conditions t)"

lemma cache_lookup:
  "distinct (map fst L) \<Longrightarrow>
     map_of (List.map_filter (\<lambda>((field, _), x). map_option (\<lambda>y. (js field, JNum (Number y))) x) (zip L (map h L))) (js f) =
       (case map_of L f of None \<Rightarrow> None | Some v \<Rightarrow> map_option (\<lambda>y. JNum (Number y)) (h (f, v)))"
proof (induction L)
  case (Cons p L)
  obtain g v where p: "p = (g, v)" by (cases p)
  have "map_of L g = None" using Cons.prems by (simp add: p map_of_eq_None_iff)
  then show ?case using Cons by (cases "h p") (auto simp: p map_filter_simps js_inject)
qed (simp add: map_filter_simps)

lemma cache_entries_distinct:
  "distinct (map fst L) \<Longrightarrow>
     distinct (map fst (List.map_filter (\<lambda>((field, _), x). map_option (\<lambda>y. (js field, JNum (Number y))) x) (zip L (map h L))))"
proof (induction L)
  case (Cons p L)
  have "js (fst p) \<notin> fst ` set (List.map_filter (\<lambda>((field, _), x). map_option (\<lambda>y. (js field, JNum (Number y))) x) (zip L (map h L)))"
    using Cons.prems by (auto simp: List.map_filter_def js_inject dest!: set_zip_leftD) (metis fst_conv image_eqI)
  then show ?case using Cons by (cases "h p"; cases p) (auto simp: map_filter_simps)
qed (simp add: map_filter_simps)

lemma captured_number: "cost_ok x \<or> x = Fin 0 \<Longrightarrow> (case captured x of None \<Rightarrow> Fin 0 | Some y \<Rightarrow> Number y) = x"
  by (auto simp: captured_def cost_ok_def)

lemma read_cost:
  assumes t: "list_all (\<lambda>(v, x). cost_ok x) (body_terms t)" and f: "f \<in> set COST_FIELDS"
  shows "number_or_zero (obj_get (read_visual conds (l, captures t)) (js f)) = number_or_zero (obj_get t (js f))"
proof -
  let ?c = "\<lambda>f. number_or_zero (obj_get t (js f))"
  have idem: "number_or_zero (JNum (number_or_zero v)) = number_or_zero v" for v by (simp add: number_or_zero_def)
  note ok = extra_ok [OF t]
  let ?h = "\<lambda>e. captured (?c (fst e))"
  have xs: "map (\<lambda>e. captured (snd e)) (extra_terms t) = map ?h BILLING_CACHE_VAR_MAP" by (simp add: extra_terms_def comp_def case_prod_beta)
  have raw: "number_or_zero (obj_get (raw_visual conds (l, captures t)) (js f)) = ?c f"
  proof (cases "f \<in> set EXTRA_COST_FIELDS")
    case True
    then obtain v where v: "map_of BILLING_CACHE_VAR_MAP f = Some v" by (auto simp: cache_vars EXTRA_COST_FIELDS_def)
    have "(v, ?c f) \<in> set (extra_terms t)" using map_of_SomeD [OF v] by (force simp: extra_terms_def)
    then have c: "cost_ok (?c f) \<or> ?c f = Fin 0" using ok(1) by (auto simp: list_all_iff)
    have d: "distinct (map fst BILLING_CACHE_VAR_MAP)" by (simp add: cache_vars)
    have "map_of (raw_visual conds (l, captures t)) (js f) = map_option (\<lambda>y. JNum (Number y)) (captured (?c f))"
      unfolding raw_visual_def captures_def prod.case xs map_of_spread map_of_rev [OF cache_entries_distinct [OF d]] cache_lookup [OF d] v option.case
      using True by (auto simp: captured_def EXTRA_COST_FIELDS_def js_inject)
    then show ?thesis using c by (auto simp: obj_get_def captured_def cost_ok_def idem number_or_zero_def num_truthy_def)
  next
    case False
    then have fs: "f = ''input_unit_cost'' \<or> f = ''output_unit_cost''" using f by (simp add: COST_FIELDS_def)
    then show ?thesis using ok(2,3) by (auto simp: obj_get_def raw_lookup captures_def main_fields js_inject cost_ok_def idem)
  qed
  then show ?thesis using normal_cost [OF raw_is_obj f] by (simp add: read_visual_raw)
qed

lemma shown_condition_text:
  assumes "bound_ok c" "canonical c"
  shows "usable_condition (condition_object (shown_condition c)) \<and> condition_text (condition_object (shown_condition c)) = condition_text c"
proof -
  obtain v p where c: "js_get c (js ''var'') = JStr (js v)" "js_get c (js ''op'') = JStr (js p)"
      "v \<in> set [''p'', ''c'', ''len'']" "p \<in> set CONDITION_OPS"
    using assms(1) by (auto simp: bound_ok_def)
  have ne: "js v \<noteq> []" "js p \<noteq> []" using c(3,4) by (auto simp: CONDITION_OPS_def js_def)
  show ?thesis using ne assms(2)
    by (simp add: usable_condition_def condition_text_def condition_object_def shown_condition_def obj_get_def js_inject c canonical_def nullish_def)
qed

lemma read_conditions:
  assumes "list_all bound_ok cs" "list_all canonical cs"
  shows "buildConditionStr (obj_get (read_visual (map shown_condition cs) m) (js ''conditions'')) = Some (join (js '' && '') (map condition_text cs))"
proof -
  obtain l a b xs where m: "m = (l, a, b, xs)" by (cases m)
  have raw: "map_of (raw_visual (map shown_condition cs) m) (js ''conditions'') = Some (JArr (map condition_object (map shown_condition cs)))"
    unfolding m by (simp add: raw_lookup main_fields)
  have "obj_get (read_visual (map shown_condition cs) m) (js ''conditions'') = JArr (map condition_object (map shown_condition cs))"
    by (simp add: read_visual_raw obj_get_def normal_lookup [OF raw_is_obj] raw main_fields)
  moreover have "map condition_text (filter usable_condition (map condition_object (map shown_condition cs))) = map condition_text cs"
    using assms shown_condition_text by (induction cs) auto
  moreover have "\<not> list_ex nullish (map condition_object (map shown_condition cs))"
    by (auto simp: list_ex_iff condition_object_def nullish_def)
  ultimately show ?thesis by (simp add: buildConditionStr_def)
qed

lemma read_label: "l \<noteq> [] \<Longrightarrow> label_or (read_visual conds (l, x)) d = l"
proof -
  assume "l \<noteq> []"
  moreover have "map_of (raw_visual conds (l, x)) (js ''label'') = Some (JStr l)"
    by (cases x) (simp add: raw_lookup main_fields js_inject)
  then have "obj_get (read_visual conds (l, x)) (js ''label'') = JStr l"
    by (simp add: read_visual_raw obj_get_def normal_lookup [OF raw_is_obj] main_fields)
  ultimately show ?thesis by (simp add: label_or_def js_or_def)
qed

lemma label_nonempty: "label_or t [120] \<noteq> [] \<Longrightarrow> d \<noteq> [] \<Longrightarrow> label_or t d \<noteq> []"
  by (auto simp: label_or_def js_or_def split: if_splits)

text \<open>The tier read from the text of a tier, and what is written for it.\<close>

definition reread :: "jstr \<Rightarrow> jsval list \<Rightarrow> jsobj \<Rightarrow> jsobj" where
  "reread l cs t = read_visual (map shown_condition cs) (l, captures t)"

lemma reread_facts:
  assumes "list_all bound_ok cs" "list_all canonical cs" "l \<noteq> []" "list_all (\<lambda>(v, x). cost_ok x) (body_terms t)"
  shows "body_terms (reread l cs t) = body_terms t" "label_or (reread l cs t) d = l"
    "buildConditionStr (obj_get (reread l cs t) (js ''conditions'')) = Some (join (js '' && '') (map condition_text cs))"
    "tier_costs (reread l cs t) = tier_costs t"
proof -
  have c: "number_or_zero (obj_get (reread l cs t) (js f)) = number_or_zero (obj_get t (js f))" if "f \<in> set COST_FIELDS" for f
    unfolding reread_def by (rule read_cost [OF assms(4) that])
  show "body_terms (reread l cs t) = body_terms t" "tier_costs (reread l cs t) = tier_costs t"
    by (simp_all add: body_terms_def tier_costs_def cache_vars BILLING_PRICING_VARS_def BILLING_VARS_def priced_def c COST_FIELDS_def EXTRA_COST_FIELDS_def)
  show "label_or (reread l cs t) d = l" unfolding reread_def by (rule read_label [OF assms(3)])
  show "buildConditionStr (obj_get (reread l cs t) (js ''conditions'')) = Some (join (js '' && '') (map condition_text cs))"
    unfolding reread_def by (rule read_conditions [OF assms(1,2)])
qed

section \<open>The whole text\<close>

definition read_match :: "jstr option \<times> jstr \<times> jstr \<times> jstr \<times> jstr option list \<Rightarrow> jsobj" where
  "read_match = (\<lambda>(t, m). read_visual (conditions_of t) m)"

lemma visual_read:
  assumes "list_all bound_ok cs" "34 \<notin> set l" "list_all (\<lambda>(v, x). cost_ok x) (body_terms t)"
  shows "map read_match (exec_all (\<lambda>_. visualTierRe) w (condition_prefix cs @ tier_call l t @ r)) =
    reread l cs t # map read_match (exec_all (\<lambda>_. visualTierRe) False r)"
proof -
  let ?a = "condition_prefix cs @ tier_call l t"
  have ne: "?a \<noteq> []" and last: "last ?a = 41" by (simp_all add: tier_call_def js_def)
  have "wins visualTierRe (?a @ r) (condition_capture cs, l, captures t) r" using wins_visual [OF assms] by simp
  then have "exec_all (\<lambda>_. visualTierRe) w (?a @ r) = (condition_capture cs, l, captures t) # exec_all (\<lambda>_. visualTierRe) (is_word (last ?a)) r"
    using ne by (rule exec_match [where m = "\<lambda>_. visualTierRe"])
  then show ?thesis unfolding last
    by (simp add: read_match_def reread_def capture_read [OF assms(1)] is_word_def is_digit_def)
qed

lemma visual_colon: "exec_all (\<lambda>_. visualTierRe) w (js '' : '' @ r) = exec_all (\<lambda>_. visualTierRe) False r"
  by (simp add: js_def exec_skip visual_none is_word_def is_digit_def)

lemma visual_tail: "exec_all (\<lambda>_. visualTierRe) False (js '' : p * 0 + c * 0'') = []"
  by code_simp

fun reread_chain :: "nat \<Rightarrow> jsobj list \<Rightarrow> jsobj list" where
  "reread_chain i [] = []"
| "reread_chain i (t # ts) = reread (label_or t (js ''tier_'' @ show_nat (i + 1))) (if ts = [] then [] else usable_conditions t) t #
     reread_chain (Suc i) ts"

lemma readable_facts:
  assumes "readable t"
  shows "list_all bound_ok (usable_conditions t)" "list_all canonical (usable_conditions t)" "list_all (\<lambda>(v, x). cost_ok x) (body_terms t)"
    "34 \<notin> set (label_or t (js ''default''))" "label_or t (js ''default'') \<noteq> []" "writable t"
  using assms label_quote [of t] label_nonempty [of t] by (auto simp: readable_def visual_ok_def js_def)

lemma readable_label:
  assumes "readable t"
  shows "34 \<notin> set (label_or t (js ''tier_'' @ show_nat n))" "label_or t (js ''tier_'' @ show_nat n) \<noteq> []"
  using assms label_quote [of t] numbered_quote [of n] label_nonempty [of t] by (auto simp: readable_def visual_ok_def)

lemma chain_reread:
  "list_all readable ts \<Longrightarrow> n = i + length ts \<Longrightarrow>
     map read_match (exec_all (\<lambda>_. visualTierRe) False (join (js '' : '') (part_texts n i ts))) = reread_chain i ts"
proof (induction ts arbitrary: i)
  case (Cons t ts)
  have t: "readable t" using Cons.prems by simp
  note ok = readable_facts [OF t] and lab = readable_label [OF t, of "i + 1"]
  show ?case
  proof (cases ts)
    case Nil
    then show ?thesis using visual_read [of "[]", OF _ lab(1) ok(3), of False "[]"] Cons.prems
      by (simp add: part_text_def condition_prefix_def)
  next
    case (Cons t' ts')
    then show ?thesis using visual_read [OF ok(1) lab(1) ok(3)] Cons.prems Cons.IH [of "Suc i"]
      by (simp add: part_text_def visual_colon)
  qed
qed simp

lemma call_reread: "body_terms u = body_terms t \<Longrightarrow> tier_call l u = tier_call l t"
  by (simp add: tier_call_def buildTierBodyExpr_def)

lemma chain_parts_same: "list_all readable ts \<Longrightarrow> n = i + length ts \<Longrightarrow> tier_parts n i (reread_chain i ts) = tier_parts n i ts"
proof (induction ts arbitrary: i)
  case (Cons t ts)
  let ?l = "label_or t (js ''tier_'' @ show_nat (i + 1))" and ?cs = "if ts = [] then [] else usable_conditions t"
  have t: "readable t" using Cons.prems by simp
  note ok = readable_facts [OF t] and lab = readable_label [OF t, of "i + 1"]
  have cs: "list_all bound_ok ?cs" "list_all canonical ?cs" using ok(1,2) by simp_all
  note f = reread_facts [OF cs lab(2) ok(3)]
  have "tier_part n i (reread ?l ?cs t) = tier_part n i t"
    unfolding tier_part_def Let_def f(2,3) call_reread [OF f(1)] condition_str [OF ok(6)] using Cons.prems(2) by simp
  then show ?case using Cons by simp
qed simp

lemma chain_costs: "list_all readable ts \<Longrightarrow> map tier_costs (reread_chain i ts) = map tier_costs ts"
proof (induction ts arbitrary: i)
  case (Cons t ts)
  have t: "readable t" using Cons.prems by simp
  note ok = readable_facts [OF t] and lab = readable_label [OF t, of "i + 1"]
  show ?case using Cons reread_facts(4) [OF _ _ lab(2) ok(3)] ok(1,2) by simp
qed simp

lemma normal_text:
  assumes "ts \<noteq> []" "list_all is_obj ts"
  shows "generateExprFromVisualConfig (Some (tiers_config ts)) = generateExprFromVisualConfig (Some [(js ''tiers'', JArr (map JObj ts))])"
  using assms normal_same_text
  by (intro same_text_expr) (auto simp: tiers_config_tiers config_tiers_of list_all2_conv_all_nth list_all_length)

lemma normal_costs: "is_obj t \<Longrightarrow> tier_costs (normalizeVisualTier t) = tier_costs t"
  by (simp add: tier_costs_def BILLING_PRICING_VARS_def BILLING_VARS_def priced_def normal_cost COST_FIELDS_def EXTRA_COST_FIELDS_def)

text \<open>What a reader result must satisfy to be the configuration that was written.\<close>

definition reads_as :: "jsobj \<Rightarrow> jsobj list \<Rightarrow> bool" where
  "reads_as cfg ts \<longleftrightarrow> list_all is_obj ts \<and> map tier_costs ts = map tier_costs (config_tiers cfg) \<and>
     generateExprFromVisualConfig (Some [(js ''tiers'', JArr (map JObj ts))]) = generateExprFromVisualConfig (Some cfg)"

lemma reads_as_result:
  assumes "reads_as cfg ts" "ts \<noteq> []"
  shows "generateExprFromVisualConfig (Some (tiers_config ts)) = generateExprFromVisualConfig (Some cfg) \<and>
    map tier_costs (config_tiers (tiers_config ts)) = map tier_costs (config_tiers cfg)"
proof -
  have "list_all is_obj ts" using assms(1) by (simp add: reads_as_def)
  then have "map tier_costs (map normalizeVisualTier ts) = map tier_costs ts" by (simp add: list_all_iff normal_costs)
  then have "map tier_costs (config_tiers (tiers_config ts)) = map tier_costs (config_tiers cfg)"
    using assms(1) unfolding tiers_config_tiers [OF assms(2)] reads_as_def by metis
  then show ?thesis using assms normal_text [of ts] by (simp add: reads_as_def)
qed

lemma reread_is_obj: "is_obj (reread l cs t)"
  by (simp add: reread_def read_is_obj)

lemma chain_is_obj: "list_all is_obj (reread_chain i ts)"
  by (induction i ts rule: reread_chain.induct) (simp_all add: reread_is_obj)

lemma chain_length: "length (reread_chain i ts) = length ts"
  by (induction i ts rule: reread_chain.induct) simp_all

lemma generate_chain:
  "2 \<le> length (config_tiers cfg) \<Longrightarrow>
     generateExprFromVisualConfig (Some cfg) = map_option (join (js '' : '')) (tier_parts (length (config_tiers cfg)) 0 (config_tiers cfg))"
  by (auto simp: generateExprFromVisualConfig_def split: list.split)

lemma chain_reads_as:
  assumes "2 \<le> length (config_tiers cfg)" and ok: "list_all readable (config_tiers cfg)"
  shows "reads_as cfg (reread_chain 0 (config_tiers cfg))"
proof -
  let ?ts = "reread_chain 0 (config_tiers cfg)"
  have "generateExprFromVisualConfig (Some [(js ''tiers'', JArr (map JObj ?ts))]) =
      map_option (join (js '' : '')) (tier_parts (length (config_tiers cfg)) 0 ?ts)"
    using generate_chain [of "[(js ''tiers'', JArr (map JObj ?ts))]"] assms(1) unfolding config_tiers_of chain_length by blast
  also have "\<dots> = generateExprFromVisualConfig (Some cfg)"
    using chain_parts_same [OF ok, of "length (config_tiers cfg)" 0] generate_chain [OF assms(1)] by simp
  finally show ?thesis unfolding reads_as_def using chain_is_obj chain_costs [OF ok] by blast
qed

lemma single_reads_as:
  assumes ts: "config_tiers cfg = [t]" and ok: "readable t"
  shows "reads_as cfg [reread (label_or t (js ''default'')) (usable_conditions t) t]"
proof -
  note f = readable_facts [OF ok]
  note r = reread_facts [OF f(1,2,5,3)]
  have "generateExprFromVisualConfig (Some [(js ''tiers'', JArr (map JObj [reread (label_or t (js ''default'')) (usable_conditions t) t]))]) =
      generateExprFromVisualConfig (Some cfg)"
    unfolding generateExprFromVisualConfig_def option.case config_tiers_of ts list.case Let_def r(2,3) call_reread [OF r(1)] condition_str [OF f(6)] by simp
  then show ?thesis using r(4) by (simp add: reads_as_def reread_is_obj ts)
qed

lemma reader_on:
  assumes e: "e \<noteq> []" "hd e \<noteq> 118" "generateExprFromVisualConfig (Some cfg) = Some e" and r: "reads_as cfg ts" "ts \<noteq> []"
    and m: "case singleRe e of Some m \<Rightarrow> ts = [read_visual [] m] | None \<Rightarrow> ts = map read_match (exec_all (\<lambda>_. visualTierRe) False e)"
  shows "tryParseVisualConfig (Some e) = Some (tiers_config ts)"
proof -
  have written: "generateExprFromVisualConfig (Some (tiers_config ts)) = Some e" using reads_as_result [OF r] e(3) by simp
  show ?thesis
  proof (cases "singleRe e")
    case None
    then have "map (\<lambda>(t, m). read_visual (conditions_of t) m) (exec_all (\<lambda>_. visualTierRe) False e) = ts" using m by (simp add: read_match_def)
    then show ?thesis using None e(1,2) r(2) written by (simp add: tryParseVisualConfig_def Let_def unversioned)
  next
    case (Some m')
    then show ?thesis using e(1,2) m by (simp add: tryParseVisualConfig_def Let_def unversioned)
  qed
qed

lemma readable_text:
  "config_tiers cfg \<noteq> [] \<Longrightarrow> list_all readable (config_tiers cfg) \<Longrightarrow>
     generateExprFromVisualConfig (Some cfg) = Some (config_text (config_tiers cfg))"
  by (rule visual_text_written) (auto simp: list_all_iff readable_def visual_ok_def)

lemma single_read_back:
  assumes ts: "config_tiers cfg = [t]" and ok: "readable t"
  shows "tryParseVisualConfig (Some (config_text (config_tiers cfg))) =
    Some (tiers_config [reread (label_or t (js ''default'')) (usable_conditions t) t])"
proof -
  let ?l = "label_or t (js ''default'')" and ?cs = "usable_conditions t"
  let ?r = "if ?cs = [] then [] else js '' : p * 0 + c * 0''"
  note f = readable_facts [OF ok]
  let ?e = "condition_prefix ?cs @ tier_call ?l t @ ?r"
  have e: "config_text (config_tiers cfg) = ?e" by (simp add: ts config_text_def single_text_def)
  have w: "generateExprFromVisualConfig (Some cfg) = Some ?e" using readable_text [of cfg] ok unfolding e by (simp add: ts)
  have "case singleRe ?e of Some m \<Rightarrow> [reread ?l ?cs t] = [read_visual [] m]
      | None \<Rightarrow> [reread ?l ?cs t] = map read_match (exec_all (\<lambda>_. visualTierRe) False ?e)"
  proof (cases "?cs = []")
    case True
    then show ?thesis using single_one [OF f(4,3)] by (simp add: condition_prefix_def reread_def)
  next
    case False
    then show ?thesis using single_none [OF f(4,3,1), of ?r] visual_read [OF f(1,4,3), of False ?r] visual_tail by simp
  qed
  then have "tryParseVisualConfig (Some ?e) = Some (tiers_config [reread ?l ?cs t])"
    by (intro reader_on [OF tier_text_start [OF f(1)] w single_reads_as [OF ts ok]]) simp_all
  then show ?thesis unfolding e .
qed

lemma chain_read_back:
  assumes two: "2 \<le> length (config_tiers cfg)" and ok: "list_all readable (config_tiers cfg)"
  shows "tryParseVisualConfig (Some (config_text (config_tiers cfg))) = Some (tiers_config (reread_chain 0 (config_tiers cfg)))"
proof -
  obtain t u ts where ts: "config_tiers cfg = t # u # ts" using two by (metis Suc_le_length_iff numeral_2_eq_2)
  let ?n = "length (config_tiers cfg)"
  let ?e = "join (js '' : '') (part_texts ?n 0 (config_tiers cfg))"
  let ?l = "label_or t (js ''tier_'' @ show_nat 1)" and ?r = "js '' : '' @ join (js '' : '') (part_texts ?n 1 (u # ts))"
  have t: "readable t" using ok ts by simp
  note f = readable_facts [OF t] and lab = readable_label [OF t, of 1]
  have written: "config_text (config_tiers cfg) = ?e" by (simp add: ts config_text_def)
  have w: "generateExprFromVisualConfig (Some cfg) = Some ?e" using readable_text [OF _ ok] unfolding written by (simp add: ts)
  have e: "?e = condition_prefix (usable_conditions t) @ tier_call ?l t @ ?r" by (simp add: ts part_text_def)
  have "singleRe ?e = None" unfolding e by (rule single_none [OF lab(1) f(3,1)]) (simp add: js_def)
  then have "case singleRe ?e of Some m \<Rightarrow> reread_chain 0 (config_tiers cfg) = [read_visual [] m]
      | None \<Rightarrow> reread_chain 0 (config_tiers cfg) = map read_match (exec_all (\<lambda>_. visualTierRe) False ?e)"
    using chain_reread [OF ok, of ?n 0] by simp
  moreover have "?e \<noteq> []" "hd ?e \<noteq> 118" unfolding e using tier_text_start [OF f(1)] by blast+
  moreover have "reread_chain 0 (config_tiers cfg) \<noteq> []" by (simp add: ts)
  ultimately show ?thesis unfolding written using w chain_reads_as [OF two ok] by (intro reader_on) simp_all
qed

text \<open>
  C12: The visual editor reads its own text.  For a configuration with at least one tier whose labels have a text
  without quotes, whose prices are numbers that are printed and read back, and whose bounds are written as
  JavaScript writes numbers, an expression is generated and reading it succeeds.  The configuration it returns has the
  same nine prices in every tier, and generating its expression again gives the same text.
\<close>

theorem visual_text_read_back:
  assumes "config_tiers cfg \<noteq> []" "list_all readable (config_tiers cfg)"
  shows "\<exists>e cfg'. generateExprFromVisualConfig (Some cfg) = Some e \<and> tryParseVisualConfig (Some e) = Some cfg' \<and>
    generateExprFromVisualConfig (Some cfg') = Some e \<and>
    map tier_costs (config_tiers cfg') = map tier_costs (config_tiers cfg)"
proof (cases "2 \<le> length (config_tiers cfg)")
  case True
  then have "reread_chain 0 (config_tiers cfg) \<noteq> []" using assms(1) chain_length [of 0 "config_tiers cfg"] by force
  then show ?thesis
    using readable_text [OF assms] chain_read_back [OF True assms(2)] reads_as_result [OF chain_reads_as [OF True assms(2)]] by fastforce
next
  case False
  then obtain t where t: "config_tiers cfg = [t]" using assms(1) by (cases "config_tiers cfg" rule: list.exhaust) (auto simp: Suc_le_eq)
  then have ok: "readable t" using assms(2) by simp
  show ?thesis using readable_text [OF assms] single_read_back [OF t ok] reads_as_result [OF single_reads_as [OF t ok]] by fastforce
qed

theorem visual_text_read_back_witness:
  "config_tiers sample_visual \<noteq> [] \<and> list_all readable (config_tiers sample_visual) \<and>
   (\<exists>e cfg'. generateExprFromVisualConfig (Some sample_visual) = Some e \<and> tryParseVisualConfig (Some e) = Some cfg' \<and>
     generateExprFromVisualConfig (Some cfg') = Some e \<and>
     map tier_costs (config_tiers cfg') = map tier_costs (config_tiers sample_visual))"
proof -
  have a: "config_tiers sample_visual \<noteq> []" by code_simp
  have b: "list_all readable (config_tiers sample_visual)" by code_simp
  show ?thesis using a b visual_text_read_back [OF a b] by blast
qed

end
