(* ===== verification/TierMatch.thy ===== *)
theory TierMatch
  imports BillingTiers
begin

text \<open>
  Which row of the price table was charged: \<open>features/pricing/lib/breakdown-tier-match.ts\<close> and the label
  normalisation of \<open>billing-expr.ts\<close>.  \<open>toLowerCase\<close> is the parameter \<open>lower\<close>, since it follows the
  Unicode tables.
\<close>

text \<open>
  \<open>replaceAll(/<[=]?|.../g, '<')\<close> for the sign \<open>a\<close>, its wide form \<open>w\<close> and the one-character form \<open>e\<close> of
  the comparison with equality.
\<close>

fun narrow :: "jchar \<Rightarrow> jchar \<Rightarrow> jchar \<Rightarrow> jstr \<Rightarrow> jstr" where
  "narrow a w e [] = []"
| "narrow a w e [c] = [if c = a \<or> c = w \<or> c = e then a else c]"
| "narrow a w e (c # d # s) =
     (if c = a \<or> c = w then a # (if d = 61 \<or> d = 65309 then narrow a w e s else narrow a w e (d # s))
      else if c = e then a # narrow a w e (d # s)
      else c # narrow a w e (d # s))"

definition normalizeTierLabel :: "(jstr \<Rightarrow> jstr) \<Rightarrow> jstr option \<Rightarrow> jstr" where
  "normalizeTierLabel lower label = (case label of None \<Rightarrow> []
   | Some l \<Rightarrow> if l = [] then [] else
       lower (filter (\<lambda>c. \<not> is_ws c) (narrow 62 65310 8805 (narrow 60 65308 8804 l))))"

datatype breakdown_tier = TokenTier parsed_tier | TaskTier task_tier

fun breakdown_label :: "breakdown_tier \<Rightarrow> jstr" where
  "breakdown_label (TokenTier t) = parsed_label t"
| "breakdown_label (TaskTier t) = tier_label t"

definition tierMatchesNormalizedLabel :: "(jstr \<Rightarrow> jstr) \<Rightarrow> breakdown_tier \<Rightarrow> jstr \<Rightarrow> bool" where
  "tierMatchesNormalizedLabel lower tier l \<longleftrightarrow> l \<noteq> [] \<and> normalizeTierLabel lower (Some (breakdown_label tier)) = l"

text \<open>Only the conditions of a task tier have a field; a fact is a number or a string.\<close>

definition facts_match :: "jsobj \<Rightarrow> breakdown_tier \<Rightarrow> bool" where
  "facts_match facts tier = (case tier of TokenTier t \<Rightarrow> False
   | TaskTier t \<Rightarrow> tier_conditions t \<noteq> [] \<and> list_all (\<lambda>c. obj_get facts (tc_field c) \<noteq> JUndef \<and>
       js_string (obj_get facts (tc_field c)) = tc_value c) (tier_conditions t))"

definition isBreakdownTierMatched ::
  "(jstr \<Rightarrow> jstr) \<Rightarrow> breakdown_tier \<Rightarrow> breakdown_tier list \<Rightarrow> jstr option \<Rightarrow> jsobj option \<Rightarrow> bool" where
  "isBreakdownTierMatched lower tier tiers matchedTierLabel usageFacts = (
     let l = normalizeTierLabel lower matchedTierLabel in
     if tierMatchesNormalizedLabel lower tier l then True
     else if list_ex (\<lambda>candidate. tierMatchesNormalizedLabel lower candidate l) tiers then False
     else case usageFacts of None \<Rightarrow> False | Some facts \<Rightarrow> facts_match facts tier)"

text \<open>Where some row still carries the label of the engine, the facts decide nothing.\<close>

lemma label_decides:
  "list_ex (\<lambda>t. tierMatchesNormalizedLabel lower t (normalizeTierLabel lower l)) tiers \<Longrightarrow>
     isBreakdownTierMatched lower tier tiers l facts \<longleftrightarrow> tierMatchesNormalizedLabel lower tier (normalizeTierLabel lower l)"
  by (simp add: isBreakdownTierMatched_def Let_def)

text \<open>A token tier is matched by its label only.\<close>

lemma token_by_label:
  "isBreakdownTierMatched lower (TokenTier t) tiers l facts \<longleftrightarrow>
     tierMatchesNormalizedLabel lower (TokenTier t) (normalizeTierLabel lower l)"
  by (simp add: isBreakdownTierMatched_def Let_def facts_match_def split: option.split)

end
