(* ===== verification/PricingPage.thy ===== *)
theory PricingPage
  imports TierReadBack TierMatch RuleEditing
begin

text \<open>
  The pricing page on a saved model, from \<open>features/pricing/lib/dynamic-price.ts\<close>: which tiers it shows and
  whether it says that request rules apply.  The theorem follows one expression from the two editors that
  write its parts, through combining, saving and splitting, to the table.
\<close>

section \<open>A model and its tiers\<close>

text \<open>The three properties of a model that choose its tiers.\<close>

record pricing_model =
  pm_billing_mode :: "jstr option"
  pm_billing_expr :: "jstr option"
  pm_usage_schema :: "usage_schema option"

definition isDynamicPricingModel :: "pricing_model \<Rightarrow> bool" where
  "isDynamicPricingModel model \<longleftrightarrow> pm_billing_mode model = Some (js ''tiered_expr'') \<and>
     (case pm_billing_expr model of None \<Rightarrow> False | Some e \<Rightarrow> e \<noteq> [])"

text \<open>\<open>hasTaskUsageSchema\<close> is the second conjunct.\<close>

definition isTaskUsagePricingModel :: "pricing_model \<Rightarrow> bool" where
  "isTaskUsagePricingModel model \<longleftrightarrow> pm_billing_mode model = Some (js ''tiered_expr'') \<and>
     (case pm_usage_schema model of None \<Rightarrow> False | Some schema \<Rightarrow> schema \<noteq> [])"

abbreviation saved_expr :: "pricing_model \<Rightarrow> jstr" where
  "saved_expr model \<equiv> (case pm_billing_expr model of None \<Rightarrow> [] | Some e \<Rightarrow> e)"

definition getDynamicPricingTiers :: "pricing_model \<Rightarrow> breakdown_tier list attempt" where
  "getDynamicPricingTiers model = (if \<not> isDynamicPricingModel model then Got []
     else attempt_bind (splitBillingExprAndRequestRules (saved_expr model)) (\<lambda>parts.
       Got (if isTaskUsagePricingModel model
         then map TaskTier (parseTaskTiersFromExpr (billingExpr parts) (pm_usage_schema model))
         else map TokenTier (parseTiersFromExpr (billingExpr parts)))))"

definition hasDynamicRequestRules :: "pricing_model \<Rightarrow> bool attempt" where
  "hasDynamicRequestRules model = (if \<not> isDynamicPricingModel model then Got False
     else attempt_bind (splitBillingExprAndRequestRules (saved_expr model)) (\<lambda>parts.
       case tryParseRequestRuleExpr (requestRuleExpr parts) of
         Throws \<Rightarrow> Throws | NoMatch \<Rightarrow> Got False | Got groups \<Rightarrow> Got (groups \<noteq> [])))"

section \<open>Parentheses of a generated expression\<close>

definition flat :: "jstr \<Rightarrow> bool" where
  "flat s \<longleftrightarrow> 40 \<notin> set s \<and> 41 \<notin> set s"

lemma flat_append [simp]: "flat (s @ t) \<longleftrightarrow> flat s \<and> flat t"
  by (auto simp: flat_def)

lemma flat_Nil [simp]: "flat []"
  by (simp add: flat_def)

lemma nested_past_flat: "flat s \<Longrightarrow> 0 \<le> d \<Longrightarrow> nested d (s @ r) \<longleftrightarrow> nested d r"
  by (induction s) (auto simp: flat_def paren_depth_def)

lemma flat_join: "flat sep \<Longrightarrow> \<forall>t \<in> set ts. flat t \<Longrightarrow> flat (join sep ts)"
  by (induction sep ts rule: join.induct) auto

lemma flat_pieces: "flat (js ''tier'')" "flat [34]" "flat (js '', '')" "flat (js '' + '')" "flat (js '' && '')" "flat (js '' ? '')"
  "flat (js '' : '')" "flat (js '' '')" "flat (js '' * '')" "flat (js '' : p * 0 + c * 0'')"
  by (simp_all add: flat_def js_def)

lemma flat_number: "list_all is_num_char s \<Longrightarrow> flat s"
  using num_char_ws by (auto simp: flat_def list_all_iff)

lemma flat_bound: "list_all is_bound_char s \<Longrightarrow> flat s"
  by (auto simp: flat_def list_all_iff is_bound_char_def is_digit_def)

lemma flat_body:
  assumes "list_all (\<lambda>(v, x). cost_ok x) (body_terms t)"
  shows "flat (buildTierBodyExpr t)"
proof -
  have "flat (term_text v x)" if m: "(v, x) \<in> set (body_terms t)" for v x
  proof -
    have "v \<in> set (map var_key BILLING_PRICING_VARS)" using body_keys(2) [of t] m by force
    then have "flat (js v)" unfolding pricing_keys by (auto simp: flat_def js_def)
    moreover have "flat (String x)" using assms m by (intro flat_number) (auto simp: list_all_iff cost_ok_def)
    ultimately show ?thesis by (simp add: term_text_def flat_pieces)
  qed
  then show ?thesis unfolding buildTierBodyExpr_def by (intro flat_join) (auto simp: flat_pieces)
qed

lemma flat_condition:
  assumes "bound_ok c"
  shows "flat (condition_text c)"
proof -
  obtain v p where c: "js_get c (js ''var'') = JStr (js v)" "js_get c (js ''op'') = JStr (js p)"
      "v \<in> set [''p'', ''c'', ''len'']" "p \<in> set CONDITION_OPS"
    using assms by (auto simp: bound_ok_def)
  have "flat (js v)" "flat (js p)" using c(3,4) by (auto simp: flat_def js_def CONDITION_OPS_def)
  then show ?thesis using assms flat_bound by (simp add: condition_text_def c flat_pieces bound_ok_def)
qed

lemma flat_prefix: "list_all bound_ok cs \<Longrightarrow> flat (condition_prefix cs)"
  by (auto simp: condition_prefix_def flat_pieces list_all_iff intro!: flat_join flat_condition)

lemma nested_call:
  assumes "flat l" "list_all (\<lambda>(v, x). cost_ok x) (body_terms t)"
  shows "nested 0 (tier_call l t @ r) \<longleftrightarrow> nested 0 r"
proof -
  let ?in = "[34] @ l @ [34] @ js '', '' @ buildTierBodyExpr t"
  have e: "tier_call l t @ r = js ''tier'' @ 40 # (?in @ 41 # r)"
    by (simp add: tier_call_def js_def)
  have "flat ?in" using assms flat_body by (simp only: flat_append flat_pieces)
  then have "nested 1 (?in @ 41 # r) \<longleftrightarrow> nested 1 (41 # r)" by (rule nested_past_flat) simp
  moreover have "nested 0 (js ''tier'' @ 40 # z) \<longleftrightarrow> nested 1 z" for z
    by (subst nested_past_flat) (simp_all add: flat_pieces paren_depth_def)
  moreover have "nested 1 (41 # r) \<longleftrightarrow> nested 0 r" by (simp add: paren_depth_def)
  ultimately show ?thesis unfolding e by blast
qed

lemma flat_bare: "flat s \<Longrightarrow> bare s"
  by (auto simp: flat_def bare_def)

lemma bare_call:
  assumes "flat l" "list_all (\<lambda>(v, x). cost_ok x) (body_terms t)"
  shows "bare (tier_call l t)"
proof -
  have "flat ([34] @ l @ [34] @ js '', '' @ buildTierBodyExpr t)" using assms flat_body by (simp only: flat_append flat_pieces)
  moreover have "bare (js ''tier('')" by (auto simp: bare_def js_def append_eq_Cons_conv Cons_eq_append_conv is_ws_def)
  moreover have "bare (js '')'')" by (auto simp: bare_def js_def Cons_eq_append_conv)
  ultimately have "bare (js ''tier('' @ ([34] @ l @ [34] @ js '', '' @ buildTierBodyExpr t) @ js '')'')"
    using flat_bare bare_append by metis
  then show ?thesis by (simp add: tier_call_def)
qed

lemma label_flat: "flat (label_or t []) \<Longrightarrow> flat d \<Longrightarrow> flat (label_or t d)"
  by (auto simp: label_or_def js_or_def split: if_splits)

lemma numbered_flat: "flat (js ''tier_'' @ show_nat n)"
  using show_nat_digits [of 40 n] show_nat_digits [of 41 n] by (auto simp: flat_def js_def is_digit_def)

text \<open>A tier both the price table and the splitting of the expression can read.\<close>

definition table_ok :: "jsobj \<Rightarrow> bool" where
  "table_ok t \<longleftrightarrow> visual_ok t \<and> flat (label_or t [])"

text \<open>What the splitting needs of the text in front of the rules.\<close>

definition base_text :: "jstr \<Rightarrow> bool" where
  "base_text s \<longleftrightarrow> bare s \<and> nested 0 s \<and> s \<noteq> [] \<and> hd s \<in> {112, 99, 108, 116} \<and> last s \<in> {41, 48}"

lemma part_start:
  assumes "list_all bound_ok cs"
  shows "hd (condition_prefix cs @ tier_call l t @ r) \<in> {112, 99, 108, 116}"
  using assms bound_text_facts [of "hd cs"]
  by (cases cs) (auto simp: condition_prefix_def tier_call_def js_def join_separated simp del: join.simps)

lemma part_nested:
  assumes "list_all bound_ok cs" "flat l" "list_all (\<lambda>(v, x). cost_ok x) (body_terms t)"
  shows "nested 0 (condition_prefix cs @ tier_call l t @ r) \<longleftrightarrow> nested 0 r"
  using nested_past_flat [OF flat_prefix [OF assms(1)], of 0] nested_call [OF assms(2,3)] by simp

lemma part_bare:
  assumes "list_all bound_ok cs" "flat l" "list_all (\<lambda>(v, x). cost_ok x) (body_terms t)" "bare r"
  shows "bare (condition_prefix cs @ tier_call l t @ r)"
  using flat_bare [OF flat_prefix [OF assms(1)]] bare_call [OF assms(2,3)] assms(4) bare_append by blast

lemma call_last: "last (tier_call l t) = 41" "tier_call l t \<noteq> []"
  by (simp_all add: tier_call_def js_def)

lemma chain_base:
  "ts \<noteq> [] \<Longrightarrow> list_all table_ok ts \<Longrightarrow> n = i + length ts \<Longrightarrow> base_text (join (js '' : '') (part_texts n i ts))"
proof (induction ts arbitrary: i)
  case (Cons t ts)
  have ok: "list_all bound_ok (usable_conditions t)" "list_all (\<lambda>(v, x). cost_ok x) (body_terms t)" "flat (label_or t [])"
    using Cons.prems by (simp_all add: table_ok_def visual_ok_def)
  note l = label_flat [OF ok(3) numbered_flat, of "i + 1"]
  show ?case
  proof (cases ts)
    case Nil
    then show ?thesis
      using part_nested [of "[]", OF _ l ok(2), of "[]"] part_start [of "[]" _ t "[]"] bare_call [OF l ok(2)] Cons.prems
      by (simp add: base_text_def part_text_def condition_prefix_def call_last)
  next
    case (Cons t' ts')
    let ?r = "join (js '' : '') (part_texts n (Suc i) ts)"
    have "base_text ?r" using Cons.IH [of "Suc i"] Cons.prems Cons by simp
    then have r: "nested 0 (js '' : '' @ ?r)" "?r \<noteq> []" "last ?r \<in> {41, 48}" "bare (js '' : '' @ ?r)"
      using nested_past_flat [of "js '' : ''" 0] by (simp_all add: base_text_def flat_pieces flat_bare bare_append)
    have "join (js '' : '') (part_texts n i (t # ts)) =
        condition_prefix (usable_conditions t) @ tier_call (label_or t (js ''tier_'' @ show_nat (i + 1))) t @ js '' : '' @ ?r"
      using Cons.prems by (simp add: Cons part_text_def)
    then show ?thesis using part_nested [OF ok(1) l ok(2)] part_start [OF ok(1)] part_bare [OF ok(1) l ok(2) r(4)] r
      by (simp add: base_text_def call_last)
  qed
qed simp

lemma generated_base:
  assumes "ts \<noteq> []" "list_all table_ok ts"
  shows "base_text (config_text ts)"
proof (cases "tl ts")
  case Nil
  then obtain t where ts: "ts = [t]" using assms(1) by (cases ts) auto
  have ok: "list_all bound_ok (usable_conditions t)" "list_all (\<lambda>(v, x). cost_ok x) (body_terms t)" "flat (label_or t [])"
    using assms(2) by (simp_all add: ts table_ok_def visual_ok_def)
  let ?cs = "usable_conditions t" and ?l = "label_or t (js ''default'')"
  let ?r = "if ?cs = [] then [] else js '' : p * 0 + c * 0''"
  have l: "flat ?l" using label_flat [OF ok(3)] by (simp add: flat_def js_def)
  have "config_text ts = condition_prefix ?cs @ tier_call ?l t @ ?r" by (simp add: ts config_text_def single_text_def)
  moreover have "nested 0 ?r" using nested_past_flat [of "js '' : p * 0 + c * 0''" 0 "[]"] by (simp add: flat_pieces)
  moreover have "last (tier_call ?l t @ ?r) \<in> {41, 48}" by (simp add: call_last) (simp add: js_def)
  moreover have "bare ?r" by (intro flat_bare) (simp add: flat_pieces)
  ultimately show ?thesis using part_nested [OF ok(1) l ok(2), of ?r] part_start [OF ok(1), of ?l t ?r] part_bare [OF ok(1) l ok(2), of ?r]
    by (simp add: base_text_def call_last(2))
next
  case (Cons t' ts')
  then obtain t where ts: "ts = t # t' # ts'" by (cases ts) auto
  then have "config_text ts = join (js '' : '') (part_texts (length ts) 0 ts)" by (simp add: config_text_def)
  then show ?thesis using chain_base [OF assms, of "length ts" 0] by simp
qed

lemma base_trim: "base_text s \<Longrightarrow> js_trim s = s"
  by (rule js_trim_id) (auto simp: base_text_def trimmed_def is_ws_def)

lemma base_splits:
  assumes "base_text s" "list_all group_ok gs"
  shows "splitBillingExprAndRequestRules (combineBillingExpr s (buildRequestRuleExpr gs)) =
    Got \<lparr>billingExpr = s, requestRuleExpr = buildRequestRuleExpr gs\<rparr>"
proof (cases "gs = []")
  case True
  then have "combineBillingExpr s (buildRequestRuleExpr gs) = s"
    using assms(1) base_trim [OF assms(1)] by (simp add: combineBillingExpr_def Let_def buildRequestRuleExpr_def)
  moreover have "bare s" using assms(1) by (simp add: base_text_def)
  ultimately show ?thesis using split_bare [OF _ base_trim [OF assms(1)]] True by (simp add: buildRequestRuleExpr_def)
next
  case False
  have s: "nested 0 s" "s \<noteq> []" "hd s \<in> {112, 99, 108, 116}" "last s \<in> {41, 48}" using assms(1) by (simp_all add: base_text_def)
  have outer: "\<not> hasFullOuterParens s" using s(3) by (auto simp: hasFullOuterParens_def)
  obtain u z where "s = u @ [z]" "z \<in> {41, 48}" using s(2,4) by (cases s rule: rev_cases) auto
  then have "rule_factor (js ''('' @ s @ js '')'') = None"
    by (auto simp: rule_factor_def lit_def js_def starts_with_def)
  with s base_trim [OF assms(1)] outer assms(2) False show ?thesis by (intro split_combined)
qed

lemma combined_nonempty: "base_text s \<Longrightarrow> combineBillingExpr s r \<noteq> []"
  using js_trim_id [of s] by (auto simp: base_text_def combineBillingExpr_def Let_def js_def trimmed_def is_ws_def)

section \<open>From the editors to the page\<close>

text \<open>
  C9: What the editors save is what the pricing page shows.  Take a visual configuration with at least one
  tier, conditions in an array, prices and bounds whose text is a number and labels without quotes or
  parentheses, and any number of request rules the rule editor can carry.  An expression is generated for the
  configuration.  On a model whose usage schema is missing or empty, saved with that expression combined with the
  rules, the page lists exactly the tiers of the configuration, it says that request rules apply when there is one,
  and the rule part it splits off parses to the groups of the rule editor.
\<close>

theorem saved_pricing_shown:
  assumes "config_tiers cfg \<noteq> []" "list_all table_ok (config_tiers cfg)" "list_all group_ok gs"
  shows "\<exists>e. generateExprFromVisualConfig (Some cfg) = Some e \<and>
    (\<forall>model :: pricing_model. pm_billing_mode model = Some (js ''tiered_expr'') \<longrightarrow> pm_usage_schema model \<in> {None, Some []} \<longrightarrow>
       pm_billing_expr model = Some (combineBillingExpr e (buildRequestRuleExpr gs)) \<longrightarrow>
       getDynamicPricingTiers model = Got (map TokenTier (shown_tiers (config_tiers cfg))) \<and>
       hasDynamicRequestRules model = Got (gs \<noteq> []) \<and>
       attempt_bind (splitBillingExprAndRequestRules (saved_expr model)) (\<lambda>parts. tryParseRequestRuleExpr (requestRuleExpr parts)) = Got gs)"
proof (intro exI conjI allI impI)
  have ok: "list_all visual_ok (config_tiers cfg)" using assms(2) by (auto simp: list_all_iff table_ok_def)
  show "generateExprFromVisualConfig (Some cfg) = Some (config_text (config_tiers cfg))"
    by (rule visual_text_written [OF assms(1) visual_writable [OF ok]])
  have base: "base_text (config_text (config_tiers cfg))" by (rule generated_base [OF assms(1,2)])
  note split = base_splits [OF base assms(3)]
  fix model :: pricing_model
  assume m: "pm_billing_mode model = Some (js ''tiered_expr'')" "pm_usage_schema model \<in> {None, Some []}"
    "pm_billing_expr model = Some (combineBillingExpr (config_text (config_tiers cfg)) (buildRequestRuleExpr gs))"
  have dynamic: "isDynamicPricingModel model" "\<not> isTaskUsagePricingModel model"
    using combined_nonempty [OF base] m by (auto simp: isDynamicPricingModel_def isTaskUsagePricingModel_def)
  show "getDynamicPricingTiers model = Got (map TokenTier (shown_tiers (config_tiers cfg)))"
    using config_text_read [OF assms(1) ok] dynamic by (simp add: getDynamicPricingTiers_def m(3) split)
  show "hasDynamicRequestRules model = Got (gs \<noteq> [])"
    using dynamic built_rules_parse [OF assms(3)] by (simp add: hasDynamicRequestRules_def m(3) split)
  show "attempt_bind (splitBillingExprAndRequestRules (saved_expr model)) (\<lambda>parts. tryParseRequestRuleExpr (requestRuleExpr parts)) = Got gs"
    using built_rules_parse [OF assms(3)] by (simp add: m(3) split)
qed

definition sample_rules :: "rule_group list" where
  "sample_rules = [\<lparr>conditions = [ParamCond \<lparr>ph_source = Header, ph_path = js ''x-mode'', ph_mode = MATCH_EQ, ph_value = js ''fast''\<rparr>],
     multiplier = js ''1.5''\<rparr>]"

definition saved_model :: "jstr \<Rightarrow> rule_group list \<Rightarrow> pricing_model" where
  "saved_model e gs = \<lparr>pm_billing_mode = Some (js ''tiered_expr''),
     pm_billing_expr = Some (combineBillingExpr e (buildRequestRuleExpr gs)), pm_usage_schema = None\<rparr>"

theorem saved_pricing_shown_witness:
  "config_tiers sample_visual \<noteq> [] \<and> list_all table_ok (config_tiers sample_visual) \<and> list_all group_ok sample_rules \<and>
   map parsed_label (shown_tiers (config_tiers sample_visual)) = [js ''short'', js ''tier_2''] \<and>
   (\<exists>e. generateExprFromVisualConfig (Some sample_visual) = Some e \<and>
     getDynamicPricingTiers (saved_model e sample_rules) = Got (map TokenTier (shown_tiers (config_tiers sample_visual))) \<and>
     hasDynamicRequestRules (saved_model e sample_rules) = Got True \<and>
     attempt_bind (splitBillingExprAndRequestRules (saved_expr (saved_model e sample_rules)))
       (\<lambda>parts. tryParseRequestRuleExpr (requestRuleExpr parts)) = Got sample_rules \<and>
     hasDynamicRequestRules (saved_model e []) = Got False)"
proof -
  have c: "config_tiers sample_visual \<noteq> []" "list_all table_ok (config_tiers sample_visual)" by code_simp+
  have g: "sample_rules \<noteq> []" "list_all group_ok sample_rules" "list_all group_ok []" by code_simp+
  have m: "pm_billing_mode (saved_model e gs) = Some (js ''tiered_expr'')" "pm_usage_schema (saved_model e gs) \<in> {None, Some []}"
    "pm_billing_expr (saved_model e gs) = Some (combineBillingExpr e (buildRequestRuleExpr gs))" for e gs by (simp_all add: saved_model_def)
  have l: "map parsed_label (shown_tiers (config_tiers sample_visual)) = [js ''short'', js ''tier_2'']" by code_simp
  obtain e where e: "generateExprFromVisualConfig (Some sample_visual) = Some e" using saved_pricing_shown [OF c g(2)] by blast
  have "getDynamicPricingTiers (saved_model e sample_rules) = Got (map TokenTier (shown_tiers (config_tiers sample_visual))) \<and>
     hasDynamicRequestRules (saved_model e sample_rules) = Got True \<and>
     attempt_bind (splitBillingExprAndRequestRules (saved_expr (saved_model e sample_rules)))
       (\<lambda>parts. tryParseRequestRuleExpr (requestRuleExpr parts)) = Got sample_rules"
    using saved_pricing_shown [OF c g(2)] m [of e sample_rules] e g(1) by auto
  moreover have "hasDynamicRequestRules (saved_model e []) = Got False"
    using saved_pricing_shown [OF c g(3)] m [of e "[]"] e by auto
  ultimately show ?thesis using c g l e by blast
qed

end
