(* ===== verification/PriceSync.thy ===== *)
theory PriceSync
  imports TierEditor
begin

text \<open>
  Synchronising prices with upstream channels: \<open>features/system-settings/models/upstream-ratio-sync-helpers.ts\<close>
  and the handlers of \<open>upstream-ratio-sync.tsx\<close>.  The page holds the differences the server reported and a
  resolution per model, the fields and values the administrator picked; applying the resolutions writes the
  ten price settings.  Fields and models are property names, so both are strings; no model is named like a
  member of \<open>Object.prototype\<close>.
\<close>

section \<open>Fields\<close>

record ratio_entry =
  entry_current :: jsval
  entry_upstreams :: jsobj
  entry_confidence :: "(jstr \<times> bool) list"

type_synonym field_diffs = "(jstr \<times> ratio_entry) list"
type_synonym differences = "(jstr \<times> field_diffs) list"
type_synonym resolutions = "(jstr \<times> jsobj) list"

definition RATIO_SYNC_FIELDS :: "jstr list" where
  "RATIO_SYNC_FIELDS = map js [''model_ratio'', ''completion_ratio'', ''cache_ratio'', ''create_cache_ratio'', ''image_ratio'',
     ''audio_ratio'', ''audio_completion_ratio'']"

abbreviation model_price :: jstr where "model_price \<equiv> js ''model_price''"
abbreviation billing_mode :: jstr where "billing_mode \<equiv> js ''billing_mode''"
abbreviation billing_expr :: jstr where "billing_expr \<equiv> js ''billing_expr''"

definition SYNC_FIELD_ORDER :: "jstr list" where
  "SYNC_FIELD_ORDER = RATIO_SYNC_FIELDS @ [model_price, billing_mode, billing_expr]"

definition NUMERIC_SYNC_FIELDS :: "jstr list" where
  "NUMERIC_SYNC_FIELDS = RATIO_SYNC_FIELDS @ [model_price]"

definition getOrderedRatioTypes :: "field_diffs \<Rightarrow> jstr option \<Rightarrow> jstr list" where
  "getOrderedRatioTypes ratioTypes flt = (
     let ks = map fst ratioTypes;
       ordered = filter (\<lambda>f. f \<in> set ks) SYNC_FIELD_ORDER @ filter (\<lambda>f. f \<notin> set SYNC_FIELD_ORDER) ks in
     case flt of None \<Rightarrow> ordered
     | Some f \<Rightarrow> if f = [] \<or> f = js ''__all__'' then ordered else filter (\<lambda>g. g = f) ordered)"

definition isSelectableUpstreamValue :: "jsval \<Rightarrow> bool" where
  "isSelectableUpstreamValue v \<longleftrightarrow> \<not> nullish v \<and> v \<noteq> JStr (js ''same'')"

text \<open>\<open>ratioTypes.f?.upstreams?.[sourceName]\<close>\<close>

definition upstream_value :: "field_diffs \<Rightarrow> jstr \<Rightarrow> jstr \<Rightarrow> jsval" where
  "upstream_value ratioTypes f sourceName = (case map_of ratioTypes f of None \<Rightarrow> JUndef
   | Some e \<Rightarrow> obj_get (entry_upstreams e) sourceName)"

definition getPreferredSyncField :: "field_diffs \<Rightarrow> jstr \<Rightarrow> jstr \<Rightarrow> jstr" where
  "getPreferredSyncField ratioTypes ratioType sourceName =
     (if ratioType \<noteq> billing_expr \<and> isSelectableUpstreamValue (upstream_value ratioTypes billing_expr sourceName)
      then billing_expr else ratioType)"

definition getVisibleRatioTypesForSource :: "field_diffs \<Rightarrow> jstr \<Rightarrow> jstr option \<Rightarrow> jstr list" where
  "getVisibleRatioTypesForSource ratioTypes sourceName flt =
     filter (\<lambda>f. getPreferredSyncField ratioTypes f sourceName = f) (getOrderedRatioTypes ratioTypes flt)"

definition getAlignedRatioTypes :: "field_diffs \<Rightarrow> jstr list \<Rightarrow> jstr option \<Rightarrow> jstr list" where
  "getAlignedRatioTypes ratioTypes sourceNames flt = (let ordered = getOrderedRatioTypes ratioTypes flt in
     if sourceNames = [] then ordered
     else filter (\<lambda>f. list_ex (\<lambda>s. f \<in> set (getVisibleRatioTypesForSource ratioTypes s flt)) sourceNames) ordered)"

datatype billing_category = PriceCat | RatioCat | TieredCat

definition getBillingCategory :: "jstr \<Rightarrow> billing_category" where
  "getBillingCategory ratioType = (if ratioType = model_price then PriceCat
     else if ratioType = billing_mode \<or> ratioType = billing_expr then TieredCat else RatioCat)"

text \<open>The names of the two presets contain Chinese characters, given as code units.\<close>

definition getUpstreamDisplayName :: "jstr \<Rightarrow> jstr" where
  "getUpstreamDisplayName sourceName = (
     let official = [23448, 26041, 20493, 29575, 39044, 35774]; modelsDev = js ''models.dev '' @ [20215, 26684, 39044, 35774] in
     if sourceName = official @ js ''(-100)'' then official
     else if sourceName = modelsDev @ js ''(-101)'' then modelsDev else sourceName)"

text \<open>\<open>===\<close> on numbers and strings.\<close>

fun strict_equal :: "jsval \<Rightarrow> jsval \<Rightarrow> bool" where
  "strict_equal (JNum a) (JNum b) = num_eq a b"
| "strict_equal a b = (a = b)"

definition isSelectedResolutionValue :: "resolutions \<Rightarrow> jstr \<Rightarrow> jstr \<Rightarrow> jsval \<Rightarrow> bool" where
  "isSelectedResolutionValue res model ratioType upstreamValue = (
     if \<not> isSelectableUpstreamValue upstreamValue then False
     else let selectedValue = (case map_of res model of None \<Rightarrow> JUndef | Some r \<Rightarrow> obj_get r ratioType) in
       if selectedValue = JUndef then False
       else if ratioType \<in> set NUMERIC_SYNC_FIELDS
         then isFinite (js_number selectedValue) \<and> isFinite (js_number upstreamValue) \<and>
           num_eq (js_number selectedValue) (js_number upstreamValue)
         else strict_equal selectedValue upstreamValue)"

section \<open>Choosing\<close>

record selection =
  sel_model :: jstr
  sel_type :: jstr
  sel_value :: jsval
  sel_source :: jstr

definition diffs_of :: "differences \<Rightarrow> jstr \<Rightarrow> field_diffs" where
  "diffs_of dmap model = (case map_of dmap model of None \<Rightarrow> [] | Some d \<Rightarrow> d)"

definition resolveResolutionSelection :: "differences \<Rightarrow> selection \<Rightarrow> selection" where
  "resolveResolutionSelection dmap sel = (
     let modelDiffs = diffs_of dmap (sel_model sel);
       preferredType = getPreferredSyncField modelDiffs (sel_type sel) (sel_source sel) in
     sel\<lparr>sel_type := preferredType,
       sel_value := if preferredType = sel_type sel then sel_value sel
         else js_coalesce (upstream_value modelDiffs preferredType (sel_source sel)) (sel_value sel)\<rparr>)"

definition getDraftModelResolution :: "resolutions \<Rightarrow> resolutions \<Rightarrow> jstr \<Rightarrow> jsobj" where
  "getDraftModelResolution drafts res model = (case map_of drafts model of Some d \<Rightarrow> d
   | None \<Rightarrow> (case map_of res model of Some r \<Rightarrow> r | None \<Rightarrow> []))"

text \<open>A price and a ratio exclude each other; the tiered fields stand beside both.\<close>

definition excludes :: "billing_category \<Rightarrow> jstr \<Rightarrow> bool" where
  "excludes category rt \<longleftrightarrow> category \<noteq> TieredCat \<and> getBillingCategory rt \<noteq> TieredCat \<and> getBillingCategory rt \<noteq> category"

definition draft_tiered :: "field_diffs \<Rightarrow> jstr \<Rightarrow> jstr \<Rightarrow> jsobj \<Rightarrow> jsobj" where
  "draft_tiered modelDiffs finalType sourceName draft = (
     let modeVal = upstream_value modelDiffs billing_mode sourceName;
       exprVal = upstream_value modelDiffs billing_expr sourceName;
       d = (if isSelectableUpstreamValue modeVal then obj_put billing_mode modeVal draft
            else if finalType = billing_expr then obj_put billing_mode (JStr (js ''tiered_expr'')) draft else draft) in
     if isSelectableUpstreamValue exprVal then obj_put billing_expr exprVal d else d)"

definition draft_with :: "differences \<Rightarrow> selection \<Rightarrow> jsobj \<Rightarrow> jsobj" where
  "draft_with dmap sel draft = (
     let final = resolveResolutionSelection dmap sel; category = getBillingCategory (sel_type final);
       kept = filter (\<lambda>(rt, _). \<not> excludes category rt) draft;
       d = obj_put (sel_type final) (sel_value final) kept in
     if category = TieredCat \<and> map_of dmap (sel_model sel) \<noteq> None
     then draft_tiered (diffs_of dmap (sel_model sel)) (sel_type final) (sel_source sel) d else d)"

text \<open>A \<open>Map\<close> keeps the order of insertion, as \<open>AList.update\<close> does.\<close>

definition applyResolutionSelectionToDraft :: "resolutions \<Rightarrow> differences \<Rightarrow> resolutions \<Rightarrow> selection \<Rightarrow> resolutions" where
  "applyResolutionSelectionToDraft res dmap drafts sel =
     AList.update (sel_model sel) (draft_with dmap sel (getDraftModelResolution drafts res (sel_model sel))) drafts"

definition put_draft :: "resolutions \<Rightarrow> jstr \<times> jsobj \<Rightarrow> resolutions" where
  "put_draft nxt d = (if snd d = [] then AList.delete (fst d) nxt else obj_put (fst d) (snd d) nxt)"

definition applyResolutionSelections :: "resolutions \<Rightarrow> differences \<Rightarrow> selection list \<Rightarrow> resolutions" where
  "applyResolutionSelections res dmap sels =
     foldl put_draft res (foldl (applyResolutionSelectionToDraft res dmap) [] sels)"

definition applyResolutionSelection :: "resolutions \<Rightarrow> differences \<Rightarrow> selection \<Rightarrow> resolutions" where
  "applyResolutionSelection res dmap sel = applyResolutionSelections res dmap [sel]"

text \<open>The key joins model and field with a zero character.\<close>

definition getEffectiveResolutionSelections :: "differences \<Rightarrow> selection list \<Rightarrow> selection list" where
  "getEffectiveResolutionSelections dmap sels = map snd (foldl (\<lambda>acc sel. let r = resolveResolutionSelection dmap sel in
     AList.update (sel_model r @ [0] @ sel_type r) r
       (filter (\<lambda>(_, e). \<not> (sel_model e = sel_model r \<and> excludes (getBillingCategory (sel_type r)) (sel_type e))) acc)) [] sels)"

section \<open>Taking back\<close>

type_synonym removal_plan = "(jstr \<times> jstr list) list"

definition remove_field :: "jsobj \<Rightarrow> jstr \<Rightarrow> jsobj" where
  "remove_field draft ratioType = (
     let d = AList.delete ratioType draft;
       d2 = (if ratioType = billing_expr then AList.delete billing_mode d else d) in
     if ratioType = billing_mode then AList.delete billing_expr d2 else d2)"

definition remove_from :: "resolutions \<Rightarrow> resolutions \<Rightarrow> jstr \<times> jstr list \<Rightarrow> resolutions" where
  "remove_from res nxt p = (case map_of res (fst p) of None \<Rightarrow> nxt
   | Some current \<Rightarrow> put_draft nxt (fst p, foldl remove_field current (snd p)))"

definition applyResolutionRemovalPlan :: "resolutions \<Rightarrow> removal_plan \<Rightarrow> resolutions" where
  "applyResolutionRemovalPlan res plan = foldl (remove_from res) res plan"

definition applyResolutionRemovals :: "resolutions \<Rightarrow> (jstr \<times> jstr) list \<Rightarrow> resolutions" where
  "applyResolutionRemovals res removals = applyResolutionRemovalPlan res (foldl (\<lambda>plan (model, ratioType).
     case map_of plan model of None \<Rightarrow> plan @ [(model, [ratioType])]
     | Some ts \<Rightarrow> AList.update model (if ratioType \<in> set ts then ts else ts @ [ratioType]) plan) [] removals)"

definition deleteResolutionField :: "resolutions \<Rightarrow> jstr \<Rightarrow> jstr \<Rightarrow> resolutions" where
  "deleteResolutionField res model ratioType = applyResolutionRemovals res [(model, ratioType)]"

section \<open>The page\<close>

record sync_page =
  page_differences :: differences
  page_resolutions :: resolutions

text \<open>
  A fetch replaces the differences and drops the resolutions.  The handlers of the table are closures of a
  render, so a selection carries the differences of that render.  \<open>Synced\<close> is the success callback of the
  write.
\<close>

datatype price_event =
    Fetched differences
  | SelectValue differences selection
  | SelectValues differences "selection list"
  | UnselectValue jstr jstr
  | UnselectValues removal_plan
  | Synced

definition synced_differences :: "differences \<Rightarrow> resolutions \<Rightarrow> differences" where
  "synced_differences dmap res = foldl (\<lambda>acc (model, ratios). foldl (\<lambda>d ratioType. case map_of d model of None \<Rightarrow> d
     | Some fs \<Rightarrow> (if map_of fs ratioType = None then d
         else let fs' = AList.delete ratioType fs in if fs' = [] then AList.delete model d else AList.update model fs' d))
     acc (map fst ratios)) dmap res"

fun sync_step :: "sync_page \<Rightarrow> price_event \<Rightarrow> sync_page" where
  "sync_step pg (Fetched dmap) = \<lparr>page_differences = dmap, page_resolutions = []\<rparr>"
| "sync_step pg (SelectValue dmap sel) = pg\<lparr>page_resolutions := applyResolutionSelection (page_resolutions pg) dmap sel\<rparr>"
| "sync_step pg (SelectValues dmap sels) = pg\<lparr>page_resolutions := applyResolutionSelections (page_resolutions pg) dmap sels\<rparr>"
| "sync_step pg (UnselectValue model ratioType) = pg\<lparr>page_resolutions := deleteResolutionField (page_resolutions pg) model ratioType\<rparr>"
| "sync_step pg (UnselectValues plan) = pg\<lparr>page_resolutions := applyResolutionRemovalPlan (page_resolutions pg) plan\<rparr>"
| "sync_step pg Synced = \<lparr>page_differences = synced_differences (page_differences pg) (page_resolutions pg), page_resolutions = []\<rparr>"

section \<open>Writing the settings\<close>

text \<open>\<open>charAt(0).toUpperCase() + slice(1)\<close>; the names of fields are lower case letters of ASCII.\<close>

definition upper_first :: "jstr \<Rightarrow> jstr" where
  "upper_first w = (case w of [] \<Rightarrow> [] | c # r \<Rightarrow> (if 97 \<le> c \<and> c \<le> 122 then c - 32 else c) # r)"

definition optionKeyBySyncField :: "jstr \<Rightarrow> jstr" where
  "optionKeyBySyncField ratioType =
     (if ratioType = billing_mode then js ''billing_setting.billing_mode''
      else if ratioType = billing_expr then js ''billing_setting.billing_expr''
      else concat (map upper_first (split_on 95 ratioType)))"

text \<open>
  A text that does not parse gives no entries.  The model is faithful for texts of objects; the text of
  another JSON value, which the source would index as it is, is taken to have no properties.
\<close>

definition parseJsonRecord :: "jstr option \<Rightarrow> jsobj" where
  "parseJsonRecord raw = (case json_parse (case raw of Some (c # s) \<Rightarrow> c # s | _ \<Rightarrow> js ''{}'') of
     Some v \<Rightarrow> props_of v | None \<Rightarrow> [])"

text \<open>The option keys in the order of \<open>finalRatios\<close>; the seven ratios come first.\<close>

definition ratio_keys :: "jstr list" where
  "ratio_keys = map js [''ModelRatio'', ''CompletionRatio'', ''CacheRatio'', ''CreateCacheRatio'', ''ImageRatio'', ''AudioRatio'',
     ''AudioCompletionRatio'']"

abbreviation price_key :: jstr where "price_key \<equiv> js ''ModelPrice''"

definition option_keys :: "jstr list" where
  "option_keys = ratio_keys @ [price_key, js ''billing_setting.billing_mode'', js ''billing_setting.billing_expr'']"

type_synonym settings = "(jstr \<times> jsobj) list"

definition parsedRatios :: "(jstr \<times> jstr) list \<Rightarrow> settings" where
  "parsedRatios modelRatios = map (\<lambda>k. (k, parseJsonRecord (map_of modelRatios k))) option_keys"

definition setting_of :: "settings \<Rightarrow> jstr \<Rightarrow> jsobj" where
  "setting_of st k = (case map_of st k of Some r \<Rightarrow> r | None \<Rightarrow> [])"

definition getLocalBillingCategory :: "jstr \<Rightarrow> settings \<Rightarrow> billing_category option" where
  "getLocalBillingCategory model st =
     (if obj_get (setting_of st price_key) model \<noteq> JUndef then Some PriceCat
      else if list_ex (\<lambda>k. obj_get (setting_of st k) model \<noteq> JUndef) ratio_keys then Some RatioCat
      else None)"

definition drop_model :: "jstr \<Rightarrow> jstr list \<Rightarrow> settings \<Rightarrow> settings" where
  "drop_model model ks st = map (\<lambda>(k, r). (k, if k \<in> set ks then AList.delete model r else r)) st"

text \<open>An assignment below an unknown option key throws.\<close>

definition write_field :: "jstr \<Rightarrow> settings option \<Rightarrow> jstr \<times> jsval \<Rightarrow> settings option" where
  "write_field model st f = Option.bind st (\<lambda>s. let k = optionKeyBySyncField (fst f) in
     case map_of s k of None \<Rightarrow> None
     | Some r \<Rightarrow> Some (AList.update k
         (obj_put model (if fst f \<in> set NUMERIC_SYNC_FIELDS then JNum (js_number (snd f)) else snd f) r) s))"

definition write_model :: "settings option \<Rightarrow> jstr \<times> jsobj \<Rightarrow> settings option" where
  "write_model st m = (case m of (model, ratios) \<Rightarrow> Option.bind st (\<lambda>s.
     let hasPrice = model_price \<in> set (map fst ratios);
       hasRatio = list_ex (\<lambda>rt. rt \<in> set RATIO_SYNC_FIELDS) (map fst ratios);
       s1 = (if hasPrice then drop_model model ratio_keys s else s);
       s2 = (if hasRatio then drop_model model [price_key] s1 else s1) in
     foldl (write_field model) (Some s2) ratios))"

text \<open>The settings that \<open>performSync\<close> writes, before they are printed.\<close>

definition finalRatios :: "settings \<Rightarrow> resolutions \<Rightarrow> settings option" where
  "finalRatios currentRatios res = foldl write_model (Some currentRatios) res"

text \<open>\<open>JSON.stringify(v, null, 2)\<close>, with the indentation of the enclosing value.\<close>

fun json_indented :: "nat \<Rightarrow> jsval \<Rightarrow> jstr option" where
  "json_indented i (JArr xs) = Some (if xs = [] then js ''[]'' else 91 # 10 # join [44, 10] (map (\<lambda>x.
     replicate (i + 2) 32 @ (case json_indented (i + 2) x of None \<Rightarrow> js ''null'' | Some t \<Rightarrow> t)) xs) @ 10 # replicate i 32 @ [93])"
| "json_indented i (JObj ps) = (
     let ms = concat (map (\<lambda>(k, v). case json_indented (i + 2) v of None \<Rightarrow> []
       | Some t \<Rightarrow> [replicate (i + 2) 32 @ json_quote k @ js '': '' @ t]) ps) in
     Some (if ms = [] then js ''{}'' else 123 # 10 # join [44, 10] ms @ 10 # replicate i 32 @ [125]))"
| "json_indented i v = json_stringify v"

definition performSync :: "settings \<Rightarrow> resolutions \<Rightarrow> (jstr \<times> jstr option) list option" where
  "performSync currentRatios res = map_option (map (\<lambda>(k, r). (k, json_indented 0 (JObj r)))) (finalRatios currentRatios res)"

record conflict_item =
  conflict_channel :: jstr
  conflict_model :: jstr
  conflict_current :: jstr
  conflict_new :: jstr

definition findSourceChannel :: "differences \<Rightarrow> jstr \<Rightarrow> jstr \<Rightarrow> jsval \<Rightarrow> jstr" where
  "findSourceChannel dmap model ratioType v = (case map_of (diffs_of dmap model) ratioType of None \<Rightarrow> js ''Unknown''
   | Some e \<Rightarrow> (case find (\<lambda>(_, u). strict_equal u v) (entry_upstreams e) of None \<Rightarrow> js ''Unknown'' | Some (n, _) \<Rightarrow> n))"

definition newCat :: "jsobj \<Rightarrow> billing_category" where
  "newCat ratios = (if model_price \<in> set (map fst ratios) then PriceCat
     else if list_ex (\<lambda>rt. rt \<in> set (map fst ratios)) RATIO_SYNC_FIELDS then RatioCat else TieredCat)"

definition is_conflict :: "settings \<Rightarrow> jstr \<times> jsobj \<Rightarrow> bool" where
  "is_conflict st m = (case getLocalBillingCategory (fst m) st of None \<Rightarrow> False
   | Some localCat \<Rightarrow> newCat (snd m) \<noteq> TieredCat \<and> localCat \<noteq> newCat (snd m))"

text \<open>\<open>t\<close> is the translation of a label.\<close>

definition conflict_of :: "(jstr \<Rightarrow> jstr) \<Rightarrow> settings \<Rightarrow> differences \<Rightarrow> jstr \<times> jsobj \<Rightarrow> conflict_item" where
  "conflict_of t st dmap m = (case m of (model, ratios) \<Rightarrow>
     let dash = (\<lambda>v. js_string (js_coalesce v (JStr (js ''-''))));
       desc = (\<lambda>cat price ratio completion. if cat = PriceCat then t (js ''Fixed price'') @ js '': '' @ js_string price
         else t (js ''Model ratio'') @ js '': '' @ dash ratio @ [10] @ t (js ''Completion ratio'') @ js '': '' @ dash completion) in
     \<lparr>conflict_channel = join (js '', '') (js_uniq (map (\<lambda>(rt, v). findSourceChannel dmap model rt v) ratios)),
      conflict_model = model,
      conflict_current = desc (the (getLocalBillingCategory model st)) (obj_get (setting_of st price_key) model)
        (obj_get (setting_of st (js ''ModelRatio'')) model) (obj_get (setting_of st (js ''CompletionRatio'')) model),
      conflict_new = desc (newCat ratios) (obj_get ratios model_price) (obj_get ratios (js ''model_ratio''))
        (obj_get ratios (js ''completion_ratio''))\<rparr>)"

text \<open>Either the conflicts to confirm, or the write; \<open>handleConfirmConflict\<close> is the write alone.\<close>

definition handleApplySync ::
  "(jstr \<Rightarrow> jstr) \<Rightarrow> settings \<Rightarrow> sync_page \<Rightarrow> conflict_item list + (jstr \<times> jstr option) list option" where
  "handleApplySync t st pg = (let conflicts = map (conflict_of t st (page_differences pg)) (filter (is_conflict st) (page_resolutions pg)) in
     if conflicts \<noteq> [] then Inl conflicts else Inr (performSync st (page_resolutions pg)))"

end
