(* ===== verification/PriceSyncSafety.thy ===== *)
theory PriceSyncSafety
  imports PriceSync
begin

text \<open>
  What the administrator picks never asks for two ways of billing at once: an invariant of the resolutions
  under every sequence of handlers.  Then the settings that a synchronisation produces from them: which way
  each model is billed afterwards, and what is lost when no conflict is shown.
\<close>

section \<open>Properties of an object\<close>

abbreviation fields :: "(jstr \<times> 'v) list \<Rightarrow> jstr set" where
  "fields ps \<equiv> fst ` set ps"

lemmas fields_obj_put [simp] = keys_obj_put

declare distinct_obj_put [simp]

lemma fields_delete [simp]: "fields (AList.delete k ps) = fields ps - {k}"
  by (auto simp: AList.delete_eq)

lemma distinct_filter_fields: "distinct (map fst ps) \<Longrightarrow> distinct (map fst (filter P ps))"
  by (rule distinct_map_filter)

lemma distinct_delete_fields [simp]: "distinct (map fst ps) \<Longrightarrow> distinct (map fst (AList.delete k ps))"
  by (simp add: AList.delete_eq distinct_map_filter)

section \<open>A consistent resolution\<close>

text \<open>Not both a fixed price and a ratio, and an expression only together with its billing mode.\<close>

definition one_mode :: "jstr set \<Rightarrow> bool" where
  "one_mode fs \<longleftrightarrow> \<not> (PriceCat \<in> getBillingCategory ` fs \<and> RatioCat \<in> getBillingCategory ` fs)"

definition expr_with_mode :: "jstr set \<Rightarrow> bool" where
  "expr_with_mode fs \<longleftrightarrow> (billing_expr \<in> fs \<longrightarrow> billing_mode \<in> fs)"

definition consistent :: "jsobj \<Rightarrow> bool" where
  "consistent r \<longleftrightarrow> distinct (map fst r) \<and> fields r \<subseteq> set SYNC_FIELD_ORDER \<and> one_mode (fields r) \<and> expr_with_mode (fields r)"

definition resolutions_ok :: "resolutions \<Rightarrow> bool" where
  "resolutions_ok res \<longleftrightarrow> distinct (map fst res) \<and> (\<forall>(model, r) \<in> set res. r \<noteq> [] \<and> consistent r)"

text \<open>The table offers rows of the differences and fields of the type.\<close>

definition selection_ok :: "differences \<Rightarrow> selection \<Rightarrow> bool" where
  "selection_ok dmap sel \<longleftrightarrow> sel_model sel \<in> fields dmap \<and> sel_type sel \<in> set SYNC_FIELD_ORDER"

fun event_ok :: "price_event \<Rightarrow> bool" where
  "event_ok (SelectValue dmap sel) = selection_ok dmap sel"
| "event_ok (SelectValues dmap sels) = list_all (selection_ok dmap) sels"
| "event_ok _ = True"

inductive sync_reachable :: "sync_page \<Rightarrow> bool" where
  start: "sync_reachable \<lparr>page_differences = [], page_resolutions = []\<rparr>"
| step: "sync_reachable pg \<Longrightarrow> event_ok e \<Longrightarrow> sync_reachable (sync_step pg e)"

lemma tiered_fields: "getBillingCategory billing_mode = TieredCat" "getBillingCategory billing_expr = TieredCat"
  "getBillingCategory model_price = PriceCat" "billing_mode \<noteq> billing_expr" "model_price \<noteq> billing_mode" "model_price \<noteq> billing_expr"
  by (simp_all add: getBillingCategory_def js_inject)

lemma tiered_iff: "getBillingCategory f = TieredCat \<longleftrightarrow> f = billing_mode \<or> f = billing_expr"
  by (auto simp: getBillingCategory_def js_inject)

lemma order_tiered: "billing_mode \<in> set SYNC_FIELD_ORDER" "billing_expr \<in> set SYNC_FIELD_ORDER" "model_price \<in> set SYNC_FIELD_ORDER"
  by (simp_all add: SYNC_FIELD_ORDER_def)

lemma consistent_empty [simp]: "consistent []"
  by (simp add: consistent_def one_mode_def expr_with_mode_def)

section \<open>Choosing keeps it\<close>

lemma preferred_type:
  "sel_type (resolveResolutionSelection dmap sel) \<in> {sel_type sel, billing_expr}"
  by (simp add: resolveResolutionSelection_def Let_def getPreferredSyncField_def)

lemma draft_tiered_fields:
  "fields (draft_tiered d ft src r) - {billing_mode, billing_expr} = fields r - {billing_mode, billing_expr}"
  "fields r \<subseteq> set SYNC_FIELD_ORDER \<Longrightarrow> fields (draft_tiered d ft src r) \<subseteq> set SYNC_FIELD_ORDER"
  "distinct (map fst r) \<Longrightarrow> distinct (map fst (draft_tiered d ft src r))"
  by (auto simp: draft_tiered_def Let_def order_tiered)

lemma draft_tiered_mode: "ft \<in> fields r \<Longrightarrow> getBillingCategory ft = TieredCat \<Longrightarrow> billing_mode \<in> fields (draft_tiered d ft src r)"
  unfolding tiered_iff draft_tiered_def Let_def by (elim disjE) simp_all

lemma one_mode_tiered: "fs - {billing_mode, billing_expr} = gs - {billing_mode, billing_expr} \<Longrightarrow> one_mode fs \<longleftrightarrow> one_mode gs"
proof -
  assume eq: "fs - {billing_mode, billing_expr} = gs - {billing_mode, billing_expr}"
  have "c \<in> getBillingCategory ` hs \<longleftrightarrow> c \<in> getBillingCategory ` (hs - {billing_mode, billing_expr})" if "c \<noteq> TieredCat" for c hs
    using that by (auto simp: tiered_fields)
  then show ?thesis unfolding one_mode_def using eq by (metis billing_category.distinct(3,5))
qed

lemma draft_with_consistent:
  assumes r: "consistent r" and sel: "selection_ok dmap sel"
  shows "consistent (draft_with dmap sel r) \<and> draft_with dmap sel r \<noteq> []"
proof -
  let ?f = "resolveResolutionSelection dmap sel"
  let ?c = "getBillingCategory (sel_type ?f)"
  let ?kept = "filter (\<lambda>(rt, _). \<not> excludes ?c rt) r"
  let ?d = "obj_put (sel_type ?f) (sel_value ?f) ?kept"
  have t: "sel_type ?f \<in> set SYNC_FIELD_ORDER" using preferred_type [of dmap sel] sel order_tiered by (auto simp: selection_ok_def)
  have kept: "fields ?kept = {f \<in> fields r. \<not> excludes ?c f}" by force
  have d: "distinct (map fst ?d)" "fields ?d \<subseteq> set SYNC_FIELD_ORDER"
    using r t distinct_filter_fields [of r] by (auto simp: consistent_def)
  have one: "one_mode (fields ?d)"
    using r unfolding fields_obj_put kept by (cases ?c) (auto simp: one_mode_def consistent_def excludes_def)
  show ?thesis
  proof (cases "?c = TieredCat")
    case True
    have m: "map_of dmap (sel_model sel) \<noteq> None" using sel by (auto simp: selection_ok_def map_of_eq_None_iff)
    let ?e = "draft_tiered (diffs_of dmap (sel_model sel)) (sel_type ?f) (sel_source sel) ?d"
    have e: "draft_with dmap sel r = ?e" using True m by (simp add: draft_with_def Let_def)
    have "billing_mode \<in> fields ?e" using True by (intro draft_tiered_mode) simp_all
    moreover have "one_mode (fields ?e)" using one one_mode_tiered [OF draft_tiered_fields(1)] by blast
    ultimately show ?thesis using draft_tiered_fields(2) [OF d(2)] draft_tiered_fields(3) [OF d(1)]
      unfolding e consistent_def expr_with_mode_def by auto
  next
    case False
    then have "sel_type ?f \<noteq> billing_expr" using tiered_fields(2) by metis
    then have "expr_with_mode (fields ?d)"
      using r unfolding fields_obj_put kept by (auto simp: expr_with_mode_def consistent_def excludes_def tiered_fields)
    moreover have "?d \<noteq> []" using fields_obj_put [of "sel_type ?f" "sel_value ?f" ?kept] by (metis image_empty insert_not_empty list.set(1))
    ultimately show ?thesis using False d one by (simp add: draft_with_def Let_def consistent_def)
  qed
qed

lemma resolutions_okD: "resolutions_ok res \<Longrightarrow> map_of res m = Some r \<Longrightarrow> r \<noteq> [] \<and> consistent r"
  by (auto simp: resolutions_ok_def dest: map_of_SomeD)

text \<open>Drafts may be empty after a removal; such a model leaves the resolutions.\<close>

lemma put_draft_ok:
  assumes "resolutions_ok nxt" "consistent (snd d)"
  shows "resolutions_ok (put_draft nxt d)"
proof -
  have fold_eq: "(\<forall>(m, r) \<in> set xs. P r) \<longleftrightarrow> (\<forall>m r. map_of xs m = Some r \<longrightarrow> P r)" if "distinct (map fst xs)" for xs :: resolutions and P
    using that by (auto simp: map_of_eq_Some_iff)
  show ?thesis
  proof (cases "snd d = []")
    case True
    then show ?thesis using assms(1) by (auto simp: put_draft_def resolutions_ok_def AList.delete_eq distinct_map_filter)
  next
    case False
    have di: "distinct (map fst nxt)" using assms(1) by (simp add: resolutions_ok_def)
    show ?thesis using assms False unfolding put_draft_def resolutions_ok_def fold_eq [OF di] if_not_P [OF False] fold_eq [OF distinct_obj_put [OF di]]
      by (auto simp: fun_upd_def)
  qed
qed

lemma put_drafts_ok: "resolutions_ok nxt \<Longrightarrow> \<forall>(m, d) \<in> set ds. consistent d \<Longrightarrow> resolutions_ok (foldl put_draft nxt ds)"
proof (induction ds arbitrary: nxt)
  case (Cons d ds)
  then have "resolutions_ok (put_draft nxt d)" by (intro put_draft_ok) auto
  then show ?case using Cons by simp
qed simp

lemma drafts_consistent:
  assumes "resolutions_ok res" "list_all (selection_ok dmap) sels" "\<forall>(m, d) \<in> set drafts. consistent d"
  shows "\<forall>(m, d) \<in> set (foldl (applyResolutionSelectionToDraft res dmap) drafts sels). consistent d"
  using assms(2,3)
proof (induction sels arbitrary: drafts)
  case (Cons sel sels)
  let ?d = "getDraftModelResolution drafts res (sel_model sel)"
  have "consistent ?d"
    using Cons.prems(2) assms(1) by (auto simp: getDraftModelResolution_def dest: map_of_SomeD resolutions_okD split: option.split)
  then have new: "consistent (draft_with dmap sel ?d)" using draft_with_consistent Cons.prems(1) by simp
  have "set (AList.update k v ps) \<subseteq> insert (k, v) (set ps)" for k and v :: jsobj and ps by (induction ps) auto
  then have "\<forall>(m, d) \<in> set (applyResolutionSelectionToDraft res dmap drafts sel). consistent d"
    using new Cons.prems(2) unfolding applyResolutionSelectionToDraft_def by fast
  then show ?case using Cons.IH Cons.prems(1) by simp
qed simp

lemma selections_ok: "resolutions_ok res \<Longrightarrow> list_all (selection_ok dmap) sels \<Longrightarrow> resolutions_ok (applyResolutionSelections res dmap sels)"
  unfolding applyResolutionSelections_def using drafts_consistent [of res dmap sels "[]"] by (intro put_drafts_ok) auto

section \<open>Taking back keeps it\<close>

lemma remove_field_consistent: "consistent r \<Longrightarrow> consistent (remove_field r f)"
  by (auto simp: consistent_def remove_field_def Let_def one_mode_def expr_with_mode_def tiered_fields)

lemma remove_fields_consistent: "consistent r \<Longrightarrow> consistent (foldl remove_field r fs)"
  by (induction fs arbitrary: r) (simp_all add: remove_field_consistent)

lemma removal_ok:
  assumes "resolutions_ok res"
  shows "resolutions_ok (applyResolutionRemovalPlan res plan)"
proof -
  have "resolutions_ok (foldl (remove_from res) nxt plan)" if "resolutions_ok nxt" for nxt
    using that
  proof (induction plan arbitrary: nxt)
    case (Cons p plan)
    have "resolutions_ok (remove_from res nxt p)"
      using Cons.prems put_draft_ok [of nxt "(fst p, foldl remove_field _ (snd p))"] remove_fields_consistent resolutions_okD [OF assms]
      by (auto simp: remove_from_def split: option.split)
    then show ?case using Cons.IH by simp
  qed simp
  then show ?thesis using assms by (simp add: applyResolutionRemovalPlan_def)
qed

lemma step_ok: "resolutions_ok (page_resolutions pg) \<Longrightarrow> event_ok e \<Longrightarrow> resolutions_ok (page_resolutions (sync_step pg e))"
  by (cases e) (auto simp: applyResolutionSelection_def deleteResolutionField_def applyResolutionRemovals_def
      intro!: selections_ok removal_ok, auto simp: resolutions_ok_def)

lemma reachable_ok: "sync_reachable pg \<Longrightarrow> resolutions_ok (page_resolutions pg)"
  by (induction rule: sync_reachable.induct) (simp_all add: step_ok, simp add: resolutions_ok_def)

section \<open>The settings, model by model\<close>

definition setting :: "settings \<Rightarrow> jstr \<Rightarrow> jstr \<Rightarrow> jsval option" where
  "setting st k m = map_of (setting_of st k) m"

definition written :: "jstr \<times> jsval \<Rightarrow> jsval" where
  "written f = (if fst f \<in> set NUMERIC_SYNC_FIELDS then JNum (js_number (snd f)) else snd f)"

lemma sync_fields: "SYNC_FIELD_ORDER = map js [''model_ratio'', ''completion_ratio'', ''cache_ratio'', ''create_cache_ratio'', ''image_ratio'',
    ''audio_ratio'', ''audio_completion_ratio'', ''model_price'', ''billing_mode'', ''billing_expr'']"
  by (simp add: SYNC_FIELD_ORDER_def RATIO_SYNC_FIELDS_def)

lemma option_key_list: "map optionKeyBySyncField SYNC_FIELD_ORDER = option_keys"
  by code_simp

lemma option_keys_distinct: "distinct option_keys"
  by code_simp

lemma sync_fields_distinct: "distinct SYNC_FIELD_ORDER"
  by code_simp

lemma option_key_inj: "inj_on optionKeyBySyncField (set SYNC_FIELD_ORDER)"
  using option_keys_distinct unfolding option_key_list [symmetric] by (simp add: distinct_map)

lemma option_key_mem: "f \<in> set SYNC_FIELD_ORDER \<Longrightarrow> optionKeyBySyncField f \<in> set option_keys"
  unfolding option_key_list [symmetric] by simp

lemma ratio_key_image: "optionKeyBySyncField ` set RATIO_SYNC_FIELDS = set ratio_keys" "optionKeyBySyncField model_price = price_key"
  by (simp flip: set_map, code_simp) code_simp

lemma price_not_ratio: "price_key \<notin> set ratio_keys"
  by code_simp

lemma drop_model_keys [simp]: "map fst (drop_model m ks st) = map fst st"
  by (simp add: drop_model_def comp_def case_prod_beta)

lemma setting_of_map: "setting_of (map (\<lambda>(k, r). (k, g k r)) st) k = (if k \<in> fields st then g k (setting_of st k) else [])"
  by (induction st) (auto simp: setting_of_def)

lemma setting_absent: "k \<notin> fields st \<Longrightarrow> setting_of st k = []"
  by (simp add: setting_of_def map_of_eq_None_iff [THEN iffD2] split: option.split)

lemma drop_model_setting: "setting (drop_model m ks st) k m' = (if m' = m \<and> k \<in> set ks then None else setting st k m')"
  by (auto simp: setting_def drop_model_def setting_of_map delete_conv' setting_absent)

lemma write_field_some:
  assumes "map fst st = option_keys" "fst f \<in> set SYNC_FIELD_ORDER"
  shows "\<exists>st'. write_field m (Some st) f = Some st' \<and> map fst st' = option_keys \<and>
    (\<forall>k m'. setting st' k m' = (if m' = m \<and> k = optionKeyBySyncField (fst f) then Some (written f) else setting st k m'))"
proof -
  let ?k = "optionKeyBySyncField (fst f)"
  have mem: "?k \<in> fields st" using assms option_key_mem by (metis set_map)
  then obtain r where r: "map_of st ?k = Some r" by (metis map_of_eq_None_iff option.exhaust)
  let ?st = "AList.update ?k (obj_put m (written f) r) st"
  have "write_field m (Some st) f = Some ?st" by (simp add: write_field_def r written_def Let_def)
  moreover have "map fst ?st = option_keys" using option_key_mem [OF assms(2)] assms(1) by (simp add: update_keys)
  moreover have "setting ?st k m' = (if m' = m \<and> k = ?k then Some (written f) else setting st k m')" for k m'
    by (auto simp: setting_def setting_of_def update_conv' r)
  ultimately show ?thesis by blast
qed

lemma write_fields_some:
  "map fst st = option_keys \<Longrightarrow> fields r \<subseteq> set SYNC_FIELD_ORDER \<Longrightarrow> distinct (map fst r) \<Longrightarrow>
     \<exists>st'. foldl (write_field m) (Some st) r = Some st' \<and> map fst st' = option_keys \<and>
       (\<forall>f \<in> set r. setting st' (optionKeyBySyncField (fst f)) m = Some (written f)) \<and>
       (\<forall>k m'. m' \<noteq> m \<or> k \<notin> optionKeyBySyncField ` fields r \<longrightarrow> setting st' k m' = setting st k m')"
proof (induction r arbitrary: st)
  case (Cons f r)
  obtain s where s: "write_field m (Some st) f = Some s" "map fst s = option_keys"
      "\<forall>k m'. setting s k m' = (if m' = m \<and> k = optionKeyBySyncField (fst f) then Some (written f) else setting st k m')"
    using write_field_some [of st f m] Cons.prems by auto
  obtain st' where st': "foldl (write_field m) (Some s) r = Some st'" "map fst st' = option_keys"
      "\<forall>f \<in> set r. setting st' (optionKeyBySyncField (fst f)) m = Some (written f)"
      "\<forall>k m'. m' \<noteq> m \<or> k \<notin> optionKeyBySyncField ` fields r \<longrightarrow> setting st' k m' = setting s k m'"
    using Cons.IH [OF s(2)] Cons.prems by auto
  have "optionKeyBySyncField (fst f) \<notin> optionKeyBySyncField ` fields r"
    using Cons.prems(2,3) option_key_inj by (auto simp: inj_on_def)
  then have "setting st' (optionKeyBySyncField (fst f)) m = Some (written f)" using st'(4) s(3) by simp
  then show ?case using s st' by (intro exI [of _ st']) auto
qed auto

text \<open>The settings of a model after its resolution: the picked fields are written, and the other way of billing is gone.\<close>

definition has_price :: "jsobj \<Rightarrow> bool" where
  "has_price r \<longleftrightarrow> model_price \<in> fields r"

definition has_ratio :: "jsobj \<Rightarrow> bool" where
  "has_ratio r \<longleftrightarrow> fields r \<inter> set RATIO_SYNC_FIELDS \<noteq> {}"

definition applied :: "settings \<Rightarrow> jstr \<Rightarrow> jsobj \<Rightarrow> settings \<Rightarrow> bool" where
  "applied st m r st' \<longleftrightarrow> (\<forall>f \<in> set r. setting st' (optionKeyBySyncField (fst f)) m = Some (written f)) \<and>
     (\<forall>k. k \<notin> optionKeyBySyncField ` fields r \<longrightarrow> setting st' k m =
        (if has_price r \<and> k \<in> set ratio_keys \<or> has_ratio r \<and> k = price_key then None else setting st k m))"

lemma write_model_some:
  assumes "map fst st = option_keys" "consistent r"
  shows "\<exists>st'. write_model (Some st) (m, r) = Some st' \<and> map fst st' = option_keys \<and> applied st m r st' \<and>
    (\<forall>k m'. m' \<noteq> m \<longrightarrow> setting st' k m' = setting st k m')"
proof -
  define s1 where "s1 = (if has_price r then drop_model m ratio_keys st else st)"
  define s2 where "s2 = (if has_ratio r then drop_model m [price_key] s1 else s1)"
  have ratio: "list_ex (\<lambda>rt. rt \<in> set RATIO_SYNC_FIELDS) (map fst r) \<longleftrightarrow> has_ratio r" by (auto simp: has_ratio_def list_ex_iff)
  have eq: "write_model (Some st) (m, r) = foldl (write_field m) (Some s2) r"
    unfolding write_model_def Let_def ratio prod.case bind.simps s2_def s1_def has_price_def by simp
  have keys: "map fst s2 = option_keys" using assms(1) by (simp add: s2_def s1_def)
  have s2: "setting s2 k m' = (if m' = m \<and> (has_price r \<and> k \<in> set ratio_keys \<or> has_ratio r \<and> k = price_key) then None else setting st k m')" for k m'
    by (auto simp: s2_def s1_def drop_model_setting)
  have r: "fields r \<subseteq> set SYNC_FIELD_ORDER" "distinct (map fst r)" using assms(2) by (simp_all add: consistent_def)
  obtain st' where st': "foldl (write_field m) (Some s2) r = Some st'" "map fst st' = option_keys"
      "\<forall>f \<in> set r. setting st' (optionKeyBySyncField (fst f)) m = Some (written f)"
      "\<forall>k m'. m' \<noteq> m \<or> k \<notin> optionKeyBySyncField ` fields r \<longrightarrow> setting st' k m' = setting s2 k m'"
    using write_fields_some [OF keys r] by blast
  then show ?thesis unfolding eq applied_def using s2 by (intro exI [of _ st']) simp
qed

lemma write_models_some:
  "map fst st = option_keys \<Longrightarrow> distinct (map fst res) \<Longrightarrow> \<forall>(m, r) \<in> set res. consistent r \<Longrightarrow>
     \<exists>st'. foldl write_model (Some st) res = Some st' \<and> map fst st' = option_keys \<and>
       (\<forall>(m, r) \<in> set res. applied st m r st') \<and> (\<forall>k m. m \<notin> fields res \<longrightarrow> setting st' k m = setting st k m)"
proof (induction res arbitrary: st)
  case (Cons p res)
  obtain m r where p: "p = (m, r)" by (cases p)
  obtain s where s: "write_model (Some st) (m, r) = Some s" "map fst s = option_keys" "applied st m r s"
      "\<forall>k m'. m' \<noteq> m \<longrightarrow> setting s k m' = setting st k m'"
    using write_model_some [OF Cons.prems(1), of r m] Cons.prems(3) by (auto simp: p)
  obtain st' where st': "foldl write_model (Some s) res = Some st'" "map fst st' = option_keys"
      "\<forall>(m, r) \<in> set res. applied s m r st'" "\<forall>k m. m \<notin> fields res \<longrightarrow> setting st' k m = setting s k m"
    using Cons.IH [OF s(2)] Cons.prems by auto
  have new: "m \<notin> fields res" using Cons.prems(2) by (simp add: p)
  then have "applied st m r st'" using s(3) st'(4) by (simp add: applied_def)
  moreover have "applied st m' r' st'" if "(m', r') \<in> set res" for m' r'
  proof -
    have "m' \<noteq> m" using that new by force
    then show ?thesis using st'(3) that s(4) by (fastforce simp: applied_def)
  qed
  ultimately show ?case using s(1,4) st' by (intro exI [of _ st']) (auto simp: p)
qed auto

lemma reachable_written:
  assumes "sync_reachable pg" "map fst st = option_keys"
  shows "\<exists>st'. finalRatios st (page_resolutions pg) = Some st' \<and> map fst st' = option_keys \<and>
    (\<forall>(m, r) \<in> set (page_resolutions pg). applied st m r st') \<and>
    (\<forall>k m. m \<notin> fields (page_resolutions pg) \<longrightarrow> setting st' k m = setting st k m)"
  using write_models_some [OF assms(2), of "page_resolutions pg"] reachable_ok [OF assms(1)]
  unfolding finalRatios_def resolutions_ok_def by fastforce

section \<open>One way of billing\<close>

definition priced_at :: "settings \<Rightarrow> jstr \<Rightarrow> bool" where
  "priced_at st m \<longleftrightarrow> setting st price_key m \<noteq> None"

definition rated_at :: "settings \<Rightarrow> jstr \<Rightarrow> bool" where
  "rated_at st m \<longleftrightarrow> (\<exists>k \<in> set ratio_keys. setting st k m \<noteq> None)"

lemma ratio_category: "f \<in> set SYNC_FIELD_ORDER \<Longrightarrow> getBillingCategory f = RatioCat \<longleftrightarrow> f \<in> set RATIO_SYNC_FIELDS"
  by (auto simp: sync_fields RATIO_SYNC_FIELDS_def getBillingCategory_def js_inject)

lemma price_category: "getBillingCategory f = PriceCat \<longleftrightarrow> f = model_price"
  by (simp add: getBillingCategory_def)

lemma consistent_one:
  assumes "consistent r"
  shows "\<not> (has_price r \<and> has_ratio r)"
proof
  assume both: "has_price r \<and> has_ratio r"
  then obtain f where f: "f \<in> fields r" "f \<in> set RATIO_SYNC_FIELDS" by (auto simp: has_ratio_def)
  then have "getBillingCategory f = RatioCat" using ratio_category [of f] by (simp add: SYNC_FIELD_ORDER_def)
  then have "RatioCat \<in> getBillingCategory ` fields r" using f(1) by (metis imageI)
  moreover have "PriceCat \<in> getBillingCategory ` fields r" using both tiered_fields(3) unfolding has_price_def by (metis imageI)
  ultimately show False using assms by (simp add: consistent_def one_mode_def)
qed

lemma option_key_kind:
  assumes "consistent r"
  shows "price_key \<in> optionKeyBySyncField ` fields r \<longleftrightarrow> has_price r"
    "(\<exists>k \<in> set ratio_keys. k \<in> optionKeyBySyncField ` fields r) \<longleftrightarrow> has_ratio r"
proof -
  have sub: "fields r \<subseteq> set SYNC_FIELD_ORDER" using assms by (simp add: consistent_def)
  have mem: "optionKeyBySyncField f \<in> optionKeyBySyncField ` fields r \<longleftrightarrow> f \<in> fields r" if "f \<in> set SYNC_FIELD_ORDER" for f
    by (rule inj_on_image_mem_iff [OF option_key_inj that sub])
  show "price_key \<in> optionKeyBySyncField ` fields r \<longleftrightarrow> has_price r"
    unfolding ratio_key_image(2) [symmetric] has_price_def by (rule mem [OF order_tiered(3)])
  have "(\<exists>k \<in> optionKeyBySyncField ` set RATIO_SYNC_FIELDS. k \<in> optionKeyBySyncField ` fields r) \<longleftrightarrow>
      (\<exists>f \<in> set RATIO_SYNC_FIELDS. optionKeyBySyncField f \<in> optionKeyBySyncField ` fields r)" by (rule bex_simps(7))
  also have "\<dots> \<longleftrightarrow> (\<exists>f \<in> set RATIO_SYNC_FIELDS. f \<in> fields r)" using mem by (intro bex_cong) (simp_all add: SYNC_FIELD_ORDER_def)
  finally show "(\<exists>k \<in> set ratio_keys. k \<in> optionKeyBySyncField ` fields r) \<longleftrightarrow> has_ratio r"
    unfolding ratio_key_image(1) has_ratio_def by blast
qed

lemma applied_kinds:
  assumes "applied st m r st'" "consistent r"
  shows "priced_at st' m \<longleftrightarrow> has_price r \<or> \<not> has_ratio r \<and> priced_at st m"
    "rated_at st' m \<longleftrightarrow> has_ratio r \<or> \<not> has_price r \<and> rated_at st m"
proof -
  have at: "setting st' k m \<noteq> None \<longleftrightarrow> k \<in> optionKeyBySyncField ` fields r \<or>
      \<not> (has_price r \<and> k \<in> set ratio_keys \<or> has_ratio r \<and> k = price_key) \<and> setting st k m \<noteq> None" for k
    using assms(1) by (cases "k \<in> optionKeyBySyncField ` fields r") (auto simp: applied_def)
  note kind = option_key_kind [OF assms(2)]
  show "priced_at st' m \<longleftrightarrow> has_price r \<or> \<not> has_ratio r \<and> priced_at st m"
    unfolding priced_at_def at [of price_key] kind(1) using price_not_ratio by simp
  have "setting st' k m \<noteq> None \<longleftrightarrow> k \<in> optionKeyBySyncField ` fields r \<or> \<not> has_price r \<and> setting st k m \<noteq> None" if "k \<in> set ratio_keys" for k
  proof -
    have "k \<noteq> price_key" using that price_not_ratio by metis
    then show ?thesis unfolding at [of k] using that by simp
  qed
  then have "rated_at st' m \<longleftrightarrow> (\<exists>k \<in> set ratio_keys. k \<in> optionKeyBySyncField ` fields r \<or> \<not> has_price r \<and> setting st k m \<noteq> None)"
    unfolding rated_at_def by (intro bex_cong) auto
  then have "rated_at st' m \<longleftrightarrow> (\<exists>k \<in> set ratio_keys. k \<in> optionKeyBySyncField ` fields r) \<or> \<not> has_price r \<and> rated_at st m"
    unfolding rated_at_def bex_disj_distrib by simp
  then show "rated_at st' m \<longleftrightarrow> has_ratio r \<or> \<not> has_price r \<and> rated_at st m" unfolding kind(2) .
qed

lemma local_category:
  assumes "\<forall>k m. setting st k m \<noteq> Some JUndef"
  shows "getLocalBillingCategory m st = (if priced_at st m then Some PriceCat else if rated_at st m then Some RatioCat else None)"
proof -
  have "obj_get (setting_of st k) m \<noteq> JUndef \<longleftrightarrow> setting st k m \<noteq> None" for k
    using assms by (auto simp: setting_def obj_get_def split: option.split)
  then show ?thesis by (simp add: getLocalBillingCategory_def priced_at_def rated_at_def list_ex_iff)
qed

lemma new_category: "newCat r = (if has_price r then PriceCat else if has_ratio r then RatioCat else TieredCat)"
  by (auto simp: newCat_def has_price_def has_ratio_def list_ex_iff)

text \<open>What the write of a model without a conflict loses.\<close>

lemma lost_setting:
  assumes a: "applied st m r st'" and c: "consistent r" and calm: "\<not> is_conflict st (m, r)"
    and def: "\<forall>k m. setting st k m \<noteq> Some JUndef" and old: "setting st k m \<noteq> None"
  shows "setting st' k m = None \<longleftrightarrow> k \<in> set ratio_keys \<and> priced_at st m \<and> has_price r"
proof -
  have one: "\<not> (has_price r \<and> has_ratio r)" by (rule consistent_one [OF c])
  have gone: "setting st' k m = None \<longleftrightarrow> k \<notin> optionKeyBySyncField ` fields r \<and> (has_price r \<and> k \<in> set ratio_keys \<or> has_ratio r \<and> k = price_key)"
    using a old by (cases "k \<in> optionKeyBySyncField ` fields r") (auto simp: applied_def)
  have ratio: "k \<in> set ratio_keys \<Longrightarrow> has_price r \<Longrightarrow> k \<notin> optionKeyBySyncField ` fields r"
    using option_key_kind(2) [OF c] one by blast
  have "k = price_key \<Longrightarrow> priced_at st m" "k \<in> set ratio_keys \<Longrightarrow> rated_at st m" using old by (auto simp: priced_at_def rated_at_def)
  then have "has_ratio r \<Longrightarrow> k \<noteq> price_key" "k \<in> set ratio_keys \<Longrightarrow> has_price r \<Longrightarrow> priced_at st m"
    using calm one by (auto simp: is_conflict_def local_category [OF def] new_category split: if_splits)
  then show ?thesis unfolding gone using ratio by blast
qed

section \<open>The properties\<close>

definition sample_diffs :: differences where
  "sample_diffs = [(js ''m'', [(js ''completion_ratio'', \<lparr>entry_current = JNull, entry_upstreams = [(js ''up'', JStr (js ''4''))], entry_confidence = []\<rparr>),
     (model_price, \<lparr>entry_current = JNull, entry_upstreams = [(js ''up'', JNum (Fin 2))], entry_confidence = []\<rparr>)])]"

text \<open>First the fixed price is selected, then a ratio of the same model, which takes its place.\<close>

definition sample_page :: sync_page where
  "sample_page = foldl sync_step \<lparr>page_differences = [], page_resolutions = []\<rparr>
     [Fetched sample_diffs,
      SelectValue sample_diffs \<lparr>sel_model = js ''m'', sel_type = model_price, sel_value = JNum (Fin 2), sel_source = js ''up''\<rparr>,
      SelectValue sample_diffs \<lparr>sel_model = js ''m'', sel_type = js ''completion_ratio'', sel_value = JStr (js ''4''), sel_source = js ''up''\<rparr>]"

lemma sample_reachable: "sync_reachable sample_page"
  unfolding sample_page_def foldl.simps
  by (intro sync_reachable.intros) (simp_all add: selection_ok_def sample_diffs_def sync_fields)

lemma sample_resolution: "page_resolutions sample_page = [(js ''m'', [(js ''completion_ratio'', JStr (js ''4''))])]"
  by code_simp

text \<open>A page on which only the fixed price is selected, and settings that bill the model in both ways.\<close>

definition price_page :: sync_page where
  "price_page = foldl sync_step \<lparr>page_differences = [], page_resolutions = []\<rparr>
     [Fetched sample_diffs,
      SelectValue sample_diffs \<lparr>sel_model = js ''m'', sel_type = model_price, sel_value = JNum (Fin 2), sel_source = js ''up''\<rparr>]"

lemma price_reachable: "sync_reachable price_page"
  unfolding price_page_def foldl.simps
  by (intro sync_reachable.intros) (simp_all add: selection_ok_def sample_diffs_def sync_fields)

definition mixed_settings :: settings where
  "mixed_settings = map (\<lambda>k. (k, if k \<in> {js ''ModelRatio'', price_key} then [(js ''m'', JNum (Fin 1))] else [])) option_keys"

lemma mixed: "map fst mixed_settings = option_keys" "\<forall>k m. setting mixed_settings k m \<noteq> Some JUndef"
  "priced_at mixed_settings (js ''m'')" "rated_at mixed_settings (js ''m'')"
proof -
  show "map fst mixed_settings = option_keys" by (simp add: mixed_settings_def comp_def)
  show "\<forall>k m. setting mixed_settings k m \<noteq> Some JUndef"
    by (auto simp: setting_def setting_of_def mixed_settings_def map_of_map_restrict restrict_map_def split: if_splits option.splits)
  show "priced_at mixed_settings (js ''m'')" "rated_at mixed_settings (js ''m'')" by code_simp+
qed

text \<open>
  C11: Whatever the administrator selects among the models and fields the table offers and takes back, one
  value or many at a time, from whatever differences the table was rendered with, and however fetches and writes come in between: no model that
  has a resolution has an empty one, none asks for a fixed price and a ratio at once, and none asks for a
  billing expression without its billing mode.
\<close>

theorem resolutions_never_mixed:
  assumes "sync_reachable pg" "(m, r) \<in> set (page_resolutions pg)"
  shows "r \<noteq> [] \<and> \<not> (has_price r \<and> has_ratio r) \<and> (billing_expr \<in> fields r \<longrightarrow> billing_mode \<in> fields r)"
proof -
  have "r \<noteq> [] \<and> consistent r" using reachable_ok [OF assms(1)] assms(2) by (auto simp: resolutions_ok_def)
  then show ?thesis using consistent_one [of r] by (simp add: consistent_def expr_with_mode_def)
qed

theorem resolutions_never_mixed_witness:
  "\<exists>r. (js ''m'', r) \<in> set (page_resolutions sample_page) \<and> r \<noteq> [] \<and> \<not> (has_price r \<and> has_ratio r) \<and>
     (billing_expr \<in> fields r \<longrightarrow> billing_mode \<in> fields r)"
proof -
  have "(js ''m'', [(js ''completion_ratio'', JStr (js ''4''))]) \<in> set (page_resolutions sample_page)" by (simp add: sample_resolution)
  then show ?thesis using resolutions_never_mixed [OF sample_reachable] by blast
qed

text \<open>
  C10: From every reachable state of the page and any settings with the ten keys, the write does not throw.
  It stores every selected value under its setting (numeric fields as numbers) and leaves all settings of
  other models as they are.  A model for which a fixed price was selected then has a fixed price and no
  ratio, one for which a ratio was selected has a ratio and no fixed price, and all other models are billed as
  before.  So the write never gives a model both: only a model that had both, and for which neither was
  selected, keeps both.
\<close>

theorem sync_keeps_one_mode:
  assumes "sync_reachable pg" "map fst st = option_keys"
  shows "\<exists>st'. finalRatios st (page_resolutions pg) = Some st' \<and>
    (\<forall>(m, r) \<in> set (page_resolutions pg). \<forall>f \<in> set r. setting st' (optionKeyBySyncField (fst f)) m = Some (written f)) \<and>
    (\<forall>k m. m \<notin> fields (page_resolutions pg) \<longrightarrow> setting st' k m = setting st k m) \<and>
    (\<forall>(m, r) \<in> set (page_resolutions pg).
       (priced_at st' m \<longleftrightarrow> has_price r \<or> \<not> has_ratio r \<and> priced_at st m) \<and>
       (rated_at st' m \<longleftrightarrow> has_ratio r \<or> \<not> has_price r \<and> rated_at st m) \<and> \<not> (has_price r \<and> has_ratio r)) \<and>
    (\<forall>m. priced_at st' m \<and> rated_at st' m \<longrightarrow> priced_at st m \<and> rated_at st m)"
proof -
  obtain st' where st': "finalRatios st (page_resolutions pg) = Some st'" "\<forall>(m, r) \<in> set (page_resolutions pg). applied st m r st'"
      "\<forall>k m. m \<notin> fields (page_resolutions pg) \<longrightarrow> setting st' k m = setting st k m"
    using reachable_written [OF assms] by blast
  have kinds: "(priced_at st' m \<longleftrightarrow> has_price r \<or> \<not> has_ratio r \<and> priced_at st m) \<and>
      (rated_at st' m \<longleftrightarrow> has_ratio r \<or> \<not> has_price r \<and> rated_at st m) \<and> \<not> (has_price r \<and> has_ratio r)"
    if "(m, r) \<in> set (page_resolutions pg)" for m r
  proof -
    have "consistent r" using reachable_ok [OF assms(1)] that by (auto simp: resolutions_ok_def)
    moreover have "applied st m r st'" using st'(2) that by blast
    ultimately show ?thesis using applied_kinds consistent_one by blast
  qed
  have "priced_at st m \<and> rated_at st m" if "priced_at st' m \<and> rated_at st' m" for m
  proof (cases "m \<in> fields (page_resolutions pg)")
    case True
    then obtain r where "(m, r) \<in> set (page_resolutions pg)" by auto
    then show ?thesis using kinds that by blast
  next
    case False
    then show ?thesis using st'(3) that by (simp add: priced_at_def rated_at_def)
  qed
  moreover have "\<forall>(m, r) \<in> set (page_resolutions pg). \<forall>f \<in> set r. setting st' (optionKeyBySyncField (fst f)) m = Some (written f)"
    using st'(2) by (auto simp: applied_def)
  ultimately show ?thesis using st'(1,3) kinds by (intro exI [of _ st']) blast
qed

text \<open>The model has both a fixed price and a ratio at first, as some models of the shipped settings do.\<close>

theorem sync_keeps_one_mode_witness:
  "\<exists>st'. finalRatios mixed_settings (page_resolutions sample_page) = Some st' \<and>
    setting st' (js ''CompletionRatio'') (js ''m'') = Some (JNum (Fin 4)) \<and>
    priced_at mixed_settings (js ''m'') \<and> rated_at mixed_settings (js ''m'') \<and> \<not> priced_at st' (js ''m'') \<and> rated_at st' (js ''m'')"
proof -
  have k: "optionKeyBySyncField (js ''completion_ratio'') = js ''CompletionRatio''" by code_simp
  have v: "written (js ''completion_ratio'', JStr (js ''4'')) = JNum (Fin 4)" by code_simp
  have "has_ratio [(js ''completion_ratio'', JStr (js ''4''))]" by (simp add: has_ratio_def RATIO_SYNC_FIELDS_def)
  then show ?thesis using sync_keeps_one_mode [OF sample_reachable mixed(1)] mixed(3,4) by (auto simp: sample_resolution k v)
qed

text \<open>
  C19: What a write without a question loses.  When no conflict is shown, a setting that had a value for a
  model has none afterwards exactly if it is one of the seven ratios, the model also had a fixed price, and
  a fixed price is selected for it.  In particular nothing is lost for a model that was billed in one way.
  The settings are read from JSON, so no value in them is undefined.
\<close>

theorem unasked_sync_losses:
  assumes "sync_reachable pg" "map fst st = option_keys" "\<forall>k m. setting st k m \<noteq> Some JUndef" "handleApplySync t st pg = Inr w"
  shows "\<exists>st'. finalRatios st (page_resolutions pg) = Some st' \<and> w = Some (map (\<lambda>(k, r). (k, json_indented 0 (JObj r))) st') \<and>
    (\<forall>k m. setting st k m \<noteq> None \<longrightarrow> (setting st' k m = None \<longleftrightarrow>
       k \<in> set ratio_keys \<and> priced_at st m \<and> (\<exists>r. (m, r) \<in> set (page_resolutions pg) \<and> has_price r)))"
proof -
  obtain st' where st': "finalRatios st (page_resolutions pg) = Some st'" "\<forall>(m, r) \<in> set (page_resolutions pg). applied st m r st'"
      "\<forall>k m. m \<notin> fields (page_resolutions pg) \<longrightarrow> setting st' k m = setting st k m"
    using reachable_written [OF assms(1,2)] by blast
  have ok: "resolutions_ok (page_resolutions pg)" by (rule reachable_ok [OF assms(1)])
  have calm: "\<not> is_conflict st p" if "p \<in> set (page_resolutions pg)" for p
    using assms(4) that by (auto simp: handleApplySync_def Let_def filter_empty_conv split: if_splits)
  have w: "w = performSync st (page_resolutions pg)" using assms(4) by (simp add: handleApplySync_def Let_def split: if_splits)
  have "setting st' k m = None \<longleftrightarrow> k \<in> set ratio_keys \<and> priced_at st m \<and> (\<exists>r. (m, r) \<in> set (page_resolutions pg) \<and> has_price r)"
    if old: "setting st k m \<noteq> None" for k m
  proof (cases "m \<in> fields (page_resolutions pg)")
    case True
    then obtain r where mr: "(m, r) \<in> set (page_resolutions pg)" by auto
    then have only: "(\<exists>r. (m, r) \<in> set (page_resolutions pg) \<and> has_price r) \<longleftrightarrow> has_price r"
      using ok by (auto simp: resolutions_ok_def dest: eq_key_imp_eq_value)
    have c: "consistent r" using ok mr by (auto simp: resolutions_ok_def)
    have a: "applied st m r st'" using st'(2) mr by blast
    show ?thesis unfolding only by (rule lost_setting [OF a c calm [OF mr] assms(3) old])
  next
    case False
    then show ?thesis using st'(3) old by force
  qed
  then show ?thesis using st'(1) w by (simp add: performSync_def)
qed

text \<open>The fixed price is selected alone, for a model with both: its ratio is lost and no conflict is shown.\<close>

theorem unasked_sync_losses_witness:
  "\<exists>w st'. handleApplySync id mixed_settings price_page = Inr w \<and> finalRatios mixed_settings (page_resolutions price_page) = Some st' \<and>
    setting mixed_settings (js ''ModelRatio'') (js ''m'') \<noteq> None \<and> setting st' (js ''ModelRatio'') (js ''m'') = None"
proof -
  have res: "page_resolutions price_page = [(js ''m'', [(model_price, JNum (Fin 2))])]" by code_simp
  have "\<not> is_conflict mixed_settings (js ''m'', [(model_price, JNum (Fin 2))])" by code_simp
  then obtain w where w: "handleApplySync id mixed_settings price_page = Inr w" by (simp add: handleApplySync_def Let_def res)
  have old: "setting mixed_settings (js ''ModelRatio'') (js ''m'') \<noteq> None" by code_simp
  have key: "js ''ModelRatio'' \<in> set ratio_keys" by code_simp
  show ?thesis using unasked_sync_losses [OF price_reachable mixed(1,2) w] w old key mixed(3) by (auto simp: res has_price_def)
qed

end
