(* ===== verification/Spec2Isabelle.thy ===== *)
theory Spec2Isabelle
  imports StatusCodeRules HttpClient PlaygroundStorage PlaygroundOptions TaskMatrixRead PricingPage PriceSyncSafety
begin

text \<open>
  \<^bold>\<open>A verification development of the web console under \<open>src/web/src\<close>.\<close>

  The repository is an API gateway for language models.  Its server is written in Go; its web console
  is the TypeScript program under \<open>src/web/src\<close>, and the logic of that program is what is modelled
  here: the login session of a page and its HTTP client, the chat playground, the rules for HTTP status
  codes, the expressions that price requests, and the synchronisation of prices with other gateways.
  All file names below are relative to \<open>src/web/src\<close>.

  \<^bold>\<open>The language.\<close>  \<open>JsPrelude\<close>, \<open>JsNumber\<close>, \<open>JsValue\<close>, \<open>JsText\<close> and \<open>JsJson\<close> model the parts of JavaScript
  that the sources use.  A string is the list of its UTF-16 code units, written \<open>js ''...''\<close>; a number is a
  binary64 value, rounded to nearest even after every operation; a value of type \<open>unknown\<close> is a \<open>jsval\<close>;
  an object is the list of its properties in the order JavaScript enumerates them.  \<open>String\<close>, \<open>Number\<close>,
  \<open>JSON.parse\<close> and \<open>JSON.stringify\<close> are functions, with the round trips the components rely on proved
  once.  \<open>Array.sort\<close> is a stable sort over a comparator; the locale \<open>js_comparator\<close> says what it asks of one.

  \<^bold>\<open>Login session\<close> (\<open>stores/auth-store.ts\<close>, \<open>lib/auth-session.ts\<close>, \<open>lib/auth-session-sync.ts\<close>,
  \<open>lib/session-hint.ts\<close>, the listener of \<open>routes/__root.tsx\<close>, and what
  \<open>features/auth/otp/components/otp-form.tsx\<close> does with the answer to a second factor).
  \<^item> \<open>AuthStore\<close>: the store as a record and its five operations.
  \<^item> \<open>SessionSync\<close>: events between tabs over the broadcast channel and local storage, and the hint cookie.
    An event reaches another tab unchanged, over both transports, exactly when it should.
  \<^item> \<open>AuthSession\<close>: validation of responses and the refresh runner.  The runner is cut at each \<open>await\<close>:
    \<open>run_enter\<close> gives the first thing it waits for, \<open>run_resume\<close> what happens when that arrives.
    The locale \<open>refresh_runtime\<close> is its contract with the page and is interpreted on the page's own runtime.
  \<^item> \<open>AuthProtocol\<close>: the page as a transition system.  Calls, answers, timers, lock decisions and events of
    other tabs come in any order; invariants are proved by induction over reachable states.  A sign-out is
    not undone by a refresh that was under way; a refresh takes at most sixteen steps and eight requests; its
    outcome agrees with the store; headers are handed out with the token a refresh has just received or with
    one that has not expired.  Most sign-ins check what the server sends (\<open>SignIn\<close>); the form of the second
    factor does not (\<open>SignInOtp\<close>).  Token, expiry and session agree in every state as long as what that form is
    sent would pass the check, and one theorem shows what an answer without a session leads to.
    \<open>performRefreshWithBrowserLock\<close> catches an exception of \<open>navigator.locks\<close> itself (\<open>LocksThrow\<close>); a lock request
    rejected later (\<open>LockFailed\<close>) is not caught by the source, which returns the promise without awaiting it.

  \<^bold>\<open>HTTP client\<close> (\<open>lib/http-client.ts\<close>, \<open>lib/server-error-message.ts\<close>), theory \<open>HttpClient\<close>: the interceptors,
  sharing of GET requests and the retry after a refresh.  A request is sent at most twice, the second time
  with the new token; a GET is shared until it settles and never across sessions.

  \<^bold>\<open>Playground\<close> (\<open>features/playground\<close>).
  \<^item> \<open>Messages\<close>: messages, versions, reasoning and the think tags of an answer; cutting loses nothing.
  \<^item> \<open>Streaming\<close>: chunks, stream messages, errors and the request payload; the chunks add up to the answer.
  \<^item> \<open>StreamController\<close>: the controller of \<open>hooks/use-stream-request.ts\<close> with its event sources; a request
    ends at most once and a superseded one is silent.
  \<^item> \<open>ChatHandler\<close>: \<open>hooks/use-chat-handler.ts\<close> and \<open>hooks/use-playground-conversation.ts\<close>.  React runs state
    updaters later, so the handler has a queue of updates that drains in any interleaving with chunks and
    timers.  The answer that is shown in the end is the visible part of all chunks, unless a run of chunks
    starts with the text of the run before it.
  \<^item> \<open>PlaygroundStorage\<close>: schemas, envelopes, limits, loading, saving and the state hook.  The validation
    library is the parameter \<open>parse\<close>; the locale \<open>schema_parser\<close> has what is relied on, and \<open>zod_parse\<close>
    interprets it.  Leaving the playground within the console runs the cleanup of the hook, which stores the
    conversation, and loading gives it back; closing the tab runs nothing, so then a save that is still due is
    lost.
  \<^item> \<open>PlaygroundOptions\<close>: parameters, selection of model and group on the state of the hook, whose configuration
    they change and save, input, guards of the actions.

  \<^bold>\<open>Status codes\<close> (\<open>lib/http-status-code-rules.ts\<close>), theory \<open>StatusCodeRules\<close>: parsing and merging of ranges.
  An accepted text selects exactly the codes its tokens name; merging is exact; two texts select the
  same codes iff they have the same normalized text.

  \<^bold>\<open>Request rules of billing expressions\<close> (\<open>features/pricing/lib/billing-expr.ts\<close>).
  \<^item> \<open>BillingRules\<close>: conditions, the parser, the splitter, the editor and the builder.  The regular
    expressions are anchored and are written as deterministic scans.
  \<^item> \<open>RuleScanning\<close> and \<open>RuleRoundtrip\<close>: what each scan does on built text, up to the theorem that groups
    of rules are read back from the expression built for them.
  \<^item> \<open>RuleEditing\<close>: combining an expression with its rules and splitting it again; texts in which the splitter
    finds no rule; comparisons of a parameter, which are built but not read back.

  \<^bold>\<open>Task pricing\<close> (\<open>features/pricing/lib/task-expr.ts\<close> and the task parser of \<open>billing-expr.ts\<close>).
  \<^item> \<open>TaskTiers\<close>: usage schemas, the three scanners that respect quotes and parentheses, and the parser.
  \<^item> \<open>TaskPricing\<close>: the price matrix, the tiers it stands for, normalising, writing, reading, the preview.
  \<^item> \<open>TaskScanning\<close>: the locale \<open>quoted_scan\<close>, the contract of the three scanners, interpreted on each.
  \<^item> \<open>TaskRoundtrip\<close>: a configuration is read back from its expression.
  \<^item> \<open>TaskMatrix\<close>: the combinations are complete and distinct, and a sample of usage facts is charged by
    the row of its own combination.
  \<^item> \<open>TaskMatrixRead\<close>: a saved matrix is read back row by row.

  \<^bold>\<open>Token pricing\<close> (\<open>features/pricing/lib/tier-expr.ts\<close>, \<open>breakdown-tier-match.ts\<close> and the token parser of
  \<open>billing-expr.ts\<close>).
  \<^item> \<open>JsRegex\<close>: regular expressions that backtrack, as lists of all ways to match in the order JavaScript
    tries them, and the matches of a global expression from left to right.
  \<^item> \<open>BillingTiers\<close>: the registry of variables and the parser of the price table.
  \<^item> \<open>TierEditor\<close>: normal forms of visual tiers, writing and reading an expression, the local evaluator.
    Writing throws for conditions that are no array or hold a null, so the writer returns an option; the tiers
    themselves are taken to be objects.
  \<^item> \<open>TierRoundtrip\<close>: the table shows exactly the tiers the editor wrote, with labels, conditions and prices;
    and two texts outside the grammar.
  \<^item> \<open>TierNormal\<close>: normalising a configuration with a tier changes neither the generated expression nor whether
    generating it throws.
  \<^item> \<open>TierReading\<close>: whatever the visual reader returns has the declared types, for every text.
  \<^item> \<open>TierReadBack\<close>: the visual reader accepts the expression the editor generates, for configurations whose
    labels, prices and bounds can be written down, and what it returns has the same prices and generates the
    same expression.
  \<^item> \<open>TierMatch\<close>: which row was charged; the label decides wherever a row carries it.
  \<^item> \<open>PricingPage\<close>: the tiers and rules the pricing page finds in a saved model (\<open>dynamic-price.ts\<close>).  One
    theorem goes through all of the pricing theories: tiers and rules that their editors can carry, combined,
    saved and split, are the tiers and rules the page shows.

  \<^bold>\<open>Price synchronisation\<close> (\<open>features/system-settings/models/upstream-ratio-sync-helpers.ts\<close>,
  \<open>upstream-ratio-sync.tsx\<close>, \<open>conflict-confirm-dialog.tsx\<close>).
  \<^item> \<open>PriceSync\<close>: the differences the server reports, the resolutions the administrator picks, the events of
    the page, the conflicts it asks about and the settings it writes.
  \<^item> \<open>PriceSyncSafety\<close>: in every reachable state no resolution mixes a fixed price with a ratio; writing does not
    throw, stores what was selected and never gives a model both; a write without a question loses exactly the
    ratios of models that had both and get a fixed price.

  \<^bold>\<open>Parameters.\<close>  Code outside the repository is an argument of the definitions that use it: the transport of
  the HTTP client, the clock, browser locks, random identifiers, the schema library, translations,
  \<open>toLowerCase\<close>, the compiler behind \<open>new Function\<close>, and \<open>localeCompare\<close>, whose order depends on the browser.  Where a theorem needs something of a parameter the
  hypothesis is named in it, and its witness instantiates the parameter with a concrete function.

  \<^bold>\<open>Loops and fuel.\<close>  Loops are recursive functions with a termination proof.  \<open>JSON.parse\<close> recurses on a
  fuel of two more than twice the length of its text, which suffices because an element of an array or an
  object takes two calls and at least one code unit; \<open>json_parse_text\<close> shows that it reads every printed value.  The state machines have no
  fuel: they are step functions on events, and claims that something ends bound the number of steps.

  \<^bold>\<open>Numbers.\<close>  The round trips of prices assume \<open>price_ok\<close>: the number is printed as a numeral that is read
  back as the same number (\<open>cost_ok\<close> for token prices).  \<open>price_ok\<close> is proved for the integers up to \<open>2 ^ 53\<close> and can be evaluated for any other.
  Negative zero is identified with zero.

  \<^bold>\<open>Not modelled.\<close>  The list of time zone labels of \<open>billing-expr.ts\<close>.  Of \<open>dynamic-price.ts\<close> the price entries
  and card examples, which are strings of the browser's currency formatting.  Of the price synchronisation the
  selection of channels and their endpoints, the translated field label and the table.  The React components and routes, which
  turn state into markup; generated code (\<open>routeTree.gen.ts\<close>); translation tables; the tables, forms and
  charts of the other features, which call the server through the HTTP client and show what it returns.
  The Go server, the desktop wrapper under \<open>src/electron\<close> and the deployment files are other programs in
  other languages.
\<close>

end
